(* ===== verification/Prelude.thy ===== *)
theory Prelude
  imports Main "HOL-Library.Word"
begin

unbundle bit_operations_syntax

text \<open>
  The prelude of the development: the error values that stand for the C++ exceptions of the
  program, the sequencing operator of fallible code, bounds-checked access to a
  \<^verbatim>\<open>std::vector\<close>, the machine-integer types, and the lemmas about lists and 64-bit
  words that every component uses.

  Conventions of all the theories:
  \<^item> a C++ function that can throw returns a value of type \<open>'a result\<close>; \<open>Inl\<close> is the
    exception that leaves the function, \<open>Inr\<close> its value;
  \<^item> an access \<^verbatim>\<open>v[i]\<close> past the end of a vector or string, and a shift by the width of
    the type or more, are undefined behaviour in C++; the model has the error value
    \<open>UndefinedBehaviour\<close> there, so that a theorem that a function returns \<open>Inr\<close> also
    states that it never runs into undefined behaviour;
  \<^item> \<^verbatim>\<open>uint64_t\<close> values are 64-bit words (arithmetic wraps), sizes and indices of
    containers (\<^verbatim>\<open>size_t\<close>) are natural numbers: a container of \<open>2 ^ 60\<close> elements does
    not exist, so their additions do not wrap.
\<close>

subsection \<open>Machine integers\<close>

type_synonym u64 = "64 word"
type_synonym u32 = "32 word"
type_synonym u16 = "16 word"
type_synonym u8 = "8 word"

subsection \<open>Collections of facts\<close>

named_theorems res_simps \<open>equations and equivalences of the result operators\<close>
named_theorems bit_rules \<open>what the bit operations of the code read at one bit position\<close>
named_theorems stream_laws \<open>the laws of the bit stream's operations\<close>

subsection \<open>Errors as values\<close>

datatype cpp_error =
    OutOfRange string           \<comment> \<open>\<^verbatim>\<open>std::out_of_range\<close>\<close>
  | InvalidArgument string      \<comment> \<open>\<^verbatim>\<open>std::invalid_argument\<close>\<close>
  | RuntimeError string         \<comment> \<open>\<^verbatim>\<open>std::runtime_error\<close>\<close>
  | RulesException string       \<comment> \<open>\<^verbatim>\<open>DigiAssetRules::exception\<close>\<close>
  | InvalidIssuance             \<comment> \<open>\<^verbatim>\<open>DigiAsset::exceptionInvalidIssuance\<close>\<close>
  | InvalidTransfer             \<comment> \<open>\<^verbatim>\<open>DigiAsset::exceptionInvalidTransfer\<close>\<close>
  | WriteProtected              \<comment> \<open>\<^verbatim>\<open>DigiAsset::exceptionWriteProtected\<close>\<close>
  | UnknownAssetIndex           \<comment> \<open>\<^verbatim>\<open>DigiAsset::exceptionUnknownAssetIndex\<close>\<close>
  | RuleFailed string           \<comment> \<open>\<^verbatim>\<open>DigiAsset::exceptionRuleFailed\<close>\<close>
  | TransactionException string \<comment> \<open>\<^verbatim>\<open>DigiByteTransaction::exception\<close>\<close>
  | UnknownValue                \<comment> \<open>\<^verbatim>\<open>KYC::exceptionUnknownValue\<close>\<close>
  | InvalidCID string           \<comment> \<open>\<^verbatim>\<open>IPFS::exceptionInvalidCID\<close>\<close>
  | DatabaseException string    \<comment> \<open>\<^verbatim>\<open>Database::exception\<close>\<close>
  | DataPruned                  \<comment> \<open>\<^verbatim>\<open>Database::exceptionDataPruned\<close>\<close>
  | NotEnoughFunds              \<comment> \<open>\<^verbatim>\<open>DigiByteTransaction::exceptionNotEnoughFunds\<close>\<close>
  | DigiByteException int string \<comment> \<open>\<^verbatim>\<open>DigiByteException\<close>: the error code and the message\<close>
  | UndefinedBehaviour          \<comment> \<open>no exception: the C++ program has no defined meaning\<close>

type_synonym 'a result = "cpp_error + 'a"

definition bindE :: "'e + 'a \<Rightarrow> ('a \<Rightarrow> 'e + 'b) \<Rightarrow> 'e + 'b" where
  "bindE m f = (case m of Inl e \<Rightarrow> Inl e | Inr x \<Rightarrow> f x)"

definition guardE :: "bool \<Rightarrow> 'e \<Rightarrow> 'e + unit" where
  "guardE b e = (if b then Inr () else Inl e)"

fun foldE :: "('a \<Rightarrow> 's \<Rightarrow> 'e + 's) \<Rightarrow> 'a list \<Rightarrow> 's \<Rightarrow> 'e + 's" where
  "foldE f [] s = Inr s"
| "foldE f (x # xs) s = bindE (f x s) (foldE f xs)"

definition is_ok :: "'e + 'a \<Rightarrow> bool" where
  "is_ok r = (case r of Inl _ \<Rightarrow> False | Inr _ \<Rightarrow> True)"

text \<open>
  \<^verbatim>\<open>try { m } catch (const std::exception&) { h }\<close>: every exception class of the program
  derives from \<^verbatim>\<open>std::exception\<close>; undefined behaviour is not an exception.
\<close>

definition catchE :: "'a result \<Rightarrow> (cpp_error \<Rightarrow> 'a result) \<Rightarrow> 'a result" where
  "catchE m h =
     (case m of Inr x \<Rightarrow> Inr x | Inl UndefinedBehaviour \<Rightarrow> Inl UndefinedBehaviour | Inl e \<Rightarrow> h e)"

subsection \<open>Vectors\<close>

definition vec_get :: "'a list \<Rightarrow> nat \<Rightarrow> 'a result" where
  "vec_get xs i = (if i < length xs then Inr (xs ! i) else Inl UndefinedBehaviour)"

definition vec_set :: "'a list \<Rightarrow> nat \<Rightarrow> 'a \<Rightarrow> 'a list result" where
  "vec_set xs i x = (if i < length xs then Inr (xs[i := x]) else Inl UndefinedBehaviour)"

text \<open>\<^verbatim>\<open>std::vector::resize\<close>: truncate, or append value-initialised elements.\<close>

definition vec_resize :: "'a \<Rightarrow> nat \<Rightarrow> 'a list \<Rightarrow> 'a list" where
  "vec_resize z n xs = take n xs @ replicate (n - length xs) z"

subsection \<open>Lemmas of the result operators\<close>

lemma bindE_simps [simp, res_simps]:
  "bindE (Inl e) f = Inl e"
  "bindE (Inr x) f = f x"
  by (simp_all add: bindE_def)

lemma bindE_Inr_iff [res_simps]: "bindE m f = Inr y \<longleftrightarrow> (\<exists>x. m = Inr x \<and> f x = Inr y)"
  by (cases m) auto

lemma bindE_Inl_iff [res_simps]:
  "bindE m f = Inl e \<longleftrightarrow> m = Inl e \<or> (\<exists>x. m = Inr x \<and> f x = Inl e)"
  by (cases m) auto

lemma bindE_E: "bindE m f = Inr y \<Longrightarrow> (\<And>x. m = Inr x \<Longrightarrow> f x = Inr y \<Longrightarrow> R) \<Longrightarrow> R"
  by (cases m) auto

lemma bindE_Inr_right [simp]: "bindE m Inr = m"
  by (cases m) auto

lemma foldE_Nil [simp]: "foldE f [] = Inr"
  by (simp add: fun_eq_iff)

lemma bindE_assoc: "bindE (bindE m f) g = bindE m (\<lambda>x. bindE (f x) g)"
  by (cases m) auto

lemma bindE_cong [fundef_cong]:
  "m = m' \<Longrightarrow> (\<And>x. m' = Inr x \<Longrightarrow> f x = f' x) \<Longrightarrow> bindE m f = bindE m' f'"
  by (cases m') auto

lemma guardE_simps [simp, res_simps]:
  "guardE True e = Inr ()"
  "guardE False e = Inl e"
  by (simp_all add: guardE_def)

lemma guardE_Inr_iff [res_simps]: "guardE b e = Inr u \<longleftrightarrow> b"
  by (simp add: guardE_def)

lemma guardE_Inl_iff [res_simps]: "guardE b e = Inl e' \<longleftrightarrow> \<not> b \<and> e' = e"
  by (auto simp: guardE_def)

lemma catchE_simps [simp, res_simps]:
  "catchE (Inr x) h = Inr x"
  "catchE (Inl UndefinedBehaviour) h = Inl UndefinedBehaviour"
  "catchE (Inl (OutOfRange msg)) h = h (OutOfRange msg)"
  by (simp_all add: catchE_def)

lemma is_ok_simps [simp]: "is_ok (Inr x)" "\<not> is_ok (Inl e)"
  by (simp_all add: is_ok_def)

lemma is_ok_iff: "is_ok r \<longleftrightarrow> (\<exists>x. r = Inr x)"
  by (cases r) auto

lemma foldE_append: "foldE f (xs @ ys) s = bindE (foldE f xs s) (foldE f ys)"
proof (induction xs arbitrary: s)
  case (Cons x xs)
  then show ?case by (cases "f x s") auto
qed simp

lemma foldE_invariant:
  assumes "foldE f xs s = Inr t" and "P s"
    and "\<And>x u v. x \<in> set xs \<Longrightarrow> P u \<Longrightarrow> f x u = Inr v \<Longrightarrow> P v"
  shows "P t"
  using assms
proof (induction xs arbitrary: s)
  case (Cons x xs)
  then obtain u where u: "f x s = Inr u" and rest: "foldE f xs u = Inr t"
    by (auto simp: res_simps)
  have "P u" using Cons.prems u by auto
  then show ?case using Cons.IH rest Cons.prems(3) by auto
qed simp

lemma vec_get_ok [simp]: "i < length xs \<Longrightarrow> vec_get xs i = Inr (xs ! i)"
  by (simp add: vec_get_def)

lemma vec_set_ok [simp]: "i < length xs \<Longrightarrow> vec_set xs i x = Inr (xs[i := x])"
  by (simp add: vec_set_def)

lemma vec_get_Inr_iff [res_simps]: "vec_get xs i = Inr x \<longleftrightarrow> i < length xs \<and> xs ! i = x"
  by (auto simp: vec_get_def)

lemma vec_get_Inl_iff [res_simps]:
  "vec_get xs i = Inl e \<longleftrightarrow> length xs \<le> i \<and> e = UndefinedBehaviour"
  by (auto simp: vec_get_def)

lemma vec_set_Inr_iff [res_simps]:
  "vec_set xs i x = Inr ys \<longleftrightarrow> i < length xs \<and> ys = xs[i := x]"
  by (auto simp: vec_set_def)

lemma length_vec_resize [simp]: "length (vec_resize z n xs) = n"
  by (simp add: vec_resize_def)

lemma nth_vec_resize:
  "i < n \<Longrightarrow> vec_resize z n xs ! i = (if i < length xs then xs ! i else z)"
  by (simp add: vec_resize_def nth_append)

subsection \<open>Words and naturals\<close>

lemma unat_of_nat64: "n < 2 ^ 64 \<Longrightarrow> unat (of_nat n :: u64) = n"
  by (simp add: unat_of_nat)

lemma ucast_byte [simp]:
  "unat (ucast (b::u8) :: u64) = unat b"
  "ucast (ucast (b::u8) :: u64) = b"
proof -
  have "unat b < 2 ^ 8" using unsigned_less[of b] by simp
  then show "unat (ucast b :: u64) = unat b" by (simp add: unsigned_ucast_eq take_bit_nat_eq_self)
  show "ucast (ucast b :: u64) = b" by (rule bit_word_eqI) (simp add: bit_unsigned_iff)
qed

end
