(* ===== verification/BitStream_Spec.thy ===== *)
theory BitStream_Spec
  imports BitStream
begin

unbundle bit_operations_syntax

text \<open>
  What the raw operations of the bit stream do, stated on the list of the bits of the stream.
  \<open>to_bits\<close> abstracts a stream to its bits, \<open>rest_bits\<close> to the bits behind the cursor, and
  \<open>bitio_inv\<close> is the class invariant: the vector has exactly the longs the length needs, the
  cursor is inside the data and the unused bits of the last long are zero. Each operation has
  one \<open>_spec\<close> lemma: it succeeds, keeps the invariant, and its effect on the bits is an append,
  a read, an overwrite or an insertion in the middle. The locale \<open>bit_channel\<close> states the two
  laws the encoders and decoders rely on, and is interpreted on \<open>appendBits\<close> and \<open>getBits\<close>.
\<close>

subsection \<open>Abstraction: the bits of a stream\<close>

definition fits :: "nat \<Rightarrow> u64 \<Rightarrow> bool" where
  "fits n v \<longleftrightarrow> unat v < 2 ^ n"

definition val_bits :: "nat \<Rightarrow> u64 \<Rightarrow> bool list" where
  "val_bits n v = map (\<lambda>i. bit v (n - 1 - i)) [0..<n]"

definition long_bit :: "u64 list \<Rightarrow> nat \<Rightarrow> bool" where
  "long_bit bs i = bit (bs ! (i div 64)) (63 - i mod 64)"

definition to_bits :: "BitIO \<Rightarrow> bool list" where
  "to_bits s = map (long_bit (bits s)) [0..<blength s]"

definition rest_bits :: "BitIO \<Rightarrow> bool list" where
  "rest_bits s = drop (position s) (to_bits s)"

definition bitio_inv :: "BitIO \<Rightarrow> bool" where
  "bitio_inv s \<longleftrightarrow>
     length (bits s) = (blength s + 63) div 64 \<and> position s \<le> blength s \<and>
     list_all (\<lambda>i. \<not> long_bit (bits s) i) [blength s..<64 * length (bits s)]"

definition append_effect :: "BitIO \<Rightarrow> u64 \<Rightarrow> nat \<Rightarrow> u64 list \<Rightarrow> bool" where
  "append_effect s v n bs \<longleftrightarrow>
     length bs = (blength s + n + 63) div 64 \<and>
     (\<forall>i < 64 * length bs. long_bit bs i \<longleftrightarrow>
        (if i < blength s then long_bit (bits s) i
         else i < blength s + n \<and> bit v (blength s + n - 1 - i)))"

definition overwrite_effect :: "u64 list \<Rightarrow> nat \<Rightarrow> u64 \<Rightarrow> nat \<Rightarrow> u64 list \<Rightarrow> bool" where
  "overwrite_effect bs0 p v n bs \<longleftrightarrow>
     length bs = max (length bs0) ((p + n + 63) div 64) \<and>
     (\<forall>i < 64 * length bs. long_bit bs i \<longleftrightarrow>
        (if p \<le> i \<and> i < p + n then bit v (p + n - 1 - i)
         else i < 64 * length bs0 \<and> long_bit bs0 i))"

definition moved_effect :: "u64 list \<Rightarrow> nat \<Rightarrow> nat \<Rightarrow> u64 list \<Rightarrow> bool" where
  "moved_effect bs0 p n bs \<longleftrightarrow> length bs = length bs0 \<and>
     (\<forall>i < 64 * length bs. (i < p \<longrightarrow> long_bit bs i = long_bit bs0 i) \<and>
        (p + n \<le> i \<longrightarrow> long_bit bs i = long_bit bs0 (i - n)))"

text \<open>
  \<open>ahead s bl\<close>: a reader at the cursor of \<open>s\<close> finds the bits \<open>bl\<close> next; \<open>skip_bits\<close> moves the
  cursor. \<open>holds s bl\<close>: \<open>s\<close> is a well-formed stream of exactly these bits, its cursor at the
  beginning, which is how the static \<open>make\<close> functions return their result.
\<close>

definition ahead :: "BitIO \<Rightarrow> bool list \<Rightarrow> bool" where
  "ahead s bl \<longleftrightarrow> bitio_inv s \<and> take (length bl) (rest_bits s) = bl"

definition skip_bits :: "nat \<Rightarrow> BitIO \<Rightarrow> BitIO" where
  "skip_bits n s = s\<lparr>position := position s + n\<rparr>"

definition holds :: "BitIO \<Rightarrow> bool list \<Rightarrow> bool" where
  "holds s bl \<longleftrightarrow> bitio_inv s \<and> position s = 0 \<and> to_bits s = bl"

definition field_ok :: "nat \<Rightarrow> u64 \<Rightarrow> bool" where
  "field_ok n v \<longleftrightarrow> 0 < n \<and> n \<le> 64 \<and> fits n v"

text \<open>A sequence of fields, each a width and a value, written and read one after the other.\<close>

definition put_fields :: "(u64 \<Rightarrow> nat \<Rightarrow> 's \<Rightarrow> 's result) \<Rightarrow> (nat \<times> u64) list \<Rightarrow> 's \<Rightarrow> 's result" where
  "put_fields put fs = foldE (\<lambda>(n, v). put v n) fs"

fun get_fields :: "(nat \<Rightarrow> 's \<Rightarrow> (u64 \<times> 's) result) \<Rightarrow> nat list \<Rightarrow> 's \<Rightarrow> (u64 list \<times> 's) result" where
  "get_fields get [] s = Inr ([], s)"
| "get_fields get (n # ns) s =
     bindE (get n s) (\<lambda>(v, s'). bindE (get_fields get ns s') (\<lambda>(vs, s''). Inr (v # vs, s'')))"

definition fields_image :: "(nat \<times> u64) list \<Rightarrow> bool list" where
  "fields_image fs = concat (map (\<lambda>(n, v). val_bits n v) fs)"

text \<open>The format of an amount: whatever the encoder writes for it.\<close>

definition made :: "('a \<Rightarrow> BitIO result) \<Rightarrow> 'a \<Rightarrow> bool list" where
  "made enc v = (case enc v of Inr b \<Rightarrow> to_bits b | Inl _ \<Rightarrow> [])"

subsection \<open>Bits of the word operations\<close>

lemma fits_not_bit: 
  assumes "fits n v" "n \<le> k" shows "\<not> bit v k"
proof
  assume b: "bit v k"
  have "bit (unat v) k" using b by (simp add: bit_unsigned_iff)
  then have "2 ^ k \<le> unat v" by (metis bit_nat_iff bit_iff_odd div_less leI even_zero)
  moreover have "(2::nat) ^ n \<le> 2 ^ k" using assms(2) by simp
  ultimately show False using assms(1) unfolding fits_def by linarith
qed

lemma bit_word64 [bit_rules]:
  fixes w :: u64
  shows "bit (push_bit n w) m \<longleftrightarrow> n \<le> m \<and> m < 64 \<and> bit w (m - n)"
    and "bit (drop_bit n w) m \<longleftrightarrow> bit w (n + m)"
    and "bit (w AND w') m \<longleftrightarrow> bit w m \<and> bit w' m"
    and "bit (w OR w') m \<longleftrightarrow> bit w m \<or> bit w' m"
    and "bit (NOT w) m \<longleftrightarrow> m < 64 \<and> \<not> bit w m"
    and "bit (0::u64) m \<longleftrightarrow> False"
  by (auto simp: bit_push_bit_iff bit_drop_bit_eq bit_and_iff bit_or_iff bit_not_iff)

lemma bit_word64_ge: "bit (w::u64) m \<Longrightarrow> m < 64"
  using bit_imp_le_length[of w m] by simp

lemma makeRightMask_mask: "n \<le> 64 \<Longrightarrow> makeRightMask n = mask n"
  by (auto simp: makeRightMask_def mask_eq_exp_minus_1 push_bit_eq_mult)

lemma bit_makeRightMask [bit_rules]: "n \<le> 64 \<Longrightarrow> bit (makeRightMask n) m \<longleftrightarrow> m < n"
  by (auto simp: makeRightMask_mask bit_mask_iff)

lemma bit_makeCenterMask [bit_rules]:
  "n \<le> 64 \<Longrightarrow> bit (makeCenterMask n k) m \<longleftrightarrow> k \<le> m \<and> m < 64 \<and> m < n + k"
  by (auto simp: makeCenterMask_def bit_rules)

lemma bit_makeLeftMask [bit_rules]: "n \<le> 64 \<Longrightarrow> bit (makeLeftMask n) m \<longleftrightarrow> m < 64 \<and> 64 - n \<le> m"
  by (auto simp: makeLeftMask_def bit_rules)

lemma checkLength_ok [simp]: "0 < n \<Longrightarrow> n \<le> 64 \<Longrightarrow> checkLength n 64 = Inr ()"
  by (simp add: checkLength_def)

lemma unat_exp64: "n < 64 \<Longrightarrow> unat (push_bit n 1 :: u64) = 2 ^ n"
proof -
  assume n: "n < 64"
  have "(push_bit n 1 :: u64) = of_nat (2 ^ n)" by (simp add: push_bit_eq_mult)
  moreover have "(2::nat) ^ n < 2 ^ 64" using n by (intro power_strict_increasing) auto
  ultimately show ?thesis by (simp only: unat_of_nat) simp
qed

lemma checkValueSize_ok [simp]:
  assumes "0 < n" "n \<le> 64" "fits n v" shows "checkValueSize v n = Inr ()"
proof (cases "n = 64")
  case False
  have "unat (push_bit n 1 :: u64) = 2 ^ n"
    using assms(2) False by (intro unat_exp64) simp
  then have "v < push_bit n 1" using assms(3) by (simp add: fits_def word_less_nat_alt)
  then show ?thesis using assms False by (simp add: checkValueSize_def)
qed (simp add: checkValueSize_def)

lemma checkValueSize_too_big:
  assumes "0 < n" "n < 64" "\<not> fits n v" 
  shows "checkValueSize v n = Inl (OutOfRange ''value must be smaller than length bits'')"
proof -
  have "unat (push_bit n 1 :: u64) = 2 ^ n"
    using assms(2) by (intro unat_exp64) simp
  then have "push_bit n 1 \<le> v" using assms(3) by (simp add: fits_def word_le_nat_alt)
  then show ?thesis using assms by (simp add: checkValueSize_def)
qed

lemma fits64: "fits 64 v"
  using unsigned_less[where w = v, where ?'a = nat] by (simp add: fits_def)

lemma long_bit_add: "r < 64 \<Longrightarrow> long_bit bs (64 * q + r) = bit (bs ! q) (63 - r)"
  by (simp add: long_bit_def)

lemma bitio_inv_longs: "bitio_inv s \<Longrightarrow> i < blength s \<Longrightarrow> i div 64 < length (bits s)"
  unfolding bitio_inv_def by (auto simp: div_less_iff_less_mult) 

lemma bitio_inv_padding:
  "bitio_inv s \<Longrightarrow> blength s \<le> i \<Longrightarrow> i < 64 * length (bits s) \<Longrightarrow> \<not> long_bit (bits s) i"
  by (auto simp: bitio_inv_def list_all_iff)

lemma bitio_inv_set_bit:
  "bitio_inv s \<Longrightarrow>
     i < 64 * length (bits s) \<and> long_bit (bits s) i \<longleftrightarrow> i < blength s \<and> long_bit (bits s) i"
proof -
  assume inv: "bitio_inv s"
  then have "blength s \<le> 64 * length (bits s)" by (simp add: bitio_inv_def)
  then show ?thesis using bitio_inv_padding[OF inv, of i] by (meson leI less_le_trans)
qed

lemma bitio_inv_position: "bitio_inv s \<Longrightarrow> position s \<le> blength s"
  by (simp add: bitio_inv_def)

lemma getBits_bits:
  assumes inv: "bitio_inv s" and n: "0 < n" "n \<le> 64" and avail: "position s + n \<le> blength s"
  shows "\<exists>v. getBits n s = Inr (v, s\<lparr>position := position s + n\<rparr>) \<and>
             (\<forall>k. bit v k \<longleftrightarrow> k < n \<and> long_bit (bits s) (position s + n - 1 - k))"
proof -
  define q r where "q = position s div 64" and "r = position s mod 64"
  have pos: "position s = 64 * q + r" and r: "r < 64"
    by (simp_all add: q_def r_def)
  have q: "q < length (bits s)"
    using bitio_inv_longs[OF inv, of "position s"] n avail by (simp add: q_def)
  have guards: "checkLength n 64 = Inr ()" "checkAvailableBits s n = Inr ()"
    using n avail by (simp_all add: checkAvailableBits_def)
  show ?thesis
  proof (cases "r + n \<le> 64")
    case True
    define v where "v = drop_bit (64 - r - n) (bits s ! q) AND makeRightMask n"
    have "min (64 - r) n = n" using True by simp
    then have "getBits n s = Inr (v, s\<lparr>position := position s + n\<rparr>)"
      using n q guards
      by (simp add: getBits_def Let_def getLongIndex_def getBitIndex_def v_def
          flip: q_def r_def)
    moreover have "bit v k \<longleftrightarrow> k < n \<and> long_bit (bits s) (position s + n - 1 - k)" for k
    proof (cases "k < n")
      case k: True
      have "position s + n - 1 - k = 64 * q + (r + n - 1 - k)" "r + n - 1 - k < 64"
        using True k pos by auto
      then have "long_bit (bits s) (position s + n - 1 - k) = bit (bits s ! q) (63 - (r + n - 1 - k))"
        by (simp add: long_bit_add)
      moreover have "63 - (r + n - 1 - k) = 64 - r - n + k" using True k by simp
      ultimately show ?thesis using k n by (simp add: v_def bit_rules)
    next
      case False
      then show ?thesis using n by (simp add: v_def bit_rules)
    qed
    ultimately show ?thesis by blast
  next
    case False
    define c where "c = n - (64 - r)"
    have c: "0 < c" "c < n" "c < 64" "c = n + r - 64" using False r n by (simp_all add: c_def)
    have q': "Suc q < length (bits s)"
    proof -
      have "position s + n - 1 < length (bits s) * 64"
        using bitio_inv_longs[OF inv, of "position s + n - 1"] n avail
        by (simp add: div_less_iff_less_mult)
      then show ?thesis using pos False by linarith
    qed
    define v where "v = push_bit c (drop_bit 0 (bits s ! q) AND makeRightMask (64 - r))
                        OR drop_bit (64 - c) (bits s ! Suc q)"
    have "getBits n s = Inr (v, s\<lparr>position := position s + n\<rparr>)"
    proof -
      have "min (64 - r) n = 64 - r" "64 - r \<noteq> n" "n + r - 64 = c" "64 - (n - (64 - r)) = 64 - c"
        using False r c by simp_all
      then show ?thesis
        using n q q' r guards
        by (simp add: getBits_def Let_def getLongIndex_def getBitIndex_def v_def
            flip: q_def r_def)
    qed
    moreover have "bit v k \<longleftrightarrow> k < n \<and> long_bit (bits s) (position s + n - 1 - k)" for k
    proof -
      consider "k < c" | "c \<le> k" "k < n" | "n \<le> k" by linarith
      then show ?thesis
      proof cases
        case 1
        have "position s + n - 1 - k = 64 * Suc q + (c - 1 - k)" "c - 1 - k < 64"
          using 1 c pos by auto
        then have "long_bit (bits s) (position s + n - 1 - k) = bit (bits s ! Suc q) (63 - (c - 1 - k))"
          by (simp only: long_bit_add)
        moreover have "63 - (c - 1 - k) = 64 - c + k" using 1 c by simp
        ultimately show ?thesis using 1 c by (simp add: v_def bit_rules)
      next
        case 2
        have "position s + n - 1 - k = 64 * q + (63 - (k - c))" "63 - (k - c) < 64"
          using 2 c pos r n by auto
        then have "long_bit (bits s) (position s + n - 1 - k) = bit (bits s ! q) (63 - (63 - (k - c)))"
          by (simp only: long_bit_add)
        moreover have "63 - (63 - (k - c)) = k - c" using 2 n by simp
        moreover have "\<not> bit (bits s ! Suc q) (64 - c + k)"
          using 2 c bit_word64_ge[of "bits s ! Suc q" "64 - c + k"] by auto
        ultimately show ?thesis using 2 c n r by (auto simp: v_def bit_rules)
      next
        case 3
        then show ?thesis using c n r bit_word64_ge[of "bits s ! Suc q" "64 - c + k"]
          by (auto simp: v_def bit_rules)
      qed
    qed
    ultimately show ?thesis by blast
  qed
qed

lemma length_val_bits [simp]: "length (val_bits n v) = n"
  by (simp add: val_bits_def)

lemma val_bits_inject:
  assumes "fits n v" "fits n w" "val_bits n v = val_bits n w" shows "v = w"
proof (rule bit_word_eqI)
  fix k assume "k < LENGTH(64)"
  show "bit v k = bit w k"
  proof (cases "k < n")
    case True
    then have "val_bits n v ! (n - 1 - k) = val_bits n w ! (n - 1 - k)" using assms(3) by simp
    then show ?thesis using True by (simp add: val_bits_def)
  qed (use assms(1,2) in \<open>simp add: fits_not_bit\<close>)
qed

lemma fits_iff_bits: "n \<le> 64 \<Longrightarrow> fits n v \<longleftrightarrow> (\<forall>k\<ge>n. \<not> bit v k)"
proof
  assume n: "n \<le> 64" and b: "\<forall>k\<ge>n. \<not> bit v k"
  have "take_bit n v = v" by (rule bit_word_eqI) (use b in \<open>auto simp: bit_take_bit_iff intro: leI\<close>)
  then have "unat v = take_bit n (unat v)" 
    by (metis unsigned_take_bit_eq)
  then show "fits n v" unfolding fits_def by (metis take_bit_nat_less_exp)
qed (simp add: fits_not_bit)

lemma length_to_bits [simp]: "length (to_bits s) = blength s"
  by (simp add: to_bits_def)

lemma nth_to_bits: "i < blength s \<Longrightarrow> to_bits s ! i = long_bit (bits s) i"
  by (simp add: to_bits_def)

lemma length_rest_bits [simp]: "length (rest_bits s) = blength s - position s"
  by (simp add: rest_bits_def)

lemma getBits_spec:
  assumes inv: "bitio_inv s" and n: "0 < n" "n \<le> 64" and avail: "position s + n \<le> blength s"
  shows "\<exists>v. getBits n s = Inr (v, s\<lparr>position := position s + n\<rparr>) \<and> fits n v \<and>
             val_bits n v = take n (rest_bits s)"
proof -
  obtain v where v: "getBits n s = Inr (v, s\<lparr>position := position s + n\<rparr>)"
      "\<And>k. bit v k \<longleftrightarrow> k < n \<and> long_bit (bits s) (position s + n - 1 - k)"
    using getBits_bits[OF assms] by blast
  have "fits n v" using n v(2) by (simp add: fits_iff_bits)
  moreover have "val_bits n v = take n (rest_bits s)"
  proof (rule nth_equalityI)
    fix i assume i: "i < length (val_bits n v)"
    then have "position s + n - 1 - (n - 1 - i) = position s + i" by simp
    then show "val_bits n v ! i = take n (rest_bits s) ! i"
      using i avail v(2)[of "n - 1 - i"] by (simp add: val_bits_def rest_bits_def nth_to_bits)
  qed (use avail in simp)
  ultimately show ?thesis using v(1) by blast
qed

text \<open>Reading what a field of the stream holds.\<close>

lemma getBits_field:
  assumes inv: "bitio_inv s" and n: "0 < n" "n \<le> 64" 
    and rest: "rest_bits s = val_bits n v @ r" and v: "fits n v"
  shows "getBits n s = Inr (v, s\<lparr>position := position s + n\<rparr>)"
proof -
  have "n \<le> blength s - position s"
    using arg_cong[OF rest, of length] by simp
  then have avail: "position s + n \<le> blength s" using bitio_inv_position[OF inv] n by simp
  obtain v' where v': "getBits n s = Inr (v', s\<lparr>position := position s + n\<rparr>)" "fits n v'"
      "val_bits n v' = take n (rest_bits s)"
    using getBits_spec[OF inv n avail] by blast
  then have "val_bits n v' = val_bits n v" using rest by simp
  then show ?thesis using v' v val_bits_inject by blast
qed

lemma move_bits [simp]:
  "to_bits (s\<lparr>position := p\<rparr>) = to_bits s"
  "bitio_inv s \<Longrightarrow> p \<le> blength s \<Longrightarrow> bitio_inv (s\<lparr>position := p\<rparr>)"
  "rest_bits (s\<lparr>position := p\<rparr>) = drop p (to_bits s)"
  by (auto simp: to_bits_def bitio_inv_def rest_bits_def)

text \<open>A value placed behind \<open>r\<close> used bits of a long, read from the left.\<close>

lemma place_within:
  assumes "r + n \<le> 64" "fits n v" "b < 64"
  shows "bit (push_bit (64 - r - n) v) (63 - b) \<longleftrightarrow> r \<le> b \<and> b < r + n \<and> bit v (r + n - 1 - b)"
proof -
  have "bit (push_bit (64 - r - n) v) (63 - b) \<longleftrightarrow> 64 - r - n \<le> 63 - b \<and> bit v (63 - b - (64 - r - n))"
    unfolding bit_word64(1) by auto
  moreover have "63 - b - (64 - r - n) = r + n - 1 - b" using assms by simp
  moreover have "64 - r - n \<le> 63 - b \<longleftrightarrow> b < r + n" using assms by auto
  moreover have "bit v (r + n - 1 - b) \<Longrightarrow> r \<le> b" 
    using fits_not_bit[OF assms(2), of "r + n - 1 - b"] by linarith
  ultimately show ?thesis by auto
qed

lemma place_high:
  assumes "64 < r + n" "r < 64" "fits n v" "b < 64"
  shows "bit (drop_bit (r + n - 64) v) (63 - b) \<longleftrightarrow> r \<le> b \<and> bit v (r + n - 1 - b)"
proof -
  have "r + n - 64 + (63 - b) = r + n - 1 - b" using assms by simp
  moreover have "bit v (r + n - 1 - b) \<Longrightarrow> r \<le> b" 
    using fits_not_bit[OF assms(3), of "r + n - 1 - b"] assms(1,4) by linarith
  ultimately show ?thesis by (auto simp: bit_rules)
qed

lemma place_low:
  assumes "64 < r + n" "r < 64" "n \<le> 64" "b < 64"
  shows "bit (push_bit (128 - r - n) (v::u64)) (63 - b) \<longleftrightarrow> b < r + n - 64 \<and> bit v (r + n - 65 - b)"
proof -
  have "128 - r - n \<le> 63 - b \<longleftrightarrow> b < r + n - 64" using assms by auto
  moreover have "b < r + n - 64 \<Longrightarrow> 63 - b - (128 - r - n) = r + n - 65 - b" using assms by simp
  ultimately show ?thesis unfolding bit_word64(1) by auto
qed

lemma append_effectI:
  assumes "length bs = (blength s + n + 63) div 64"
    and "\<And>a b. a < length bs \<Longrightarrow> b < 64 \<Longrightarrow> bit (bs ! a) (63 - b) \<longleftrightarrow>
        (if 64 * a + b < blength s then bit (bits s ! a) (63 - b)
         else 64 * a + b < blength s + n \<and> bit v (blength s + n - 1 - (64 * a + b)))"
  shows "append_effect s v n bs"
  unfolding append_effect_def
proof (intro conjI allI impI)
  fix i assume i: "i < 64 * length bs"
  have "i div 64 < length bs" "i mod 64 < 64" "64 * (i div 64) + i mod 64 = i" 
    using i by (simp_all add: div_less_iff_less_mult)
  then show "long_bit bs i \<longleftrightarrow> (if i < blength s then long_bit (bits s) i
         else i < blength s + n \<and> bit v (blength s + n - 1 - i))"
    using assms(2)[of "i div 64" "i mod 64"] by (simp add: long_bit_def)
qed (rule assms(1))

lemma appendBits_bits:
  assumes inv: "bitio_inv s" and n: "0 < n" "n \<le> 64" and v: "fits n v"
  shows "\<exists>bs. appendBits v n s = Inr (s\<lparr>blength := blength s + n, bits := bs\<rparr>) \<and> append_effect s v n bs"
proof -
  define q r where "q = blength s div 64" and "r = blength s mod 64"
  have len: "blength s = 64 * q + r" and r: "r < 64"
    by (simp_all add: q_def r_def)
  have L: "length (bits s) = (if r = 0 then q else Suc q)"
    using inv len r by (auto simp: bitio_inv_def)
  have pad: "\<not> bit (bits s ! q) (63 - b)" if "r \<noteq> 0" "r \<le> b" "b < 64" for b
    using bitio_inv_padding[OF inv, of "64 * q + b"] that len L by (auto simp: long_bit_add)
  have guards: "checkLength n 64 = Inr ()" "checkValueSize v n = Inr ()"
    using n v by simp_all
  note defs = appendBits_def Let_def getEndLongIndex_def getEndBitIndex_def
  consider "r = 0" | "r \<noteq> 0" "r + n \<le> 64" | "r \<noteq> 0" "64 < r + n" by linarith
  then show ?thesis
  proof cases
    case 1
    let ?bs = "bits s @ [push_bit (64 - n) v]"
    have "appendBits v n s = Inr (s\<lparr>blength := blength s + n, bits := ?bs\<rparr>)"
      using 1 guards by (simp add: defs flip: q_def r_def)
    moreover have "append_effect s v n ?bs"
    proof (rule append_effectI)
      show "length ?bs = (blength s + n + 63) div 64" using n len 1 L by simp
    next
      fix a b :: nat assume ab: "a < length ?bs" "b < 64"
      show "bit (?bs ! a) (63 - b) \<longleftrightarrow>
        (if 64 * a + b < blength s then bit (bits s ! a) (63 - b)
         else 64 * a + b < blength s + n \<and> bit v (blength s + n - 1 - (64 * a + b)))"
      proof (cases "a = q")
        case True
        then have "bit (?bs ! a) (63 - b) \<longleftrightarrow> b < n \<and> bit v (n - 1 - b)"
          using place_within[of 0 n v b] ab 1 L n v by (simp add: nth_append)
        then show ?thesis using True 1 len by simp
      next
        case False
        then show ?thesis using ab 1 L len by (simp add: nth_append)
      qed
    qed
    ultimately show ?thesis by blast
  next
    case 2
    let ?bs = "(bits s)[q := bits s ! q OR push_bit (64 - r - n) v]"
    have "appendBits v n s = Inr (s\<lparr>blength := blength s + n, bits := ?bs\<rparr>)"
      using 2 guards L n by (simp add: defs flip: q_def r_def)
    moreover have "append_effect s v n ?bs"
    proof (rule append_effectI)
      show "length ?bs = (blength s + n + 63) div 64" using n len 2 L by simp
    next
      fix a b :: nat assume ab: "a < length ?bs" "b < 64"
      show "bit (?bs ! a) (63 - b) \<longleftrightarrow>
        (if 64 * a + b < blength s then bit (bits s ! a) (63 - b)
         else 64 * a + b < blength s + n \<and> bit v (blength s + n - 1 - (64 * a + b)))"
      proof (cases "a = q")
        case True
        then have "bit (?bs ! a) (63 - b) \<longleftrightarrow>
            bit (bits s ! q) (63 - b) \<or> (r \<le> b \<and> b < r + n \<and> bit v (r + n - 1 - b))"
          using place_within[of r n v b] ab 2 L v by (simp add: bit_word64(4))
        then show ?thesis using True 2 len pad[of b] ab by auto
      next
        case False
        then show ?thesis using ab 2 L len by simp
      qed
    qed
    ultimately show ?thesis by blast
  next
    case 3
    let ?bs = "(bits s)[q := bits s ! q OR drop_bit (r + n - 64) v] @ [push_bit (128 - r - n) v]"
    have e: "n - (64 - r) = r + n - 64" "64 - (r + n - 64) = 128 - r - n" "\<not> n \<le> 64 - r" 
      using 3 r n by simp_all
    have "appendBits v n s = Inr (s\<lparr>blength := blength s + n, bits := ?bs\<rparr>)"
      using 3 guards L n r unfolding defs
      by (simp only: e bindE_simps flip: q_def r_def) (simp add: e flip: q_def r_def)
    moreover have "append_effect s v n ?bs"
    proof (rule append_effectI)
      show "length ?bs = (blength s + n + 63) div 64" using n len 3 L r by simp
    next
      fix a b :: nat assume ab: "a < length ?bs" "b < 64"
      show "bit (?bs ! a) (63 - b) \<longleftrightarrow>
        (if 64 * a + b < blength s then bit (bits s ! a) (63 - b)
         else 64 * a + b < blength s + n \<and> bit v (blength s + n - 1 - (64 * a + b)))"
      proof -
        consider "a < q" | "a = q" | "a = Suc q" using ab L 3 by fastforce
        then show ?thesis
        proof cases
          case 1 then show ?thesis using ab L len 3 by (simp add: nth_append)
        next
          case 2
          then have "bit (?bs ! a) (63 - b) \<longleftrightarrow>
              bit (bits s ! q) (63 - b) \<or> (r \<le> b \<and> bit v (r + n - 1 - b))"
            using place_high[of r n v b] ab 3 L v r by (simp add: nth_append bit_word64(4))
          then show ?thesis using 2 3 len pad[of b] ab by auto
        next
          case a: 3 
          have "blength s + n - 1 - (64 * a + b) = r + n - 65 - b" using a len by simp
          then show ?thesis using ab a L len 3 r n place_low[of r n b v]
            by (auto simp: nth_append)
        qed
      qed
    qed
    ultimately show ?thesis by blast
  qed
qed

lemma appendBits_spec:
  assumes inv: "bitio_inv s" and n: "0 < n" "n \<le> 64" and v: "fits n v"
  shows "\<exists>s'. appendBits v n s = Inr s' \<and> bitio_inv s' \<and> position s' = position s \<and>
              blength s' = blength s + n \<and> to_bits s' = to_bits s @ val_bits n v"
proof -
  obtain bs where bs: "appendBits v n s = Inr (s\<lparr>blength := blength s + n, bits := bs\<rparr>)"
      "append_effect s v n bs"
    using appendBits_bits[OF assms] by blast
  let ?s = "s\<lparr>blength := blength s + n, bits := bs\<rparr>"
  have fit: "blength s + n \<le> 64 * length bs" using bs(2) by (simp add: append_effect_def)
  have "bitio_inv ?s"
    using bs(2) bitio_inv_position[OF inv] by (auto simp: bitio_inv_def append_effect_def list_all_iff)
  moreover have "to_bits ?s = to_bits s @ val_bits n v"
  proof (rule nth_equalityI)
    fix i assume i: "i < length (to_bits ?s)"
    have "long_bit bs i \<longleftrightarrow> (if i < blength s then long_bit (bits s) i
         else i < blength s + n \<and> bit v (blength s + n - 1 - i))"
      using bs(2) i fit unfolding append_effect_def by auto
    then show "to_bits ?s ! i = (to_bits s @ val_bits n v) ! i"
      using i by (auto simp: nth_append nth_to_bits val_bits_def add.commute)
  qed simp
  ultimately show ?thesis using bs(1) by auto
qed

subsection \<open>Appending and copying streams\<close>

lemma bitio_inv_empty [simp]: "bitio_inv BitIO_empty" "to_bits BitIO_empty = []"
    "position BitIO_empty = 0" "blength BitIO_empty = 0"
  by (simp_all add: bitio_inv_def BitIO_empty_def to_bits_def)

lemma val_bits_rest:
  assumes "bitio_inv s" "0 < n" "n \<le> 64" "n \<le> blength s - position s"
  obtains v where "getBits n s = Inr (v, s\<lparr>position := position s + n\<rparr>)" "fits n v"
    "rest_bits s = val_bits n v @ rest_bits (s\<lparr>position := position s + n\<rparr>)"
    "bitio_inv (s\<lparr>position := position s + n\<rparr>)"
proof -
  have avail: "position s + n \<le> blength s" using assms(2,4) bitio_inv_position[OF assms(1)] by simp
  from getBits_spec[OF assms(1-3) avail]
  obtain v where v: "getBits n s = Inr (v, s\<lparr>position := position s + n\<rparr>)" "fits n v"
      "val_bits n v = take n (rest_bits s)" by blast
  have "rest_bits (s\<lparr>position := position s + n\<rparr>) = drop n (rest_bits s)"
    by (simp add: rest_bits_def add.commute)
  then have "rest_bits s = val_bits n v @ rest_bits (s\<lparr>position := position s + n\<rparr>)"
    by (simp add: v(3))
  then show ?thesis using that v(1,2) assms(1) avail by simp
qed

lemma appendBits_loop_spec:
  assumes "bitio_inv value" "bitio_inv s" "0 < len" "len \<le> 64"
  shows "\<exists>s'. appendBits_loop len value s = Inr s' \<and> bitio_inv s' \<and> position s' = position s \<and>
              to_bits s' = to_bits s @ rest_bits value"
  using assms
proof (induction len "value" s rule: appendBits_loop.induct)
  case (1 len "value" s)
  show ?case
  proof (cases "getNumberOfBitLeft value = 0")
    case True
    then have "rest_bits value = []" by (simp add: rest_bits_def getNumberOfBitLeft_def)
    then show ?thesis using True "1.prems" by (simp add: appendBits_loop.simps[of len "value" s])
  next
    case False
    define n where "n = min (getNumberOfBitLeft value) len"
    have n: "0 < n" "n \<le> 64" "n \<le> blength value - position value"
      using False "1.prems" by (auto simp: n_def getNumberOfBitLeft_def)
    obtain v where v: "getBits n value = Inr (v, value\<lparr>position := position value + n\<rparr>)" "fits n v"
        "rest_bits value = val_bits n v @ rest_bits (value\<lparr>position := position value + n\<rparr>)"
        "bitio_inv (value\<lparr>position := position value + n\<rparr>)"
      using val_bits_rest[OF "1.prems"(1) n] by blast
    obtain s1 where s1: "appendBits v n s = Inr s1" "bitio_inv s1" "position s1 = position s"
        "to_bits s1 = to_bits s @ val_bits n v"
      using appendBits_spec[OF "1.prems"(2) n(1,2) v(2)] by blast
    obtain s2 where "appendBits_loop 64 (value\<lparr>position := position value + n\<rparr>) s1 = Inr s2"
        "bitio_inv s2" "position s2 = position s1"
        "to_bits s2 = to_bits s1 @ rest_bits (value\<lparr>position := position value + n\<rparr>)"
      using "1.IH"[OF refl False n_def v(1) refl s1(1) v(4) s1(2)] by auto
    then show ?thesis
      using False v(1,3) s1 by (simp add: appendBits_loop.simps[of len "value" s] Let_def flip: n_def)
  qed
qed

lemma appendBits_stream_spec:
  assumes "bitio_inv value" "bitio_inv s"
  shows "\<exists>s'. appendBits_stream value s = Inr s' \<and> bitio_inv s' \<and> position s' = position s \<and>
              to_bits s' = to_bits s @ to_bits value"
proof -
  have "movePositionTo value 0 = Inr (value\<lparr>position := 0\<rparr>)"
    by (simp add: movePositionTo_def checkPosition_def)
  moreover have "bitio_inv (value\<lparr>position := 0\<rparr>)" using assms(1) by simp
  moreover have "rest_bits (value\<lparr>position := 0\<rparr>) = to_bits value" by simp
  ultimately show ?thesis
    using appendBits_loop_spec[of "value\<lparr>position := 0\<rparr>" s "64 - getEndBitIndex s"] assms(2)
    by (simp add: appendBits_stream_def getEndBitIndex_def)
qed

lemma copyBits_loop_spec:
  assumes "bitio_inv s" "bitio_inv result" "len \<le> blength s - position s"
  shows "\<exists>result'. copyBits_loop len result s = Inr (result', s\<lparr>position := position s + len\<rparr>) \<and>
              bitio_inv result' \<and> position result' = position result \<and>
              to_bits result' = to_bits result @ take len (rest_bits s)"
  using assms
proof (induction len result s rule: copyBits_loop.induct)
  case (1 len result s)
  show ?case
  proof (cases "len = 0")
    case True
    then show ?thesis using "1.prems" by (simp add: copyBits_loop.simps[of 0 result s])
  next
    case False
    define n where "n = (if len < 64 then len else 64)"
    have n: "0 < n" "n \<le> 64" "n \<le> len" "n \<le> blength s - position s"
      using False "1.prems" by (auto simp: n_def)
    let ?s = "s\<lparr>position := position s + n\<rparr>"
    obtain v where v: "getBits n s = Inr (v, ?s)" "fits n v"
        "rest_bits s = val_bits n v @ rest_bits ?s" "bitio_inv ?s"
      using val_bits_rest[OF "1.prems"(1) n(1,2,4)] by blast
    obtain s1 where s1: "appendBits v n result = Inr s1" "bitio_inv s1" "position s1 = position result"
        "to_bits s1 = to_bits result @ val_bits n v"
      using appendBits_spec[OF "1.prems"(2) n(1,2) v(2)] by blast
    obtain r2 where r2: "copyBits_loop (len - n) s1 ?s = Inr (r2, ?s\<lparr>position := position ?s + (len - n)\<rparr>)"
        "bitio_inv r2" "position r2 = position s1" "to_bits r2 = to_bits s1 @ take (len - n) (rest_bits ?s)"
    proof -
      have "len - n \<le> blength ?s - position ?s" using "1.prems"(3) by simp
      then show ?thesis using "1.IH"[OF _ n_def v(1) refl s1(1) v(4) s1(2)] False that by blast
    qed
    have "take len (rest_bits s) = val_bits n v @ take (len - n) (rest_bits ?s)"
      using v(3) n(3) by simp
    then show ?thesis
      using False v(1) s1 r2 n(3) by (simp add: copyBits_loop.simps[of len result s] Let_def flip: n_def)
  qed
qed

lemma copyBits_spec:
  assumes "bitio_inv s" "len \<le> blength s - position s"
  shows "\<exists>r. copyBits len s = Inr (r, s\<lparr>position := position s + len\<rparr>) \<and> bitio_inv r \<and>
             position r = 0 \<and> to_bits r = take len (rest_bits s)"
  using copyBits_loop_spec[OF assms(1) bitio_inv_empty(1) assms(2)] by (simp add: copyBits_def)

lemma long_bit_resize:
  "i < 64 * n \<Longrightarrow> long_bit (vec_resize 0 n bs) i \<longleftrightarrow> i < 64 * length bs \<and> long_bit bs i"
  by (auto simp: long_bit_def nth_vec_resize div_less_iff_less_mult mult.commute)

lemma ceil64: "(x::nat) div 64 + (if x mod 64 \<noteq> 0 then 1 else 0) = (x + 63) div 64"
proof -
  define q r where "q = x div 64" and "r = x mod 64"
  have x: "x = 64 * q + r" and r: "r < 64" by (simp_all add: q_def r_def)
  show ?thesis
  proof (cases "r = 0")
    case False
    then have "x + 63 = 64 * Suc q + (r - 1)" using x by simp
    then have "(x + 63) div 64 = Suc q" using r by simp
    then show ?thesis using False by (simp add: q_def r_def)
  next
    case True
    then have "x = 64 * q" using x by simp
    then show ?thesis by simp
  qed
qed

lemma resizeIfNeeded_bits:
  "resizeIfNeeded s = s\<lparr>bits := vec_resize 0 ((blength s + 63) div 64) (bits s)\<rparr>"
  using ceil64[of "blength s"] by (simp add: resizeIfNeeded_def)

lemma extend_spec:
  assumes inv: "bitio_inv s"
  shows "bitio_inv (resizeIfNeeded (s\<lparr>blength := blength s + n\<rparr>))"
    and "to_bits (resizeIfNeeded (s\<lparr>blength := blength s + n\<rparr>)) = to_bits s @ replicate n False"
proof -
  let ?L = "(blength s + n + 63) div 64"
  have old: "length (bits s) = (blength s + 63) div 64" "position s \<le> blength s" 
    using inv by (auto simp: bitio_inv_def)
  have ge: "blength s + n \<le> 64 * ?L" by simp
  have b: "long_bit (vec_resize 0 ?L (bits s)) i \<longleftrightarrow> i < blength s \<and> long_bit (bits s) i"
    if "i < 64 * ?L" for i
    using long_bit_resize[OF that, of "bits s"] bitio_inv_set_bit[OF inv, of i] by simp
  show "bitio_inv (resizeIfNeeded (s\<lparr>blength := blength s + n\<rparr>))"
    using b old(2) by (simp add: resizeIfNeeded_bits bitio_inv_def list_all_iff)
  show "to_bits (resizeIfNeeded (s\<lparr>blength := blength s + n\<rparr>)) = to_bits s @ replicate n False"
  proof (rule nth_equalityI)
    fix i assume "i < length (to_bits (resizeIfNeeded (s\<lparr>blength := blength s + n\<rparr>)))"
    then have "i < blength s + n" by (simp add: resizeIfNeeded_bits)
    then show "to_bits (resizeIfNeeded (s\<lparr>blength := blength s + n\<rparr>)) ! i =
        (to_bits s @ replicate n False) ! i"
      using b[of i] ge by (simp add: resizeIfNeeded_bits nth_to_bits nth_append)
  qed (simp add: resizeIfNeeded_bits)
qed

lemma appendZeros_spec:
  "bitio_inv s \<Longrightarrow> bitio_inv (appendZeros n s) \<and> position (appendZeros n s) = position s \<and>
     to_bits (appendZeros n s) = to_bits s @ replicate n False"
  using extend_spec[of s n] by (simp add: appendZeros_def resizeIfNeeded_def Let_def)

subsection \<open>Overwriting and inserting\<close>

text \<open>Bit \<open>b\<close> from the left of a long in which a field was overwritten.\<close>

lemma overwrite_within:
  assumes "r + n \<le> 64" "0 < n" "fits n v" "b < 64"
  shows "bit ((w AND NOT (makeCenterMask n (64 - r - n))) OR push_bit (64 - r - n) v) (63 - b) \<longleftrightarrow>
    (if r \<le> b \<and> b < r + n then bit v (r + n - 1 - b) else bit w (63 - b))"
proof -
  have "bit (makeCenterMask n (64 - r - n)) (63 - b) \<longleftrightarrow> r \<le> b \<and> b < r + n"
    using assms by (auto simp: bit_makeCenterMask)
  then show ?thesis
    using place_within[OF assms(1,3,4)] by (auto simp: bit_word64(3-5))
qed

lemma overwrite_high:
  assumes "64 < r + n" "r < 64" "n \<le> 64" "fits n v" "b < 64"
  shows "bit ((w AND NOT (makeCenterMask (64 - r) 0)) OR drop_bit (r + n - 64) v) (63 - b) \<longleftrightarrow>
    (if r \<le> b then bit v (r + n - 1 - b) else bit w (63 - b))"
proof -
  have "bit (makeCenterMask (64 - r) 0) (63 - b) \<longleftrightarrow> r \<le> b"
    using assms by (auto simp: bit_makeCenterMask)
  then show ?thesis
    using place_high[OF assms(1,2,4,5)] by (auto simp: bit_word64(3-5))
qed

lemma overwrite_low:
  assumes "64 < r + n" "r < 64" "n \<le> 64" "b < 64"
  shows "bit ((w AND NOT (makeCenterMask (r + n - 64) (128 - r - n))) OR push_bit (128 - r - n) v) (63 - b) \<longleftrightarrow>
    (if b < r + n - 64 then bit v (r + n - 65 - b) else bit w (63 - b))"
proof -
  have "bit (makeCenterMask (r + n - 64) (128 - r - n)) (63 - b) \<longleftrightarrow> b < r + n - 64"
    using assms by (auto simp: bit_makeCenterMask)
  then show ?thesis
    using place_low[OF assms] by (auto simp: bit_word64(3-5))
qed

lemma overwrite_effectI:
  assumes "length bs = max (length bs0) ((p + n + 63) div 64)"
    and "\<And>a b. a < length bs \<Longrightarrow> b < 64 \<Longrightarrow> bit (bs ! a) (63 - b) \<longleftrightarrow>
        (if p \<le> 64 * a + b \<and> 64 * a + b < p + n then bit v (p + n - 1 - (64 * a + b))
         else a < length bs0 \<and> bit (bs0 ! a) (63 - b))"
  shows "overwrite_effect bs0 p v n bs"
  unfolding overwrite_effect_def
proof (intro conjI allI impI)
  fix i assume i: "i < 64 * length bs"
  have "i div 64 < length bs" "i mod 64 < 64" "64 * (i div 64) + i mod 64 = i"
    using i by (simp_all add: div_less_iff_less_mult)
  moreover have "i < 64 * length bs0 \<longleftrightarrow> i div 64 < length bs0"
    by (simp add: div_less_iff_less_mult mult.commute)
  ultimately show "long_bit bs i \<longleftrightarrow> (if p \<le> i \<and> i < p + n then bit v (p + n - 1 - i)
         else i < 64 * length bs0 \<and> long_bit bs0 i)"
    using assms(2)[of "i div 64" "i mod 64"] by (simp add: long_bit_def)
qed (rule assms(1))

lemma setBits_bits:
  assumes n: "0 < n" "n \<le> 64" and v: "fits n v"
    and room: "position s div 64 \<le> length (bits s)"
    and full: "n = 64 \<Longrightarrow> position s mod 64 = 0 \<Longrightarrow> position s div 64 < length (bits s)"
  shows "\<exists>bs. setBits v n s = Inr (s\<lparr>blength := max (blength s) (position s + n),
                 position := position s + n, bits := bs\<rparr>) \<and> overwrite_effect (bits s) (position s) v n bs"
proof -
  define q r where "q = position s div 64" and "r = position s mod 64"
  have pos: "position s = 64 * q + r" and r: "r < 64"
    by (simp_all add: q_def r_def)
  have guards: "checkLength n 64 = Inr ()" "checkValueSize v n = Inr ()"
    using n v by simp_all
  note defs = setBits_def Let_def getLongIndex_def getBitIndex_def
  define bs0 where "bs0 = (if length (bits s) = q then bits s @ [0] else bits s)"
  have q: "q < length bs0" "length bs0 = max (length (bits s)) (Suc q)"
    using room by (auto simp: bs0_def simp flip: q_def)
  have bs0: "bit (bs0 ! a) k \<longleftrightarrow> a < length (bits s) \<and> bit (bits s ! a) k" if "a < length bs0" for a k
    using that by (auto simp: bs0_def nth_append less_Suc_eq split: if_splits)
  consider "r = 0" "n = 64" | "r + n \<le> 64" "\<not> (r = 0 \<and> n = 64)" | "64 < r + n" by linarith
  then show ?thesis
  proof cases
    case 1
    have lt: "q < length (bits s)" using full 1 by (simp add: q_def r_def)
    have "setBits v n s = Inr (s\<lparr>blength := max (blength s) (position s + n),
                 position := position s + n, bits := (bits s)[q := v]\<rparr>)"
      using 1 lt guards by (simp add: defs flip: q_def r_def)
    moreover have "overwrite_effect (bits s) (position s) v n ((bits s)[q := v])"
    proof (rule overwrite_effectI)
      fix a b :: nat assume ab: "a < length ((bits s)[q := v])" "b < 64"
      show "bit ((bits s)[q := v] ! a) (63 - b) \<longleftrightarrow>
        (if position s \<le> 64 * a + b \<and> 64 * a + b < position s + n
         then bit v (position s + n - 1 - (64 * a + b))
         else a < length (bits s) \<and> bit (bits s ! a) (63 - b))"
        using ab 1 pos by (cases "a = q") auto
    qed (use lt 1 pos in simp)
    ultimately show ?thesis by blast
  next
    case 2
    let ?bs = "bs0[q := (bs0 ! q AND NOT (makeCenterMask n (64 - r - n))) OR push_bit (64 - r - n) v]"
    have m: "min (64 - r) n = n" "\<not> (64 - r = 64 \<and> n = 64)" using 2 by auto
    have "setBits v n s = Inr (s\<lparr>blength := max (blength s) (position s + n),
                 position := position s + n, bits := ?bs\<rparr>)"
      using guards q(1) unfolding defs
      by (simp add: m flip: q_def r_def bs0_def)
    moreover have "overwrite_effect (bits s) (position s) v n ?bs"
    proof (rule overwrite_effectI)
      have "(position s + n + 63) div 64 = Suc q" using pos 2 n r by (simp add: div_eq_dividend_iff)
      then show "length ?bs = max (length (bits s)) ((position s + n + 63) div 64)" using q by simp
    next
      fix a b :: nat assume ab: "a < length ?bs" "b < 64"
      show "bit (?bs ! a) (63 - b) \<longleftrightarrow>
        (if position s \<le> 64 * a + b \<and> 64 * a + b < position s + n
         then bit v (position s + n - 1 - (64 * a + b))
         else a < length (bits s) \<and> bit (bits s ! a) (63 - b))"
      proof (cases "a = q")
        case True
        then have "bit (?bs ! a) (63 - b) \<longleftrightarrow>
            (if r \<le> b \<and> b < r + n then bit v (r + n - 1 - b) else bit (bs0 ! q) (63 - b))"
          using overwrite_within[OF 2(1) n(1) v ab(2)] ab by simp
        then show ?thesis using True pos bs0[of q "63 - b"] q by simp
      next
        case False
        then show ?thesis using ab pos 2 bs0[of a "63 - b"] by auto
      qed
    qed
    ultimately show ?thesis by blast
  next
    case 3
    define bs1 where "bs1 = bs0[q := (bs0 ! q AND NOT (makeCenterMask (64 - r) 0)) OR drop_bit (r + n - 64) v]"
    define bs2 where "bs2 = (if length bs1 = Suc q then bs1 @ [0] else bs1)"
    have q2: "Suc q < length bs2" "length bs2 = max (length (bits s)) (q + 2)"
      using q by (auto simp: bs2_def bs1_def)
    have bs2: "bit (bs2 ! a) k \<longleftrightarrow> a < length (bits s) \<and> bit (bits s ! a) k"
      if "a < length bs2" "a \<noteq> q" for a k
      using that bs0[of a k] q by (auto simp: bs2_def bs1_def nth_append less_Suc_eq split: if_splits)
    let ?bs = "bs2[Suc q := (bs2 ! Suc q AND NOT (makeCenterMask (r + n - 64) (128 - r - n)))
                            OR push_bit (128 - r - n) v]"
    have e: "min (64 - r) n = 64 - r" "64 - r \<noteq> n" "n - (64 - r) = r + n - 64"
        "64 - (r + n - 64) = 128 - r - n" "64 - r - (64 - r) = 0" "\<not> (64 - r = 64 \<and> n = 64)"
      using 3 r n by auto
    have "setBits v n s = Inr (s\<lparr>blength := max (blength s) (position s + n),
                 position := position s + n, bits := ?bs\<rparr>)"
    proof -
      have "vec_get bs0 q = Inr (bs0 ! q)" "vec_get bs2 (Suc q) = Inr (bs2 ! Suc q)"
          "\<And>x. vec_set bs0 q x = Inr (bs0[q := x])" "\<And>x. vec_set bs2 (Suc q) x = Inr (bs2[Suc q := x])"
        using q q2 by simp_all
      then show ?thesis
        unfolding defs guards bindE_simps q_def[symmetric] r_def[symmetric] bs0_def[symmetric] e
        by (simp only: e bindE_simps if_False bs1_def[symmetric] bs2_def[symmetric] Suc_eq_plus1[symmetric])
    qed
    moreover have "overwrite_effect (bits s) (position s) v n ?bs"
    proof (rule overwrite_effectI)
      have "position s + n + 63 = 64 * (q + 2) + (r + n - 65)" using pos 3 by simp
      then have "(position s + n + 63) div 64 = q + 2" using n r by simp
      then show "length ?bs = max (length (bits s)) ((position s + n + 63) div 64)" using q2 by simp
    next
      fix a b :: nat assume ab: "a < length ?bs" "b < 64"
      show "bit (?bs ! a) (63 - b) \<longleftrightarrow>
        (if position s \<le> 64 * a + b \<and> 64 * a + b < position s + n
         then bit v (position s + n - 1 - (64 * a + b))
         else a < length (bits s) \<and> bit (bits s ! a) (63 - b))"
      proof -
        consider "a = q" | "a = Suc q" | "a < q" | "Suc q < a" by linarith
        then show ?thesis
        proof cases
          case a: 1
          have "bs2 ! q = bs1 ! q" using q by (auto simp: bs2_def bs1_def nth_append)
          then have "bit (?bs ! a) (63 - b) \<longleftrightarrow>
            (if r \<le> b then bit v (r + n - 1 - b) else bit (bs0 ! q) (63 - b))"
            using overwrite_high[OF 3 r n(2) v ab(2)] a q by (simp add: bs1_def)
          then show ?thesis using a pos bs0[of q "63 - b"] q ab 3 by simp
        next
          case a: 2
          have "bit (?bs ! a) (63 - b) \<longleftrightarrow>
            (if b < r + n - 64 then bit v (r + n - 65 - b) else bit (bs2 ! Suc q) (63 - b))"
            using overwrite_low[OF 3 r n(2) ab(2)] a q2 by simp
          moreover have "position s + n - 1 - (64 * a + b) = r + n - 65 - b" using a pos by simp
          moreover have "position s \<le> 64 * a + b \<and> 64 * a + b < position s + n \<longleftrightarrow> b < r + n - 64"
            using a pos r by auto
          ultimately show ?thesis using a bs2[of "Suc q" "63 - b"] q2 by simp
        next
          case a: 3
          then show ?thesis using ab pos bs2[of a "63 - b"] by simp
        next
          case a: 4
          then show ?thesis using ab pos r n bs2[of a "63 - b"] by simp
        qed
      qed
    qed
    ultimately show ?thesis by blast
  qed
qed

lemma setBits_spec:
  assumes inv: "bitio_inv s" and n: "0 < n" "n \<le> 64" and v: "fits n v"
    and full: "\<not> (n = 64 \<and> position s mod 64 = 0 \<and> position s = blength s)"
  shows "\<exists>s'. setBits v n s = Inr s' \<and> bitio_inv s' \<and> position s' = position s + n \<and>
     blength s' = max (blength s) (position s + n) \<and>
     to_bits s' = take (position s) (to_bits s) @ val_bits n v @ drop (position s + n) (to_bits s)"
proof -
  have L: "length (bits s) = (blength s + 63) div 64" and p: "position s \<le> blength s"
    using inv by (auto simp: bitio_inv_def)
  have "position s div 64 \<le> (blength s + 63) div 64" using p by (intro div_le_mono) simp
  then have room: "position s div 64 \<le> length (bits s)" using L by simp
  have full': "position s div 64 < length (bits s)" if "n = 64" "position s mod 64 = 0"
    using full that p by (intro bitio_inv_longs[OF inv]) auto
  obtain bs where bs: "setBits v n s = Inr (s\<lparr>blength := max (blength s) (position s + n),
        position := position s + n, bits := bs\<rparr>)" "overwrite_effect (bits s) (position s) v n bs"
    using setBits_bits[OF n v room] full' by blast
  let ?s = "s\<lparr>blength := max (blength s) (position s + n), position := position s + n, bits := bs\<rparr>"
  have len: "length bs = (max (blength s) (position s + n) + 63) div 64"
    using bs(2) L by (simp add: overwrite_effect_def max_def div_le_mono) (meson add_le_mono1 div_le_mono le_antisym nat_le_linear)
  then have "max (blength s) (position s + n) \<le> 64 * length bs" by linarith
  then have ge: "blength s \<le> 64 * length bs" "position s + n \<le> 64 * length bs" by simp_all
  have b: "long_bit bs i \<longleftrightarrow> (if position s \<le> i \<and> i < position s + n then bit v (position s + n - 1 - i)
         else i < blength s \<and> long_bit (bits s) i)" if "i < 64 * length bs" for i
    using bs(2) that bitio_inv_set_bit[OF inv, of i] by (simp add: overwrite_effect_def)
  have "bitio_inv ?s" using b len by (auto simp: bitio_inv_def list_all_iff)
  moreover have "to_bits ?s = take (position s) (to_bits s) @ val_bits n v @ drop (position s + n) (to_bits s)"
  proof (rule nth_equalityI)
    fix i assume "i < length (to_bits ?s)"
    then have i: "i < max (blength s) (position s + n)" by simp
    then have "to_bits ?s ! i = long_bit bs i" by (simp add: nth_to_bits)
    moreover have "i < 64 * length bs" using i ge by linarith
    ultimately show "to_bits ?s ! i =
       (take (position s) (to_bits s) @ val_bits n v @ drop (position s + n) (to_bits s)) ! i"
      using b[of i] i p
      by (auto simp: nth_append nth_to_bits val_bits_def min_absorb2 add.commute)
  qed (use p in auto)
  ultimately show ?thesis using bs(1) by auto
qed

text \<open>
  A finding: at the end of a stream of whole longs, a full 64-bit write stores past the end of
  the vector.
\<close>

lemma setBits_end_undefined:
  assumes "bitio_inv s" "position s = blength s" "blength s mod 64 = 0"
  shows "setBits v 64 s = Inl UndefinedBehaviour"
proof -
  have "length (bits s) = blength s div 64"
    using assms(1,3) ceil64[of "blength s"] by (simp add: bitio_inv_def)
  then show ?thesis
    using assms by (simp add: setBits_def Let_def getLongIndex_def getBitIndex_def fits64 vec_set_def)
qed

lemma copyLongs_nth:
  "k < length bs \<Longrightarrow> \<exists>bs'. insertBits_copyLongs e k bs = Inr bs' \<and> length bs' = length bs \<and>
     (\<forall>a < length bs. bs' ! a = (if e < a \<and> a \<le> k then bs ! (a - 1) else bs ! a))"
proof (induction k arbitrary: bs)
  case (Suc k)
  show ?case
  proof (cases "e < Suc k")
    case True
    let ?bs = "bs[Suc k := bs ! k]"
    obtain bs' where "insertBits_copyLongs e k ?bs = Inr bs'" "length bs' = length ?bs"
        "\<forall>a < length ?bs. bs' ! a = (if e < a \<and> a \<le> k then ?bs ! (a - 1) else ?bs ! a)"
      using Suc.IH[of ?bs] Suc.prems by auto
    then show ?thesis using True Suc.prems by (auto simp: nth_list_update le_Suc_eq)
  qed (use Suc.prems in auto)
qed auto

lemma shiftLongs_nth:
  "k < length bs \<Longrightarrow> \<exists>bs'. insertBits_shiftLongs n e k bs = Inr bs' \<and> length bs' = length bs \<and>
     (\<forall>a < length bs. bs' ! a =
        (if e < a \<and> a \<le> k then drop_bit n (bs ! a) OR push_bit (64 - n) (bs ! (a - 1)) else bs ! a))"
proof (induction k arbitrary: bs)
  case (Suc k)
  show ?case
  proof (cases "e < Suc k")
    case True
    let ?bs = "bs[Suc k := drop_bit n (bs ! Suc k) OR push_bit (64 - n) (bs ! k)]"
    obtain bs' where "insertBits_shiftLongs n e k ?bs = Inr bs'" "length bs' = length ?bs"
        "\<forall>a < length ?bs. bs' ! a =
           (if e < a \<and> a \<le> k then drop_bit n (?bs ! a) OR push_bit (64 - n) (?bs ! (a - 1)) else ?bs ! a)"
      using Suc.IH[of ?bs] Suc.prems by auto
    then show ?thesis using True Suc.prems by (auto simp: nth_list_update le_Suc_eq)
  qed (use Suc.prems in auto)
qed auto

text \<open>The bits of two neighbouring longs shifted right by \<open>n\<close>, read from the left.\<close>

lemma bit_shifted_pair:
  assumes "0 < n" "n < 64" "b < 64"
  shows "bit (drop_bit n w OR push_bit (64 - n) w') (63 - b) \<longleftrightarrow>
    (if n \<le> b then bit (w::u64) (63 - (b - n)) else bit w' (63 - (64 + b - n)))"
proof (cases "n \<le> b")
  case True
  then have "63 - (b - n) = n + (63 - b)" "\<not> 64 - n \<le> 63 - b" using assms by simp_all
  then show ?thesis using True by (simp add: bit_word64)
next
  case False
  then have "63 - (64 + b - n) = 63 - b - (64 - n)" "64 - n \<le> 63 - b" "\<not> bit w (n + (63 - b))"
    using assms bit_word64_ge[of w "n + (63 - b)"] by auto
  then show ?thesis using False unfolding bit_word64 by auto
qed

lemma long_bit_sub:
  assumes "b < 64" "n < 64" "n \<le> 64 * a + b"
  shows "long_bit bs (64 * a + b - n) =
    (if n \<le> b then bit (bs ! a) (63 - (b - n)) else bit (bs ! (a - 1)) (63 - (64 + b - n)))"
proof (cases "n \<le> b")
  case True
  then have "64 * a + b - n = 64 * a + (b - n)" by simp
  then show ?thesis using True assms by (simp only: long_bit_add) simp
next
  case False
  then have "a \<noteq> 0" using assms by auto
  then have "64 * a + b - n = 64 * (a - 1) + (64 + b - n)" using False assms by (cases a) auto
  moreover have "64 + b - n < 64" using False by simp
  ultimately show ?thesis using False by (simp only: long_bit_add) simp
qed

text \<open>The long the cursor is in, after its right part was moved back by \<open>n\<close> bits.\<close>

lemma bit_split_long:
  fixes w :: u64
  assumes "0 < n" "n < 64" "r < 64" "b < 64"
  defines "w' \<equiv> (if r = 0 then 0 else w AND makeLeftMask r) OR
    (if 64 - r < n then 0 else drop_bit n w AND makeRightMask (64 - r - n))"
  shows "b < r \<Longrightarrow> bit w' (63 - b) = bit w (63 - b)"
    and "r + n \<le> b \<Longrightarrow> bit w' (63 - b) = bit w (63 - (b - n))"
proof -
  have left: "bit (if r = 0 then 0 else w AND makeLeftMask r) (63 - b) \<longleftrightarrow> b < r \<and> bit w (63 - b)"
    using assms(3,4) by (auto simp: bit_word64 bit_makeLeftMask)
  have right: "bit (if 64 - r < n then 0 else drop_bit n w AND makeRightMask (64 - r - n)) (63 - b)
      \<longleftrightarrow> r + n \<le> b \<and> bit w (n + (63 - b))"
    using assms(1-4) by (auto simp: bit_word64 bit_makeRightMask)
  show "b < r \<Longrightarrow> bit w' (63 - b) = bit w (63 - b)"
    using left right by (simp add: w'_def bit_word64(4))
  assume "r + n \<le> b"
  moreover have "63 - (b - n) = n + (63 - b)" using \<open>r + n \<le> b\<close> assms(4) by simp
  ultimately show "bit w' (63 - b) = bit w (63 - (b - n))"
    using left right unfolding w'_def bit_word64(4) by auto
qed

lemma shift_moved_effect:
  assumes n: "0 < n" "n < 64" and p: "p div 64 < length bs" "bs \<noteq> []"
    and sh: "length bs' = length bs"
      "\<forall>a < length bs. bs' ! a = (if p div 64 < a \<and> a \<le> length bs - 1
          then drop_bit n (bs ! a) OR push_bit (64 - n) (bs ! (a - 1)) else bs ! a)"
    and w: "w = bs' ! (p div 64)"
      "w' = (if p mod 64 = 0 then 0 else w AND makeLeftMask (p mod 64)) OR
        (if 64 - p mod 64 < n then 0 else drop_bit n w AND makeRightMask (64 - p mod 64 - n))"
  shows "moved_effect bs p n (bs'[p div 64 := w'])"
  unfolding moved_effect_def
proof (intro conjI allI impI)
  define q r where "q = p div 64" and "r = p mod 64"
  have pos: "p = 64 * q + r" and r: "r < 64" by (simp_all add: q_def r_def)
  show "length (bs'[p div 64 := w']) = length bs" using sh(1) by simp
  have w'': "w = bs ! q" using w(1) sh p by (simp flip: q_def)
  fix i assume i: "i < 64 * length (bs'[p div 64 := w'])"
  define a b where "a = i div 64" and "b = i mod 64"
  have ab: "i = 64 * a + b" "b < 64" "a < length bs"
    using i sh(1) by (simp_all add: a_def b_def div_less_iff_less_mult)
  have new: "long_bit (bs'[q := w']) i = bit (if a = q then w' else bs' ! a) (63 - b)"
    using ab sh(1) by (simp add: long_bit_add)
  have bl: "b < r \<Longrightarrow> bit w' (63 - b) = bit w (63 - b)"
      "r + n \<le> b \<Longrightarrow> bit w' (63 - b) = bit w (63 - (b - n))"
    using bit_split_long[OF n r ab(2), of w] unfolding w(2) r_def by simp_all
  {
    assume "i < p"
    then have "a < q \<or> a = q \<and> b < r" using ab pos r by (cases "a < q") auto
    then show "long_bit (bs'[p div 64 := w']) i = long_bit bs i"
      using new bl(1) sh(2) ab w'' by (auto simp: long_bit_add simp flip: q_def)
  }
  {
    assume ge: "p + n \<le> i"
    then have le: "n \<le> 64 * a + b" using ab by simp
    have c: "q < a \<or> a = q \<and> r + n \<le> b" using ge ab pos by (cases "q < a") auto
    show "long_bit (bs'[p div 64 := w']) i = long_bit bs (i - n)"
    proof (cases "a = q")
      case True
      then show ?thesis using c new bl(2) w'' ab long_bit_sub[OF ab(2) n(2) le, of bs]
        by (simp flip: q_def)
    next
      case False
      moreover have "a \<le> length bs - 1" using ab(3) by simp
      ultimately have "bs' ! a = drop_bit n (bs ! a) OR push_bit (64 - n) (bs ! (a - 1))"
        using c sh(2) ab by (simp flip: q_def)
      then show ?thesis
        using False new bit_shifted_pair[OF n ab(2)] long_bit_sub[OF ab(2) n(2) le, of bs] ab
        by (simp flip: q_def)
    qed
  }
qed

lemma copy_moved_effect:
  assumes "length bs' = length bs"
    "\<forall>a < length bs. bs' ! a = (if p div 64 < a \<and> a \<le> length bs - 1 then bs ! (a - 1) else bs ! a)"
  shows "moved_effect bs p 64 bs'"
  unfolding moved_effect_def
proof (intro conjI allI impI)
  fix i assume i: "i < 64 * length bs'"
  have a: "i div 64 < length bs" using i assms(1) by (simp add: div_less_iff_less_mult)
  {
    assume "i < p"
    then have "i div 64 \<le> p div 64" by (simp add: div_le_mono)
    then show "long_bit bs' i = long_bit bs i" using a assms(2) by (simp add: long_bit_def)
  }
  {
    assume "p + 64 \<le> i"
    then have "p div 64 < i div 64" using div_le_mono[of "p + 64" i 64] by simp
    then have "bs' ! (i div 64) = bs ! (i div 64 - 1)" using a assms(2) by simp
    moreover have "(i - 64) div 64 = i div 64 - 1" "(i - 64) mod 64 = i mod 64"
      using \<open>p + 64 \<le> i\<close> by (simp_all add: le_div_geq le_mod_geq)
    ultimately show "long_bit bs' i = long_bit bs (i - 64)" by (simp add: long_bit_def)
  }
qed (rule assms(1))

text \<open>From the moved longs and the overwritten field to the list of bits.\<close>

lemma insert_from_moved:
  assumes inv: "bitio_inv s" and n: "0 < n" "n \<le> 64" and v: "fits n v"
    and s1: "s1 = resizeIfNeeded (s\<lparr>blength := blength s + n\<rparr>)"
    and mv: "moved_effect (bits s1) (position s) n bs"
  shows "\<exists>s'. setBits v n (s1\<lparr>bits := bs\<rparr>) = Inr s' \<and> bitio_inv s' \<and> position s' = position s + n \<and>
     blength s' = blength s + n \<and>
     to_bits s' = take (position s) (to_bits s) @ val_bits n v @ drop (position s) (to_bits s)"
proof -
  let ?t = "s1\<lparr>bits := bs\<rparr>"
  have p: "position s \<le> blength s" using inv by (simp add: bitio_inv_def)
  have len: "blength s1 = blength s + n" "position s1 = position s"
      "length (bits s1) = (blength s + n + 63) div 64" "length bs = length (bits s1)"
    using mv by (simp_all add: s1 resizeIfNeeded_bits moved_effect_def)
  have old: "long_bit (bits s1) i \<longleftrightarrow> i < blength s \<and> long_bit (bits s) i"
    if "i < 64 * length (bits s1)" for i
    using long_bit_resize[of i "length (bits s1)" "bits s"] that bitio_inv_set_bit[OF inv, of i]
    by (simp add: s1 resizeIfNeeded_bits)
  have moved: "(i < position s \<longrightarrow> long_bit bs i = long_bit (bits s1) i) \<and>
      (position s + n \<le> i \<longrightarrow> long_bit bs i = long_bit (bits s1) (i - n))" if "i < 64 * length bs" for i
    using mv that by (simp add: moved_effect_def)
  have "bitio_inv ?t"
    unfolding bitio_inv_def list_all_iff
  proof (intro conjI ballI)
    fix i assume "i \<in> set [blength ?t..<64 * length (bits ?t)]"
    then have i: "blength s + n \<le> i" "i < 64 * length bs" using len by simp_all
    then have "i - n < 64 * length (bits s1)" "\<not> i - n < blength s" "position s + n \<le> i"
      using len(4) p by auto
    then show "\<not> long_bit (bits ?t) i" using moved[OF i(2)] old[of "i - n"] by simp
  qed (use len p in simp_all)
  moreover have "\<not> (n = 64 \<and> position ?t mod 64 = 0 \<and> position ?t = blength ?t)"
    using len p n by simp
  ultimately obtain s' where s': "setBits v n ?t = Inr s'" "bitio_inv s'" "position s' = position s + n"
      "blength s' = max (blength s + n) (position s + n)"
      "to_bits s' = take (position s) (to_bits ?t) @ val_bits n v @ drop (position s + n) (to_bits ?t)"
    using setBits_spec[of ?t n v] n v len by auto
  have fit: "blength s + n \<le> 64 * length bs" using len by simp
  have "take (position s) (to_bits ?t) = take (position s) (to_bits s)"
  proof (rule nth_equalityI)
    fix i assume "i < length (take (position s) (to_bits ?t))"
    then show "take (position s) (to_bits ?t) ! i = take (position s) (to_bits s) ! i"
      using moved[of i] old[of i] len p fit by (simp add: nth_to_bits)
  qed (use len p in simp)
  moreover have "drop (position s + n) (to_bits ?t) = drop (position s) (to_bits s)"
  proof (rule nth_equalityI)
    fix i assume i: "i < length (drop (position s + n) (to_bits ?t))"
    then have "position s + i < blength s" using len by simp
    then show "drop (position s + n) (to_bits ?t) ! i = drop (position s) (to_bits s) ! i"
      using i moved[of "position s + n + i"] old[of "position s + i"] len p fit by (simp add: nth_to_bits)
  qed (use len in simp)
  ultimately show ?thesis using s' p by (simp add: max_def)
qed

lemma insertBits_spec:
  assumes inv: "bitio_inv s" and n: "0 < n" "n \<le> 64" and v: "fits n v"
  shows "\<exists>s'. insertBits v n s = Inr s' \<and> bitio_inv s' \<and> position s' = position s + n \<and>
     blength s' = blength s + n \<and>
     to_bits s' = take (position s) (to_bits s) @ val_bits n v @ drop (position s) (to_bits s)"
proof -
  define s1 where "s1 = resizeIfNeeded (s\<lparr>blength := blength s + n\<rparr>)"
  have p: "position s \<le> blength s" using inv by (simp add: bitio_inv_def)
  have L: "length (bits s1) = (blength s + n + 63) div 64" "position s1 = position s"
    by (simp_all add: s1_def resizeIfNeeded_bits)
  have "blength s + n \<le> 64 * length (bits s1)" using L by simp
  then have q: "position s div 64 < length (bits s1)" "length (bits s1) - 1 < length (bits s1)"
      "bits s1 \<noteq> []"
    using p n by (auto simp: div_less_iff_less_mult)
  have guard: "checkValueSize v n = Inr ()" using n v by simp
  note fin = insert_from_moved[OF inv n v s1_def]
  show ?thesis
  proof (cases "n = 64")
    case True
    obtain bs where bs: "insertBits_copyLongs (position s div 64) (length (bits s1) - 1) (bits s1) = Inr bs"
        "length bs = length (bits s1)"
        "\<forall>a < length (bits s1). bs ! a =
          (if position s div 64 < a \<and> a \<le> length (bits s1) - 1 then bits s1 ! (a - 1) else bits s1 ! a)"
      using copyLongs_nth[OF q(2)] by blast
    have "insertBits v n s = setBits v n (s1\<lparr>bits := bs\<rparr>)"
      unfolding insertBits_def Let_def s1_def[symmetric] guard
      using True bs(1) L by (simp add: getLongIndex_def getEndLongIndex_def)
    then show ?thesis using fin[of bs] copy_moved_effect[OF bs(2,3)] True by simp
  next
    case False
    then have n': "n < 64" using n by simp
    obtain bs where bs: "insertBits_shiftLongs n (position s div 64) (length (bits s1) - 1) (bits s1) = Inr bs"
        "length bs = length (bits s1)"
        "\<forall>a < length (bits s1). bs ! a =
          (if position s div 64 < a \<and> a \<le> length (bits s1) - 1
           then drop_bit n (bits s1 ! a) OR push_bit (64 - n) (bits s1 ! (a - 1)) else bits s1 ! a)"
      using shiftLongs_nth[OF q(2)] by blast
    define w where "w = bs ! (position s div 64)"
    define w' where "w' = (if position s mod 64 = 0 then 0 else w AND makeLeftMask (position s mod 64)) OR
        (if 64 - position s mod 64 < n then 0
         else drop_bit n w AND makeRightMask (64 - position s mod 64 - n))"
    have "insertBits v n s = setBits v n (s1\<lparr>bits := bs[position s div 64 := w']\<rparr>)"
      using False guard bs(1,2) L q
      by (simp add: insertBits_def Let_def getLongIndex_def getBitIndex_def getEndLongIndex_def w_def w'_def
          flip: s1_def)
    then show ?thesis
      using fin[OF shift_moved_effect[OF n(1) n' q(1,3) bs(2,3) w_def w'_def]] by simp
  qed
qed

subsection \<open>Reading what lies ahead\<close>

lemma skip_bits_simps [simp]:
  "position (skip_bits n s) = position s + n"
  "blength (skip_bits n s) = blength s"
  "bits (skip_bits n s) = bits s"
  "to_bits (skip_bits n s) = to_bits s"
  "skip_bits m (skip_bits n s) = skip_bits (n + m) s"
  "skip_bits 0 s = s"
  by (simp_all add: skip_bits_def add.assoc)

lemma rest_bits_skip: "rest_bits (skip_bits n s) = drop n (rest_bits s)"
  by (simp add: rest_bits_def add.commute)

lemma ahead_inv: "ahead s bl \<Longrightarrow> bitio_inv s"
  by (simp add: ahead_def)

lemma ahead_room: "ahead s bl \<Longrightarrow> position s + length bl \<le> blength s"
proof -
  assume a: "ahead s bl"
  have "min (blength s - position s) (length bl) = length bl"
    using a by (metis ahead_def length_take length_rest_bits)
  then show ?thesis using a bitio_inv_position[of s] by (auto simp: ahead_def)
qed

lemma bitio_inv_skip: "bitio_inv s \<Longrightarrow> position s + n \<le> blength s \<Longrightarrow> bitio_inv (skip_bits n s)"
  by (simp add: skip_bits_def)

lemma ahead_append_iff: "ahead s (xs @ ys) \<longleftrightarrow> ahead s xs \<and> ahead (skip_bits (length xs) s) ys"
proof
  assume a: "ahead s (xs @ ys)"
  define r where "r = drop (length (xs @ ys)) (rest_bits s)"
  have "rest_bits s = xs @ ys @ r"
    using a append_take_drop_id[of "length (xs @ ys)" "rest_bits s"] by (simp add: ahead_def r_def)
  then have "take (length xs) (rest_bits s) = xs \<and> take (length ys) (drop (length xs) (rest_bits s)) = ys"
    by simp
  then show "ahead s xs \<and> ahead (skip_bits (length xs) s) ys"
    using a ahead_room[OF a] bitio_inv_skip[of s "length xs"]
    by (simp add: ahead_def rest_bits_skip)
next
  assume "ahead s xs \<and> ahead (skip_bits (length xs) s) ys"
  then show "ahead s (xs @ ys)" by (simp add: ahead_def take_add rest_bits_skip)
qed

lemma ahead_prefix: "ahead s (xs @ ys) \<Longrightarrow> ahead s xs"
  by (simp add: ahead_append_iff)

lemma ahead_Nil [simp]: "ahead s [] \<longleftrightarrow> bitio_inv s"
  by (simp add: ahead_def)

lemma ahead_get [stream_laws]:
  assumes "ahead s (val_bits n v)" "field_ok n v"
  shows "getBits n s = Inr (v, skip_bits n s)"
proof -
  have "rest_bits s = val_bits n v @ drop n (rest_bits s)"
    using assms(1) append_take_drop_id[of n "rest_bits s"] by (simp add: ahead_def)
  then show ?thesis
    using getBits_field[of s n v] assms by (simp add: field_ok_def ahead_def skip_bits_def)
qed

lemma holds_ahead: "holds s bl \<Longrightarrow> ahead s bl"
  by (auto simp: holds_def ahead_def rest_bits_def)

lemma field_ok_checks [simp]: "field_ok n v \<Longrightarrow> checkLength n 64 = Inr ()"
    "field_ok n v \<Longrightarrow> checkValueSize v n = Inr ()"
  by (simp_all add: field_ok_def)

lemma append_holds:
  assumes "holds s bl" "field_ok n v"
  shows "\<exists>s'. appendBits v n s = Inr s' \<and> holds s' (bl @ val_bits n v)"
  using assms appendBits_spec[of s n v] by (auto simp: holds_def field_ok_def)

lemma append_stream_holds:
  assumes "holds s bl" "bitio_inv t"
  shows "\<exists>s'. appendBits_stream t s = Inr s' \<and> holds s' (bl @ to_bits t)"
  using assms appendBits_stream_spec[of t s] by (auto simp: holds_def)

lemma holds_empty [simp]: "holds BitIO_empty []"
  by (simp add: holds_def)

lemma holds_blength: "holds s bl \<Longrightarrow> blength s = length bl"
  using length_to_bits[of s] by (auto simp: holds_def)

lemma fields_image_simps [simp]:
  "fields_image [] = []"
  "fields_image ((n, v) # fs) = val_bits n v @ fields_image fs"
  by (simp_all add: fields_image_def)

lemma put_fields_simps [simp]:
  "put_fields put [] s = Inr s"
  "put_fields put ((n, v) # fs) s = bindE (put v n s) (put_fields put fs)"
  by (simp_all add: put_fields_def fun_eq_iff)

lemma put_fields_holds:
  assumes "list_all (\<lambda>(n, v). field_ok n v) fs" "holds s bl"
  shows "\<exists>b. put_fields appendBits fs s = Inr b \<and> holds b (bl @ fields_image fs)"
  using assms
proof (induction fs arbitrary: s bl)
  case (Cons f fs)
  obtain n v where f: "f = (n, v)" by (cases f)
  obtain s1 where s1: "appendBits v n s = Inr s1" "holds s1 (bl @ val_bits n v)"
    using append_holds[of s bl n v] Cons.prems by (auto simp: f)
  then show ?case using Cons.IH[OF _ s1(2)] Cons.prems by (auto simp: f)
qed simp

lemma val_bits_split: "val_bits (m + n) v = val_bits m (drop_bit n v) @ val_bits n v"
proof (rule nth_equalityI)
  fix i assume "i < length (val_bits (m + n) v)"
  then show "val_bits (m + n) v ! i = (val_bits m (drop_bit n v) @ val_bits n v) ! i"
    by (auto simp: val_bits_def nth_append bit_drop_bit_eq add.commute)
qed simp

lemma val_bits_cong: "(\<And>k. k < n \<Longrightarrow> bit v k = bit w k) \<Longrightarrow> val_bits n v = val_bits n w"
  by (auto simp: val_bits_def)

lemma field_okI: "0 < n \<Longrightarrow> n \<le> 64 \<Longrightarrow> unat v < 2 ^ n \<Longrightarrow> field_ok n v"
  by (simp add: field_ok_def fits_def)

lemma ahead_get_append:
  assumes "ahead s (val_bits n v @ r)" "field_ok n v"
  shows "getBits n s = Inr (v, skip_bits n s)" "ahead (skip_bits n s) r"
  using assms ahead_get[of s n v] by (simp_all add: ahead_append_iff)

lemma made_holds: "enc v = Inr b \<Longrightarrow> holds b bl \<Longrightarrow> made enc v = bl"
  by (simp add: made_def holds_def)

lemma val_bits_0: "val_bits n 0 = replicate n False"
  by (simp add: val_bits_def map_replicate_trivial)

lemma field_ok_byte: "field_ok 8 (ucast (b::u8))"
proof (rule field_okI)
  show "unat (ucast b :: u64) < 2 ^ 8" using unsigned_less[of b] by simp
qed simp_all

lemma fields_image_append [simp]: "fields_image (fs @ gs) = fields_image fs @ fields_image gs"
  by (simp add: fields_image_def)

lemma length_fields_image: "length (fields_image fs) = sum_list (map fst fs)"
  by (induction fs) auto

text \<open>A header and a length written as one field.\<close>

lemma paired_field:
  assumes "field_ok m h" "field_ok n v" "m + n \<le> 64"
  shows "field_ok (m + n) (push_bit n h OR v)"
    and "val_bits (m + n) (push_bit n h OR v) = val_bits m h @ val_bits n v"
proof -
  have v: "\<not> bit v k" if "n \<le> k" for k using assms(2) fits_not_bit that by (auto simp: field_ok_def)
  have h: "\<not> bit h k" if "m \<le> k" for k using assms(1) fits_not_bit that by (auto simp: field_ok_def)
  have "fits (m + n) (push_bit n h OR v)"
    using assms(3) v h by (auto simp: fits_iff_bits bit_word64)
  then show "field_ok (m + n) (push_bit n h OR v)" using assms by (simp add: field_ok_def)
  have "val_bits m (drop_bit n (push_bit n h OR v)) = val_bits m h"
    using assms v by (intro val_bits_cong) (auto simp: bit_word64)
  moreover have "val_bits n (push_bit n h OR v) = val_bits n v"
    by (intro val_bits_cong) (auto simp: bit_word64)
  ultimately show "val_bits (m + n) (push_bit n h OR v) = val_bits m h @ val_bits n v"
    using val_bits_split[of m n] by simp
qed

lemma insert_front:
  assumes "bitio_inv s" "field_ok n v"
  shows "\<exists>s'. insertBits v n (movePositionToBeginning s) = Inr s' \<and> bitio_inv s' \<and>
    to_bits s' = val_bits n v @ to_bits s"
  using insertBits_spec[of "movePositionToBeginning s" n v] assms
  by (auto simp: movePositionToBeginning_def field_ok_def)

lemma copyBits_ahead:
  assumes "ahead s bl"
  shows "\<exists>r. copyBits (length bl) s = Inr (r, skip_bits (length bl) s) \<and> holds r bl"
proof -
  have "length bl \<le> blength s - position s" using ahead_room[OF assms] by simp
  then show ?thesis using copyBits_spec[of s "length bl"] assms by (auto simp: ahead_def holds_def skip_bits_def)
qed

subsection \<open>The contract of the raw fields\<close>

locale bit_channel =
  fixes put :: "u64 \<Rightarrow> nat \<Rightarrow> 's \<Rightarrow> 's result"
    and get :: "nat \<Rightarrow> 's \<Rightarrow> (u64 \<times> 's) result"
    and ok :: "nat \<Rightarrow> u64 \<Rightarrow> bool"
    and image :: "nat \<Rightarrow> u64 \<Rightarrow> bool list"
    and wf :: "'s \<Rightarrow> bool"
    and pending :: "'s \<Rightarrow> bool list"
  assumes put_law: "wf s \<Longrightarrow> ok n v \<Longrightarrow>
      \<exists>s'. put v n s = Inr s' \<and> wf s' \<and> pending s' = pending s @ image n v"
    and get_law: "wf s \<Longrightarrow> ok n v \<Longrightarrow> pending s = image n v @ r \<Longrightarrow>
      \<exists>s'. get n s = Inr (v, s') \<and> wf s' \<and> pending s' = r"
begin

lemma put_fields_image:
  assumes "wf s" "list_all (\<lambda>(n, v). ok n v) fs"
  shows "\<exists>s'. put_fields put fs s = Inr s' \<and> wf s' \<and>
    pending s' = pending s @ concat (map (\<lambda>(n, v). image n v) fs)"
  using assms
proof (induction fs arbitrary: s)
  case (Cons f fs)
  obtain n v where f: "f = (n, v)" by (cases f)
  obtain s1 where s1: "put v n s = Inr s1" "wf s1" "pending s1 = pending s @ image n v"
    using put_law[of s n v] Cons.prems by (auto simp: f)
  then show ?case using Cons.IH[of s1] Cons.prems by (auto simp: f put_fields_def)
qed (simp add: put_fields_def)

lemma get_fields_image:
  assumes "wf s" "list_all (\<lambda>(n, v). ok n v) fs"
    "pending s = concat (map (\<lambda>(n, v). image n v) fs) @ r"
  shows "\<exists>s'. get_fields get (map fst fs) s = Inr (map snd fs, s') \<and> wf s' \<and> pending s' = r"
  using assms
proof (induction fs arbitrary: s)
  case (Cons f fs)
  obtain n v where f: "f = (n, v)" by (cases f)
  obtain s1 where s1: "get n s = Inr (v, s1)" "wf s1"
      "pending s1 = concat (map (\<lambda>(n, v). image n v) fs) @ r"
    using get_law[of s n v] Cons.prems by (auto simp: f)
  then show ?case using Cons.IH[of s1] Cons.prems by (auto simp: f)
qed simp

lemma fields_round_trip:
  assumes "wf s" "pending s = []" "list_all (\<lambda>(n, v). ok n v) fs"
  shows "\<exists>s' s''. put_fields put fs s = Inr s' \<and> get_fields get (map fst fs) s' = Inr (map snd fs, s'') \<and>
    wf s'' \<and> pending s'' = []"
proof -
  obtain s' where "put_fields put fs s = Inr s'" "wf s'"
      "pending s' = concat (map (\<lambda>(n, v). image n v) fs) @ []"
    using put_fields_image[OF assms(1,3)] assms(2) by auto
  then show ?thesis using get_fields_image[OF _ assms(3)] by blast
qed

end

interpretation bio: bit_channel appendBits getBits field_ok val_bits bitio_inv rest_bits
proof unfold_locales
  fix s :: BitIO and n v assume "bitio_inv s" "field_ok n v"
  then show "\<exists>s'. appendBits v n s = Inr s' \<and> bitio_inv s' \<and> rest_bits s' = rest_bits s @ val_bits n v"
    using appendBits_spec[of s n v] bitio_inv_position[of s] by (auto simp: field_ok_def rest_bits_def)
next
  fix s :: BitIO and n v r assume a: "bitio_inv s" "field_ok n v" "rest_bits s = val_bits n v @ r"
  then have "ahead s (val_bits n v)" by (simp add: ahead_def)
  then have "getBits n s = Inr (v, skip_bits n s)" "bitio_inv (skip_bits n s)"
    using a ahead_get ahead_room bitio_inv_skip by fastforce+
  then show "\<exists>s'. getBits n s = Inr (v, s') \<and> bitio_inv s' \<and> rest_bits s' = r"
    using a(3) by (simp add: rest_bits_skip)
qed

subsection \<open>The contract of a codec\<close>

text \<open>
  A codec is a static \<open>make\<close> function that returns a stream and a \<open>get\<close> function that reads the
  same format at the cursor; \<open>image\<close> is the format. A client appends what \<open>make\<close> returned to
  its own stream and finds the value again where it was appended.
\<close>

locale codec =
  fixes make :: "'a \<Rightarrow> BitIO result"
    and get :: "BitIO \<Rightarrow> ('a \<times> BitIO) result"
    and valid :: "'a \<Rightarrow> bool"
    and image :: "'a \<Rightarrow> bool list"
  assumes make_law: "valid v \<Longrightarrow> \<exists>b. make v = Inr b \<and> holds b (image v)"
    and get_law: "valid v \<Longrightarrow> ahead s (image v) \<Longrightarrow> get s = Inr (v, skip_bits (length (image v)) s)"
begin

lemma make_get: "valid v \<Longrightarrow> \<exists>b. make v = Inr b \<and> get b = Inr (v, movePositionToEnd b)"
proof -
  assume v: "valid v"
  obtain b where b: "make v = Inr b" "holds b (image v)" using make_law[OF v] by blast
  moreover have "skip_bits (length (image v)) b = movePositionToEnd b"
    using b(2) holds_blength[OF b(2)] by (simp add: skip_bits_def movePositionToEnd_def holds_def)
  ultimately show ?thesis using get_law[OF v holds_ahead[OF b(2)]] by auto
qed

lemma append_get:
  assumes "valid v" "bitio_inv s"
  shows "\<exists>b s'. make v = Inr b \<and> appendBits_stream b s = Inr s' \<and> bitio_inv s' \<and>
    to_bits s' = to_bits s @ image v \<and>
    get (s'\<lparr>position := blength s\<rparr>) = Inr (v, movePositionToEnd s')"
proof -
  obtain b where b: "make v = Inr b" "holds b (image v)" using make_law[OF assms(1)] by blast
  obtain s' where s': "appendBits_stream b s = Inr s'" "bitio_inv s'" "to_bits s' = to_bits s @ image v"
    using appendBits_stream_spec[of b s] b(2) assms(2) by (auto simp: holds_def)
  have len: "blength s' = blength s + length (image v)"
    using arg_cong[OF s'(3), of length] by simp
  have "ahead (s'\<lparr>position := blength s\<rparr>) (image v)" using s' len by (simp add: ahead_def)
  then show ?thesis
    using get_law[OF assms(1)] b(1) s' len by (fastforce simp: skip_bits_def movePositionToEnd_def)
qed

end

end
