(* ===== verification/BitNumbers.thy ===== *)
theory BitNumbers
  imports BitStream_Spec
begin

text \<open>
  The number, key and Bitcoin-script formats of \<^verbatim>\<open>src/src/BitIO.cpp\<close>: the fixed-precision
  amounts (\<open>makeFixedPrecision\<close>, \<open>getFixedPrecision\<close>), the \<open>xBit\<close> keys and the Bitcoin data
  headers. Each format is shown to be a \<open>codec\<close>: what \<open>make\<close> writes, \<open>get\<close> reads back at any
  place of any stream, and the cursor ends behind it.
\<close>

unbundle bit_operations_syntax

subsection \<open>Fixed precision amounts\<close>

definition pow10_table :: "u64 list" where
  "pow10_table =
     [1, 10, 100, 1000, 10000,
      100000, 1000000, 10000000, 100000000, 1000000000,
      10000000000, 100000000000, 1000000000000, 10000000000000, 100000000000000,
      1000000000000000, 10000000000000000, 100000000000000000, 1000000000000000000]"

definition pow10 :: "u64 \<Rightarrow> u64 result" where
  "pow10 exponent =
     bindE (checkValueRange exponent 0 18) (\<lambda>_. vec_get pow10_table (unat exponent))"

text \<open>
  The loop that strips decimal zeros. On the value 0 it would never end, which is undefined
  behaviour for a loop without side effects; its only caller has returned before for 0.
\<close>

function stripZeros :: "u64 \<Rightarrow> u64 \<Rightarrow> (u64 \<times> u64) result" where
  "stripZeros exponent value =
     (if value = 0 then Inl UndefinedBehaviour
      else if value mod 10 = 0 then stripZeros (exponent + 1) (value div 10)
      else Inr (exponent, value))"
  by pat_completeness auto
termination
proof (relation "measure (\<lambda>(exponent, value). unat value)", goal_cases)
  case (2 exponent "value")
  then have "0 < unat value" by (simp add: unat_gt_0)
  then show ?case by (simp add: unat_div)
qed simp

declare stripZeros.simps [simp del]

definition makeFixedPrecision :: "u64 \<Rightarrow> BitIO result" where
  "makeFixedPrecision value =
     bindE (checkValueRange value 0 18014398509481983) (\<lambda>_.
     if value < 32 then appendBits value 8 BitIO_empty
     else
       bindE (stripZeros 0 value) (\<lambda>(exponent, value).
       bindE (if value > 4398046511103
              then bindE (pow10 exponent) (\<lambda>p. Inr (0, value * p))
              else Inr (exponent, value)) (\<lambda>(exponent, value).
       bindE (if exponent > 7 \<and> value > 33554431
              then bindE (pow10 (exponent - 7)) (\<lambda>p. Inr (7, value * p))
              else Inr (exponent, value)) (\<lambda>(exponent, value).
       if value > 4398046511103 then
         bindE (appendBits 3 2 BitIO_empty) (appendBits value 54)
       else if value > 17179869183 then
         bindE (appendBits 5 3 BitIO_empty) (\<lambda>r. bindE (appendBits value 42 r) (appendBits exponent 3))
       else if value > 33554431 then
         bindE (appendBits 4 3 BitIO_empty) (\<lambda>r. bindE (appendBits value 34 r) (appendBits exponent 3))
       else if value > 131071 then
         bindE (appendBits 3 3 BitIO_empty) (\<lambda>r. bindE (appendBits value 25 r) (appendBits exponent 4))
       else if value > 511 then
         bindE (appendBits 2 3 BitIO_empty) (\<lambda>r. bindE (appendBits value 17 r) (appendBits exponent 4))
       else
         bindE (appendBits 1 3 BitIO_empty) (\<lambda>r. bindE (appendBits value 9 r) (appendBits exponent 4))))))"

definition getFixedPrecision :: "BitIO \<Rightarrow> (u64 \<times> BitIO) result" where
  "getFixedPrecision s =
     bindE (getBits 3 s) (\<lambda>(v, s).
     let len = v + 1 in
     bindE (if len \<ge> 7 then bindE (movePositionBy s (-1)) (\<lambda>s. Inr (7, s)) else Inr (len, s)) (\<lambda>(len, s).
     bindE (if len = 1 then bindE (getBits 5 s) (\<lambda>(mantissa, s). Inr (mantissa, 0, s))
            else if len < 5 then
              bindE (getBits (unat (len * 8 - 7)) s) (\<lambda>(mantissa, s).
              bindE (getBits 4 s) (\<lambda>(exponent, s). Inr (mantissa, exponent, s)))
            else if len < 7 then
              bindE (getBits (unat (len * 8 - 6)) s) (\<lambda>(mantissa, s).
              bindE (getBits 3 s) (\<lambda>(exponent, s). Inr (mantissa, exponent, s)))
            else bindE (getBits 54 s) (\<lambda>(mantissa, s). Inr (mantissa, 0, s))) (\<lambda>(mantissa, exponent, s).
     bindE (pow10 exponent) (\<lambda>p. Inr (mantissa * p, s)))))"

subsection \<open>xBit keys\<close>

record xBitValue =
  depth :: u64
  key :: u64
  xBitLength :: u64

definition xBitValue_eq :: "xBitValue \<Rightarrow> xBitValue \<Rightarrow> bool" where
  "xBitValue_eq a b \<longleftrightarrow> depth a = depth b \<and> key a = key b"

definition verify :: "xBitValue \<Rightarrow> unit result" where
  "verify x =
     (if key x = 0 then Inl (OutOfRange ''key can not be zero'')
      else if xBitLength x = 0 then Inl (OutOfRange ''xBitLength must be greater than zero'')
      else if xBitLength x = 64 then Inr ()
      else if xBitLength x > 64 then Inl UndefinedBehaviour
      else if key x \<ge> push_bit (unat (xBitLength x)) 1
        then Inl (OutOfRange ''value must fit in xBitLength bits'')
      else Inr ())"

definition makeXBit :: "xBitValue \<Rightarrow> BitIO result" where
  "makeXBit value =
     bindE (verify value) (\<lambda>_.
     appendBits (key value) (unat (xBitLength value))
       (appendZeros (unat (depth value * xBitLength value)) BitIO_empty))"

function getXBit_loop :: "nat \<Rightarrow> u64 \<Rightarrow> BitIO \<Rightarrow> (xBitValue \<times> BitIO) result" where
  "getXBit_loop xLength d s =
     bindE (getBits xLength s) (\<lambda>(k, s').
     if k = 0 then getXBit_loop xLength (d + 1) s'
     else Inr (\<lparr>depth = d, key = k, xBitLength = of_nat xLength\<rparr>, s'))"
  by pat_completeness auto
termination
  by (relation "measure (\<lambda>(xLength, d, s). getNumberOfBitLeft s)")
    (auto dest!: getBits_moves simp: getNumberOfBitLeft_def)

declare getXBit_loop.simps [simp del]

definition getXBit :: "nat \<Rightarrow> BitIO \<Rightarrow> (xBitValue \<times> BitIO) result" where
  "getXBit xLength s = getXBit_loop xLength 0 s"

subsection \<open>Bitcoin script data\<close>

abbreviation (input) BITIO_BITCOIN_OP_RETURN :: u64 where
  "BITIO_BITCOIN_OP_RETURN \<equiv> 106"

abbreviation (input) BITIO_BITCOIN_TYPE_DATA :: int where
  "BITIO_BITCOIN_TYPE_DATA \<equiv> - 2"

text \<open>\<open>value\<close> is an \<^verbatim>\<open>int8_t\<close>; inside the accepted range no addition overflows.\<close>

definition makeBitcoin_int :: "int \<Rightarrow> bool \<Rightarrow> BitIO result" where
  "makeBitcoin_int value includeOpReturn =
     bindE (checkValueRange_int value (-1) 16) (\<lambda>_.
     let value1 = (if value > 0 then value + 80 else value);
         value2 = (if value1 = -1 then 79 else value1)
     in bindE (if includeOpReturn then appendBits BITIO_BITCOIN_OP_RETURN 8 BitIO_empty
               else Inr BitIO_empty) (\<lambda>result.
        appendBits (of_int value2) 8 result))"

definition makeBitcoin_vector :: "u8 list \<Rightarrow> bool \<Rightarrow> BitIO result" where
  "makeBitcoin_vector value includeOpReturn =
     bindE (if includeOpReturn then appendBits BITIO_BITCOIN_OP_RETURN 8 BitIO_empty
            else Inr BitIO_empty) (\<lambda>r.
     bindE (if length value > 0xffff then
              bindE (appendBits 0x4e 8 r) (appendBits (of_nat (length value)) 32)
            else if length value > 0xff then
              bindE (appendBits 0x4d 8 r) (appendBits (of_nat (length value)) 16)
            else if length value > 75 then
              bindE (appendBits 0x4c 8 r) (appendBits (of_nat (length value)) 8)
            else appendBits (of_nat (length value)) 8 r) (\<lambda>r.
     foldE (\<lambda>i. appendBits (ucast i) 8) value r))"

definition makeBitcoin_stream :: "bool \<Rightarrow> BitIO \<Rightarrow> BitIO result" where
  "makeBitcoin_stream includeOpReturn value =
     bindE (if getLength value mod 8 \<noteq> 0 then invalidLength else Inr ()) (\<lambda>_.
     let len = getLength value div 8 in
     bindE (if len > 0xffffffff then invalidLength else Inr ()) (\<lambda>_.
     let value = movePositionToBeginning value in
     bindE (if len > 0xffff then insertBits (push_bit 32 0x4e OR of_nat len) 40 value
            else if len > 0xff then insertBits (push_bit 16 0x4d OR of_nat len) 24 value
            else if len > 75 then insertBits (push_bit 8 0x4c OR of_nat len) 16 value
            else insertBits (of_nat len) 8 value) (\<lambda>value.
     let value = movePositionToBeginning value in
     if includeOpReturn then insertBits BITIO_BITCOIN_OP_RETURN 8 value else Inr value)))"

definition checkIsBitcoinOpReturn :: "BitIO \<Rightarrow> (bool \<times> BitIO) result" where
  "checkIsBitcoinOpReturn s =
     (let pos = getPosition s in
      catchE
        (bindE (getBits 8 s) (\<lambda>(v, s').
         let isOpReturn = (v = BITIO_BITCOIN_OP_RETURN) in
         if \<not> isOpReturn then bindE (movePositionTo s' pos) (\<lambda>s''. Inr (isOpReturn, s''))
         else Inr (isOpReturn, s')))
        (\<lambda>_. bindE (movePositionTo s pos) (\<lambda>s''. Inr (False, s''))))"

definition getBitcoinDataHeader :: "BitIO \<Rightarrow> (int \<times> BitIO) result" where
  "getBitcoinDataHeader s =
     bindE (getBits 8 s) (\<lambda>(opCode, s).
     if opCode = 0 then Inr (0, s)
     else if opCode = 80 then invalidOpCode
     else if opCode \<ge> 79 \<and> opCode \<le> 96 then Inr (uint opCode - 80, s)
     else bindE (movePositionBy s (-8)) (\<lambda>s.
       if opCode \<ge> 1 \<and> opCode \<le> 78 then Inr (BITIO_BITCOIN_TYPE_DATA, s)
       else invalidOpCode))"

text \<open>The part \<open>getBitcoinData\<close> and \<open>copyBitcoinData\<close> share: the op code and the length it announces.\<close>

definition bitcoinDataLength :: "BitIO \<Rightarrow> (nat \<times> BitIO) result" where
  "bitcoinDataLength s =
     bindE (getBits 8 s) (\<lambda>(opCode, s).
     if opCode = 0 \<or> opCode \<ge> 79 then invalidOpCode
     else bindE (if opCode = 76 then getBits 8 s
                 else if opCode = 77 then getBits 16 s
                 else if opCode = 78 then getBits 32 s
                 else Inr (opCode, s)) (\<lambda>(len, s). Inr (unat len, s)))"

fun getBytes :: "nat \<Rightarrow> BitIO \<Rightarrow> (u8 list \<times> BitIO) result" where
  "getBytes 0 s = Inr ([], s)"
| "getBytes (Suc n) s =
     bindE (getBits 8 s) (\<lambda>(b, s). bindE (getBytes n s) (\<lambda>(bs, s). Inr (ucast b # bs, s)))"

definition getBitcoinData :: "BitIO \<Rightarrow> (u8 list \<times> BitIO) result" where
  "getBitcoinData s = bindE (bitcoinDataLength s) (\<lambda>(len, s). getBytes len s)"

definition copyBitcoinData :: "BitIO \<Rightarrow> (BitIO \<times> BitIO) result" where
  "copyBitcoinData s = bindE (bitcoinDataLength s) (\<lambda>(len, s). copyBits (len * 8) s)"

subsection \<open>The formats\<close>

definition fp_fields :: "nat \<Rightarrow> u64 \<Rightarrow> u64 \<Rightarrow> (nat \<times> u64) list" where
  "fp_fields k m e =
     (if k = 1 then [(3, 0), (5, m)]
      else if k < 5 then [(3, of_nat (k - 1)), (8 * k - 7, m), (4, e)]
      else if k < 7 then [(3, of_nat (k - 1)), (8 * k - 6, m), (3, e)]
      else [(2, 3), (54, m)])"

definition fp_ok :: "nat \<Rightarrow> u64 \<Rightarrow> u64 \<Rightarrow> bool" where
  "fp_ok k m e \<longleftrightarrow> 1 \<le> k \<and> k \<le> 7 \<and> list_all (\<lambda>(n, v). field_ok n v) (fp_fields k m e) \<and>
     (k = 1 \<or> k = 7 \<longrightarrow> e = 0)"

text \<open>The encoder after normalisation: the width is chosen from the mantissa.\<close>

definition fp_width :: "nat \<Rightarrow> nat" where
  "fp_width m = (if m > 4398046511103 then 7 else if m > 17179869183 then 6 else if m > 33554431 then 5
     else if m > 131071 then 4 else if m > 511 then 3 else 2)"

text \<open>The stream \<open>b\<close> carries the amount \<open>v\<close> as one of the seven widths.\<close>

definition fp_carries :: "BitIO \<Rightarrow> u64 \<Rightarrow> bool" where
  "fp_carries b v \<longleftrightarrow> (\<exists>k m e. fp_ok k m e \<and> holds b (fields_image (fp_fields k m e)) \<and>
     m * of_nat (10 ^ unat e) = v \<and> unat m \<le> unat v \<and> (k = 1 \<or> k = fp_width (unat m)))"

definition fp_valid :: "u64 \<Rightarrow> bool" where
  "fp_valid v \<longleftrightarrow> v \<le> 18014398509481983 \<and> v \<noteq> 10000000000000000"

definition fp_emit :: "u64 \<Rightarrow> u64 \<Rightarrow> BitIO result" where
  "fp_emit exponent value = put_fields appendBits (fp_fields (fp_width (unat value)) value exponent) BitIO_empty"

definition xbit_valid :: "xBitValue \<Rightarrow> bool" where
  "xbit_valid x \<longleftrightarrow> key x \<noteq> 0 \<and> field_ok (unat (xBitLength x)) (key x) \<and>
     unat (depth x) * unat (xBitLength x) < 2 ^ 64"

definition xbit_image :: "xBitValue \<Rightarrow> bool list" where
  "xbit_image x = replicate (unat (depth x) * unat (xBitLength x)) False @ val_bits (unat (xBitLength x)) (key x)"

definition xbit_valid_at :: "nat \<Rightarrow> xBitValue \<Rightarrow> bool" where
  "xbit_valid_at n x \<longleftrightarrow> xbit_valid x \<and> unat (xBitLength x) = n"

definition push_header :: "nat \<Rightarrow> (nat \<times> u64) list" where
  "push_header n =
     (if n > 0xffff then [(8, 0x4e), (32, of_nat n)]
      else if n > 0xff then [(8, 0x4d), (16, of_nat n)]
      else if n > 75 then [(8, 0x4c), (8, of_nat n)]
      else [(8, of_nat n)])"

definition data_image :: "bool \<Rightarrow> u8 list \<Rightarrow> bool list" where
  "data_image op bs = fields_image ((if op then [(8, 106)] else []) @ push_header (length bs) @
     map (\<lambda>b. (8, ucast b)) bs)"

definition data_valid :: "u8 list \<Rightarrow> bool" where
  "data_valid bs \<longleftrightarrow> bs \<noteq> [] \<and> length bs < 2 ^ 32"

definition int_valid :: "int \<Rightarrow> bool" where
  "int_valid i \<longleftrightarrow> -1 \<le> i \<and> i \<le> 16"

definition int_image :: "int \<Rightarrow> bool list" where
  "int_image i = val_bits 8 (if i = 0 then 0 else of_int (i + 80))"

definition push_word :: "nat \<Rightarrow> u64 \<times> nat" where
  "push_word n =
     (if n > 0xffff then (push_bit 32 0x4e OR of_nat n, 40)
      else if n > 0xff then (push_bit 16 0x4d OR of_nat n, 24)
      else if n > 75 then (push_bit 8 0x4c OR of_nat n, 16)
      else (of_nat n, 8))"

subsection \<open>Amounts: encoding and decoding\<close>

lemma pow10_power: "e \<le> 18 \<Longrightarrow> pow10 (of_nat e) = Inr (of_nat (10 ^ e))"
proof -
  assume e: "e \<le> 18"
  have "unat (of_nat e :: u64) = e" using e by (simp add: unat_of_nat)
  moreover have "(of_nat e :: u64) \<le> 18" using e by (simp add: word_le_nat_alt unat_of_nat)
  moreover have "pow10_table ! e = of_nat (10 ^ e)"
    using e by (simp add: pow10_table_def le_Suc_eq numeral_eq_Suc) (auto simp: eval_nat_numeral)
  ultimately show ?thesis
    using e by (simp add: pow10_def checkValueRange_def pow10_table_def)
qed

lemma pow10_field: "unat e < 16 \<Longrightarrow> pow10 e = Inr (of_nat (10 ^ unat e))"
  using pow10_power[of "unat e"] by simp

lemma seven_byte_prefix:
  "val_bits 2 3 @ val_bits 54 m = val_bits 3 (6 OR (drop_bit 53 m AND 1)) @ val_bits 53 m"
proof -
  have two: "val_bits 54 m = val_bits 1 (drop_bit 53 m) @ val_bits 53 m"
    using val_bits_split[of 1 53 m] by simp
  have "val_bits 3 (6 OR (drop_bit 53 m AND 1)) = val_bits 2 3 @ val_bits 1 (drop_bit 53 m)"
    by (auto simp: val_bits_def upt_rec numeral_eq_Suc bit_or_iff bit_and_iff bit_1_iff bit_drop_bit_eq)
  then show ?thesis using two by simp
qed

lemma getFixedPrecision_seven:
  assumes a: "ahead s (val_bits 2 3 @ val_bits 54 m)" and m: "field_ok 54 m"
  shows "getFixedPrecision s = Inr (m, skip_bits 56 s)"
proof -
  define p where "p = 6 OR (drop_bit 53 m AND 1)"
  have p: "p = 6 \<or> p = 7" unfolding p_def and_one_eq by (cases "even (drop_bit 53 m)") (simp_all add: even_iff_mod_2_eq_zero odd_iff_mod_2_eq_one)
  have "ahead s (val_bits 3 p)"
    using a unfolding seven_byte_prefix p_def by (rule ahead_prefix)
  moreover have "field_ok 3 p" using p by (auto intro: field_okI)
  ultimately have g1: "getBits 3 s = Inr (p, skip_bits 3 s)" by (rule ahead_get)
  have "position s + 56 \<le> blength s" using ahead_room[OF a] by simp
  then have mv: "movePositionBy (skip_bits 3 s) (-1) = Inr (skip_bits 2 s)"
    by (simp add: movePositionBy_def movePositionTo_def checkPosition_def skip_bits_def nat_add_distrib)
  have g2: "getBits 54 (skip_bits 2 s) = Inr (m, skip_bits 54 (skip_bits 2 s))"
    using a m by (intro ahead_get) (simp_all add: ahead_append_iff)
  have "p + 1 \<ge> 7" using p by auto
  then show ?thesis using g1 mv g2 pow10_field[of 0] by (simp add: getFixedPrecision_def)
qed

lemma getFixedPrecision_fields:
  assumes ok: "fp_ok k m e" and a: "ahead s (fields_image (fp_fields k m e))"
  shows "getFixedPrecision s = Inr (m * of_nat (10 ^ unat e), skip_bits (length (fields_image (fp_fields k m e))) s)"
proof -
  have p0: "pow10 0 = Inr 1" using pow10_field[of 0] by simp
  have pe: "pow10 e = Inr (of_nat (10 ^ unat e))" if "k \<noteq> 1" "k \<noteq> 7"
  proof (rule pow10_field)
    have "unat e < 2 ^ 4 \<or> unat e < 2 ^ 3"
      using ok that by (auto simp: fp_ok_def fp_fields_def field_ok_def fits_def split: if_splits)
    then show "unat e < 16" by auto
  qed
  show ?thesis
  proof (cases "k = 7")
    case True
    then show ?thesis using ok a getFixedPrecision_seven[of s m] by (simp add: fp_ok_def fp_fields_def)
  next
    case False
    then consider "k = 1" | "k = 2" | "k = 3" | "k = 4" | "k = 5" | "k = 6"
      using ok by (auto simp: fp_ok_def le_Suc_eq numeral_eq_Suc)
    then show ?thesis
      using ok a p0 pe
      by cases (auto simp: fp_ok_def fp_fields_def getFixedPrecision_def word_le_nat_alt
          ahead_append_iff ahead_get)
  qed
qed

lemma stripZeros_spec:
  "value \<noteq> 0 \<Longrightarrow> \<exists>j w. stripZeros e value = Inr (e + of_nat j, w) \<and> unat value = unat w * 10 ^ j \<and>
     w \<noteq> 0 \<and> unat w mod 10 \<noteq> 0"
proof (induction e "value" rule: stripZeros.induct)
  case (1 e "value")
  show ?case
  proof (cases "value mod 10 = 0")
    case True
    then have m: "unat value mod 10 = 0"
      using unat_mod[of "value" 10] by simp
    have d: "unat (value div 10) = unat value div 10" by (simp add: unat_div)
    have "unat value \<noteq> 0" using 1(2) by (simp add: unat_eq_zero)
    then have "unat value div 10 \<noteq> 0" using m by auto
    then have "value div 10 \<noteq> 0" using d by (metis unat_0)
    then obtain j w where jw: "stripZeros (e + 1) (value div 10) = Inr (e + 1 + of_nat j, w)"
        "unat (value div 10) = unat w * 10 ^ j" "w \<noteq> 0" "unat w mod 10 \<noteq> 0"
      using 1(1)[OF 1(2) True] by blast
    have "unat value = unat w * 10 ^ Suc j"
      using jw(2) m d by auto
    moreover have "stripZeros e value = Inr (e + of_nat (Suc j), w)"
      using jw(1) True 1(2) by (simp add: stripZeros.simps[of e "value"] add.assoc)
    ultimately show ?thesis using jw(3,4) by blast
  next
    case False
    then have "unat value mod 10 \<noteq> 0"
      using unat_mod[of "value" 10] by (simp flip: unat_eq_zero)
    then show ?thesis using False 1(2)
      by (intro exI[of _ 0] exI[of _ "value"]) (simp add: stripZeros.simps[of e "value"])
  qed
qed

lemma makeFixedPrecision_emit:
  "makeFixedPrecision value =
     bindE (checkValueRange value 0 18014398509481983) (\<lambda>_.
     if value < 32 then appendBits value 8 BitIO_empty
     else
       bindE (stripZeros 0 value) (\<lambda>(exponent, value).
       bindE (if value > 4398046511103
              then bindE (pow10 exponent) (\<lambda>p. Inr (0, value * p))
              else Inr (exponent, value)) (\<lambda>(exponent, value).
       bindE (if exponent > 7 \<and> value > 33554431
              then bindE (pow10 (exponent - 7)) (\<lambda>p. Inr (7, value * p))
              else Inr (exponent, value)) (\<lambda>(exponent, value). fp_emit exponent value))))"
proof -
  have b: "bindE m Inr = m" for m :: "BitIO result" by (cases m) auto
  have p: "put_fields appendBits [] = Inr"
      "put_fields appendBits ((n, v) # fs) = (\<lambda>s. bindE (appendBits v n s) (put_fields appendBits fs))" for n v fs
    by (simp_all add: fun_eq_iff)
  show ?thesis
    unfolding makeFixedPrecision_def fp_emit_def fp_width_def fp_fields_def
    by (intro arg_cong[of _ _ "bindE _"] ext if_cong refl split_cong)
      (simp add: word_less_nat_alt p b)
qed

lemma fp_emit_carries:
  assumes "unat m < 2 ^ 54" "unat e < 16" "unat m > 33554431 \<longrightarrow> unat e < 8" "unat m > 4398046511103 \<longrightarrow> e = 0"
    and "m * of_nat (10 ^ unat e) = v" "unat m \<le> unat v"
  shows "\<exists>b. fp_emit e m = Inr b \<and> fp_carries b v"
proof -
  define k where "k = fp_width (unat m)"
  have "fp_ok k m e"
    using assms by (auto simp: fp_ok_def k_def fp_width_def fp_fields_def intro!: field_okI)
  moreover obtain b where "fp_emit e m = Inr b" "holds b ([] @ fields_image (fp_fields k m e))"
    using put_fields_holds[OF _ holds_empty, of "fp_fields k m e"] \<open>fp_ok k m e\<close>
    by (auto simp: fp_emit_def fp_ok_def k_def)
  ultimately show ?thesis using assms(5,6) by (auto simp: fp_carries_def k_def)
qed

lemma small_prefix: "unat v < 32 \<Longrightarrow> val_bits 8 v = val_bits 3 0 @ val_bits 5 v"
proof -
  assume v: "unat v < 32"
  have "drop_bit 5 v = 0" using v by (simp add: word_unat_eq_iff unat_div drop_bit_eq_div)
  then show ?thesis using val_bits_split[of 3 5 v] by simp
qed

lemma exp_bound: "M * 10 ^ j \<le> 18014398509481983 \<Longrightarrow> 0 < M \<Longrightarrow> j \<le> 16" for M j :: nat
proof (rule ccontr)
  assume a: "M * 10 ^ j \<le> 18014398509481983" "0 < M" "\<not> j \<le> 16"
  have "(10::nat) ^ 17 \<le> 10 ^ j" using a(3) by (intro power_increasing) auto
  also have "\<dots> \<le> M * 10 ^ j" using a(2) by simp
  finally show False using a(1) by simp
qed

lemma makeFixedPrecision_small:
  assumes "v < 32"
  shows "\<exists>b. makeFixedPrecision v = Inr b \<and> fp_carries b v"
proof -
  have u: "unat v < 32" using assms by (simp add: word_less_nat_alt)
  obtain b where b: "appendBits v 8 BitIO_empty = Inr b" "holds b (val_bits 8 v)"
    using append_holds[OF holds_empty, of 8 v] u by (auto simp: field_ok_def fits_def)
  have "fp_ok 1 v 0" using u by (auto simp: fp_ok_def fp_fields_def intro: field_okI)
  moreover have "fields_image (fp_fields 1 v 0) = val_bits 8 v" using small_prefix[OF u] by (simp add: fp_fields_def)
  ultimately have "fp_carries b v"
    using b(2) unfolding fp_carries_def by (intro exI[of _ 1] exI[of _ v] exI[of _ 0]) simp
  moreover have "makeFixedPrecision v = Inr b"
    using b assms u by (simp add: makeFixedPrecision_def checkValueRange_def word_less_nat_alt)
  ultimately show ?thesis by blast
qed

text \<open>The two adjustments of the exponent, for \<open>v = w * 10 ^ j\<close> with \<open>w\<close> free of decimal zeros.\<close>

lemma fp_adjust_big:
  assumes "unat v \<le> 18014398509481983" "unat v = unat w * 10 ^ j" "0 < unat w" "unat w > 4398046511103" "j \<le> 18"
  shows "\<exists>b. bindE (pow10 (of_nat j)) (\<lambda>p. fp_emit 0 (w * p)) = Inr b \<and> fp_carries b v"
proof -
  have vw: "w * of_nat (10 ^ j) = v"
    using arg_cong[OF assms(2), of "of_nat :: nat \<Rightarrow> u64"] by simp
  have "unat w \<le> unat v" using assms(2) by simp
  then show ?thesis
    using fp_emit_carries[of v 0 v] assms(1,4) pow10_power[OF assms(5)] vw by simp
qed

lemma fp_adjust_long:
  assumes "unat v \<le> 18014398509481983" "unat v = unat w * 10 ^ j" "7 < j" "j \<le> 16" "unat w > 33554431"
  shows "\<exists>b. bindE (pow10 (of_nat j - 7)) (\<lambda>p. fp_emit 7 (w * p)) = Inr b \<and> fp_carries b v"
proof -
  define m where "m = w * of_nat (10 ^ (j - 7))"
  have split: "unat v = unat w * 10 ^ (j - 7) * 10 ^ 7"
    using assms(2) power_add[of "10::nat" "j - 7" 7] assms(3) by simp
  then have "unat w * 10 ^ (j - 7) * 10000000 \<le> 18014398509481983" using assms(1) by simp
  then have bound: "unat w * 10 ^ (j - 7) \<le> 1801439850" by linarith
  then have um: "unat m = unat w * 10 ^ (j - 7)"
    unfolding m_def using unat_of_nat64[of "unat w * 10 ^ (j - 7)"] by simp
  have "m * of_nat (10 ^ unat (7::u64)) = v"
    using arg_cong[OF split, of "of_nat :: nat \<Rightarrow> u64"] by (simp add: m_def)
  then obtain b where "fp_emit 7 m = Inr b" "fp_carries b v"
    using fp_emit_carries[of m 7 v] bound um split by auto
  moreover have "(of_nat j :: u64) - 7 = of_nat (j - 7)" using assms(3) by (simp add: of_nat_diff)
  ultimately show ?thesis using pow10_power[of "j - 7"] assms(4) by (simp add: m_def)
qed

lemma fp_plain:
  assumes "fp_valid v" "unat v = unat w * 10 ^ j" "0 < unat w" "unat w \<le> 4398046511103"
    "j > 7 \<longrightarrow> unat w \<le> 33554431" "j \<le> 16"
  shows "\<exists>b. fp_emit (of_nat j) w = Inr b \<and> fp_carries b v"
proof -
  have vmax: "unat v \<le> 18014398509481983" using assms(1) by (simp add: fp_valid_def word_le_nat_alt)
  have uj: "unat (of_nat j :: u64) = j" using assms(6) by (simp add: unat_of_nat)
  have vw: "w * of_nat (10 ^ j) = v"
    using arg_cong[OF assms(2), of "of_nat :: nat \<Rightarrow> u64"] by simp
  have "j \<noteq> 16"
  proof
    assume "j = 16"
    then have "unat w = 1" using assms(2,3) vmax by simp
    then have "unat v = unat (10000000000000000 :: u64)" using assms(2) \<open>j = 16\<close> by simp
    then show False using assms(1) by (simp add: fp_valid_def word_unat_eq_iff)
  qed
  then show ?thesis using fp_emit_carries[of w "of_nat j" v] assms uj vw by auto
qed

lemma makeFixedPrecision_carries:
  assumes v: "fp_valid v"
  shows "\<exists>b. makeFixedPrecision v = Inr b \<and> fp_carries b v"
proof (cases "v < 32")
  case False
  have vmax: "unat v \<le> 18014398509481983" using v by (simp add: fp_valid_def word_le_nat_alt)
  have "v \<noteq> 0" using False by auto
  then obtain j w where jw: "stripZeros 0 v = Inr (of_nat j, w)" "unat v = unat w * 10 ^ j" "w \<noteq> 0"
    using stripZeros_spec[of v 0] by auto
  have w0: "0 < unat w" using jw(3) by (simp add: unat_gt_0)
  have j: "j \<le> 16" using exp_bound[of "unat w" j] jw(2) vmax w0 by simp
  have uj: "unat (of_nat j :: u64) = j" using j by (simp add: unat_of_nat)
  have start: "makeFixedPrecision v =
       bindE (if unat w > 4398046511103
              then bindE (pow10 (of_nat j)) (\<lambda>p. Inr (0, w * p))
              else Inr (of_nat j, w)) (\<lambda>(exponent, value).
       bindE (if unat exponent > 7 \<and> unat value > 33554431
              then bindE (pow10 (exponent - 7)) (\<lambda>p. Inr (7, value * p))
              else Inr (exponent, value)) (\<lambda>(exponent, value). fp_emit exponent value))"
    using False vmax jw(1)
    by (simp add: makeFixedPrecision_emit checkValueRange_def word_less_nat_alt not_less)
  consider (big) "unat w > 4398046511103" | (long) "unat w \<le> 4398046511103" "j > 7" "unat w > 33554431"
    | (plain) "unat w \<le> 4398046511103" "j > 7 \<longrightarrow> unat w \<le> 33554431"
    by linarith
  then show ?thesis
  proof cases
    case big
    then show ?thesis
      using fp_adjust_big[OF vmax jw(2) w0 big] j start by (simp add: bindE_assoc)
  next
    case long
    then show ?thesis
      using fp_adjust_long[OF vmax jw(2) long(2) j long(3)] start uj by (simp add: bindE_assoc)
  next
    case plain
    then show ?thesis
      using fp_plain[OF v jw(2) w0 plain(1,2) j] start uj by auto
  qed
qed (rule makeFixedPrecision_small)

interpretation fp: codec makeFixedPrecision getFixedPrecision fp_valid "made makeFixedPrecision"
proof unfold_locales
  fix v assume v: "fp_valid v"
  obtain b where b: "makeFixedPrecision v = Inr b" "fp_carries b v"
    using makeFixedPrecision_carries[OF v] by blast
  then obtain k m e where f: "fp_ok k m e" "holds b (fields_image (fp_fields k m e))" "m * of_nat (10 ^ unat e) = v"
    by (auto simp: fp_carries_def)
  note mh = made_holds[of makeFixedPrecision v, OF b(1) f(2)]
  show "\<exists>b. makeFixedPrecision v = Inr b \<and> holds b (made makeFixedPrecision v)"
    using b f mh by auto
  fix s assume "ahead s (made makeFixedPrecision v)"
  then show "getFixedPrecision s = Inr (v, skip_bits (length (made makeFixedPrecision v)) s)"
    using getFixedPrecision_fields[OF f(1), of s] f(3) mh by simp
qed

text \<open>The first bit of an encoded output number is 0, which tells it from a range of outputs.\<close>

lemma fp_first_bit:
  assumes "v < 33554432"
  shows "\<exists>r. made makeFixedPrecision v = False # r"
proof -
  have v: "unat v < 33554432" using assms by (simp add: word_less_nat_alt)
  then have "fp_valid v" by (auto simp: fp_valid_def word_le_nat_alt)
  then obtain b k m e where b: "makeFixedPrecision v = Inr b" and f: "fp_ok k m e"
      "holds b (fields_image (fp_fields k m e))" "unat m \<le> unat v" "k = 1 \<or> k = fp_width (unat m)"
    using makeFixedPrecision_carries[of v] by (auto simp: fp_carries_def)
  have k: "k < 5" "1 \<le> k" using f v by (auto simp: fp_width_def fp_ok_def)
  then have "of_nat (k - 1) \<in> {0, 1, 2, 3 :: u64}" by (auto simp: numeral_eq_Suc less_Suc_eq)
  then have "\<not> bit (of_nat (k - 1) :: u64) 2" by (auto simp: bit_numeral_rec)
  then have "\<exists>r. val_bits 3 (of_nat (k - 1)) = False # r" by (simp add: val_bits_def upt_rec)
  then show ?thesis
    using made_holds[of makeFixedPrecision v, OF b f(2)] k
    by (auto simp: fp_fields_def val_bits_def upt_rec split: if_splits)
qed

text \<open>A finding: one amount of the documented range has no encoding.\<close>

lemma makeFixedPrecision_hole:
  "makeFixedPrecision 10000000000000000 =
     Inl (OutOfRange ''value must be smaller than length bits'')"
proof -
  have "stripZeros 0 10000000000000000 = Inr (16, 1)"
    by (simp add: stripZeros.simps)
  then show ?thesis
    by (simp add: makeFixedPrecision_def checkValueRange_def appendBits_def checkLength_def word_le_nat_alt
        checkValueSize_def BitIO_empty_def Let_def getEndBitIndex_def getEndLongIndex_def)
qed

subsection \<open>Keys\<close>

lemma makeXBit_holds:
  assumes "xbit_valid x"
  shows "\<exists>b. makeXBit x = Inr b \<and> holds b (xbit_image x)"
proof -
  have ok: "field_ok (unat (xBitLength x)) (key x)" "key x \<noteq> 0"
    and prod: "unat (depth x * xBitLength x) = unat (depth x) * unat (xBitLength x)"
    using assms by (auto simp: xbit_valid_def unat_word_ariths)
  have "verify x = Inr ()"
  proof (cases "xBitLength x = 64")
    case False
    have l: "unat (xBitLength x) \<le> 64" "unat (xBitLength x) > 0" using ok by (auto simp: field_ok_def)
    moreover have "unat (xBitLength x) \<noteq> unat (64::u64)" using False by (simp add: word_unat_eq_iff)
    ultimately have "unat (xBitLength x) < 64" by simp
    then show ?thesis using ok l unat_exp64[of "unat (xBitLength x)"]
      by (auto simp: verify_def word_less_nat_alt word_le_nat_alt field_ok_def fits_def)
  qed (use ok in \<open>simp add: verify_def\<close>)
  moreover have z: "holds (appendZeros (unat (depth x * xBitLength x)) BitIO_empty)
      (replicate (unat (depth x) * unat (xBitLength x)) False)"
    using appendZeros_spec[of BitIO_empty] prod by (simp add: holds_def)
  ultimately show ?thesis
    using append_holds[OF z ok(1)] by (simp add: makeXBit_def xbit_image_def)
qed

lemma getXBit_loop_image:
  assumes "0 < n" "n \<le> 64" "field_ok n k" "k \<noteq> 0" "ahead s (replicate (d * n) False @ val_bits n k)"
  shows "getXBit_loop n e s = Inr (\<lparr>depth = e + of_nat d, key = k, xBitLength = of_nat n\<rparr>, skip_bits (d * n + n) s)"
  using assms
proof (induction d arbitrary: e s)
  case 0
  then show ?case by (simp add: getXBit_loop.simps[of n e s] ahead_get)
next
  case (Suc d)
  have z: "field_ok n 0" using Suc.prems by (simp add: field_ok_def fits_def)
  have "ahead s (val_bits n 0 @ (replicate (d * n) False @ val_bits n k))"
    using Suc.prems(5) by (simp add: val_bits_0 replicate_add)
  then have "getBits n s = Inr (0, skip_bits n s)"
      "ahead (skip_bits n s) (replicate (d * n) False @ val_bits n k)"
    using ahead_get_append[OF _ z] by blast+
  then show ?case
    using Suc.IH[of "skip_bits n s" "e + 1"] Suc.prems
    by (simp add: getXBit_loop.simps[of n e s] add.assoc)
qed

lemma getXBit_image:
  assumes v: "xbit_valid x" and a: "ahead s (xbit_image x)"
  shows "getXBit (unat (xBitLength x)) s = Inr (x, skip_bits (length (xbit_image x)) s)"
  using getXBit_loop_image[of "unat (xBitLength x)" "key x" s "unat (depth x)" 0] assms
  by (simp add: getXBit_def xbit_valid_def xbit_image_def field_ok_def)

interpretation xbit: codec makeXBit "getXBit n" "xbit_valid_at n" xbit_image for n
  by unfold_locales (auto simp: xbit_valid_at_def makeXBit_holds getXBit_image)

subsection \<open>Bitcoin data\<close>

lemma push_header_ok: "n < 2 ^ 32 \<Longrightarrow> list_all (\<lambda>(n, v). field_ok n v) (push_header n)"
  by (auto simp: push_header_def unat_of_nat intro!: field_okI)

lemma bitcoinDataLength_header:
  assumes n: "0 < n" "n < 2 ^ 32" and a: "ahead s (fields_image (push_header n))"
  shows "bitcoinDataLength s = Inr (n, skip_bits (length (fields_image (push_header n))) s)"
proof -
  have u: "unat (of_nat n :: u64) = n" using n by (simp add: unat_of_nat)
  note ok = push_header_ok[OF n(2)]
  consider "n > 0xffff" | "n \<le> 0xffff" "n > 0xff" | "n \<le> 0xff" "n > 75" | "n \<le> 75" by linarith
  then show ?thesis
  proof cases
    case 4
    then have "getBits 8 s = Inr (of_nat n, skip_bits 8 s)" using a ok by (simp add: push_header_def ahead_get)
    moreover have "(of_nat n :: u64) \<noteq> 0" "\<not> 79 \<le> (of_nat n :: u64)" "(of_nat n :: u64) \<noteq> 76"
        "(of_nat n :: u64) \<noteq> 77" "(of_nat n :: u64) \<noteq> 78"
      using 4 n u by (auto simp: word_le_nat_alt)
    ultimately show ?thesis using 4 u by (simp add: push_header_def bitcoinDataLength_def)
  qed (use n ok a u in \<open>auto simp: push_header_def bitcoinDataLength_def ahead_append_iff ahead_get\<close>)
qed

lemma getBytes_image:
  assumes "ahead s (fields_image (map (\<lambda>b. (8, ucast b)) bs))"
  shows "getBytes (length bs) s = Inr (bs, skip_bits (8 * length bs) s)"
  using assms
proof (induction bs arbitrary: s)
  case (Cons b bs)
  have ok: "field_ok 8 (ucast b)" by (rule field_ok_byte)
  show ?case using Cons.IH[of "skip_bits 8 s"] Cons.prems ok
    by (auto simp: ahead_append_iff ahead_get)
qed simp

lemma makeBitcoin_vector_fields:
  "makeBitcoin_vector bs op = put_fields appendBits
     ((if op then [(8, 106)] else []) @ push_header (length bs) @ map (\<lambda>b. (8, ucast b)) bs) BitIO_empty"
proof -
  have loop: "foldE (\<lambda>i. appendBits (ucast i) 8) bs = put_fields appendBits (map (\<lambda>b. (8, ucast b)) bs)"
  proof (rule ext)
    show "foldE (\<lambda>i. appendBits (ucast i) 8) bs r = put_fields appendBits (map (\<lambda>b. (8, ucast b)) bs) r" for r
    proof (induction bs arbitrary: r)
      case (Cons b bs)
      then show ?case by (cases "appendBits (ucast b) 8 r") auto
    qed simp
  qed
  have app: "put_fields appendBits (fs @ gs) r = bindE (put_fields appendBits fs r) (put_fields appendBits gs)"
    for fs gs r by (simp add: put_fields_def foldE_append)
  have b: "bindE m Inr = m" for m :: "BitIO result" by (cases m) auto
  show ?thesis
    unfolding makeBitcoin_vector_def app push_header_def loop
    by (simp add: put_fields_def b bindE_assoc)
qed

lemma makeBitcoin_vector_holds:
  assumes "length bs < 2 ^ 32"
  shows "\<exists>b. makeBitcoin_vector bs op = Inr b \<and> holds b (data_image op bs)"
proof -
  have "field_ok 8 106" by (rule field_okI) auto
  then have "list_all (\<lambda>(n, v). field_ok n v)
      ((if op then [(8, 106)] else []) @ push_header (length bs) @ map (\<lambda>b. (8, ucast b)) bs)"
    using push_header_ok[OF assms] by (auto simp: list_all_iff field_ok_byte)
  from put_fields_holds[OF this holds_empty] show ?thesis
    unfolding makeBitcoin_vector_fields data_image_def append_Nil .
qed

lemma getBitcoinData_image:
  assumes "data_valid bs" "ahead s (data_image False bs)"
  shows "getBitcoinData s = Inr (bs, skip_bits (length (data_image False bs)) s)"
proof -
  let ?n = "length (fields_image (push_header (length bs)))"
  have a: "ahead s (fields_image (push_header (length bs)))"
      "ahead (skip_bits ?n s) (fields_image (map (\<lambda>b. (8, ucast b)) bs))"
    using assms(2) by (auto simp: data_image_def ahead_append_iff)
  have "8 * length bs = length (fields_image (map (\<lambda>b. (8, ucast b)) bs))"
    by (induction bs) auto
  then show ?thesis
    using bitcoinDataLength_header[OF _ _ a(1)] getBytes_image[OF a(2)] assms(1)
    by (simp add: getBitcoinData_def data_valid_def data_image_def)
qed

interpretation btc: codec "\<lambda>bs. makeBitcoin_vector bs False" getBitcoinData data_valid "data_image False"
  by unfold_locales (auto simp: data_valid_def makeBitcoin_vector_holds getBitcoinData_image)

interpretation btc_int: codec "\<lambda>i. makeBitcoin_int i False" getBitcoinDataHeader int_valid int_image
proof unfold_locales
  fix i assume i: "int_valid i"
  define w :: u64 where "w = (if i = 0 then 0 else of_int (i + 80))"
  have u: "uint w = (if i = 0 then 0 else i + 80)"
    using i unfolding w_def int_valid_def
    by (cases "i = 0") (simp_all add: uint_word_of_int take_bit_int_eq_self del: of_int_add)
  then have "unat w < 2 ^ 8" using i by (auto simp: int_valid_def unat_eq_nat_uint)
  then have ok: "field_ok 8 w" by (intro field_okI) auto
  have w': "of_int (if (if i > 0 then i + 80 else i) = -1 then 79 else (if i > 0 then i + 80 else i)) = w"
    using i by (auto simp: w_def int_valid_def)
  show "\<exists>b. makeBitcoin_int i False = Inr b \<and> holds b (int_image i)"
    using append_holds[OF holds_empty ok] i w'
    by (simp add: makeBitcoin_int_def checkValueRange_int_def int_valid_def int_image_def Let_def flip: w_def)
  fix s assume "ahead s (int_image i)"
  then have "getBits 8 s = Inr (w, skip_bits 8 s)" using ahead_get[OF _ ok] by (simp add: int_image_def w_def)
  moreover have "i \<noteq> 0 \<Longrightarrow> w \<noteq> 80 \<and> w \<ge> 79 \<and> w \<le> 96 \<and> w \<noteq> 0"
    using u i by (auto simp: int_valid_def word_le_def)
  ultimately show "getBitcoinDataHeader s = Inr (i, skip_bits (length (int_image i)) s)"
    using u by (cases "i = 0") (auto simp: getBitcoinDataHeader_def int_image_def w_def)
qed

lemma push_word_header:
  assumes "n < 2 ^ 32" "push_word n = (w, k)"
  shows "field_ok k w" "val_bits k w = fields_image (push_header n)"
proof -
  have ok: "list_all (\<lambda>(n, v). field_ok n v) (push_header n)" by (rule push_header_ok[OF assms(1)])
  have "field_ok k w \<and> val_bits k w = fields_image (push_header n)"
    using ok assms paired_field[of 8 "0x4e" 32 "of_nat n"] paired_field[of 8 "0x4d" 16 "of_nat n"]
      paired_field[of 8 "0x4c" 8 "of_nat n"]
    by (auto simp: push_word_def push_header_def split: if_splits)
  then show "field_ok k w" "val_bits k w = fields_image (push_header n)" by simp_all
qed

lemma makeBitcoin_stream_spec:
  assumes "bitio_inv s" "blength s = 8 * n" "n < 2 ^ 32"
  shows "\<exists>s'. makeBitcoin_stream op s = Inr s' \<and> bitio_inv s' \<and>
    to_bits s' = (if op then val_bits 8 106 else []) @ fields_image (push_header n) @ to_bits s"
proof -
  obtain w k where wk: "push_word n = (w, k)" by (cases "push_word n")
  obtain s1 where s1: "insertBits w k (movePositionToBeginning s) = Inr s1" "bitio_inv s1"
      "to_bits s1 = fields_image (push_header n) @ to_bits s"
    using insert_front[OF assms(1) push_word_header(1)[OF assms(3) wk]] push_word_header(2)[OF assms(3) wk]
    by auto
  obtain s2 where s2: "insertBits 106 8 (movePositionToBeginning s1) = Inr s2" "bitio_inv s2"
      "to_bits s2 = val_bits 8 106 @ to_bits s1"
    using insert_front[OF s1(2), of 8 106] by (auto simp: field_ok_def fits_def)
  have "makeBitcoin_stream op s = (if op then Inr s2 else Inr (movePositionToBeginning s1))"
    using s1(1) s2(1) wk assms(2,3)
    by (auto simp: makeBitcoin_stream_def getLength_def push_word_def Let_def split: if_splits)
  then show ?thesis using s1 s2 by (auto simp: movePositionToBeginning_def)
qed

lemma copyBitcoinData_image:
  assumes n: "0 < n" "n < 2 ^ 32" and a: "ahead s (fields_image (push_header n) @ bl)" "length bl = 8 * n"
  shows "\<exists>r. copyBitcoinData s = Inr (r, skip_bits (length (fields_image (push_header n)) + 8 * n) s) \<and>
    holds r bl"
proof -
  let ?s = "skip_bits (length (fields_image (push_header n))) s"
  have h: "ahead s (fields_image (push_header n))" "ahead ?s bl" using a by (auto simp: ahead_append_iff)
  obtain r where "copyBits (8 * n) ?s = Inr (r, skip_bits (8 * n) ?s)" "holds r bl"
    using copyBits_ahead[OF h(2)] a(2) by auto
  then show ?thesis
    using bitcoinDataLength_header[OF n h(1)] by (simp add: copyBitcoinData_def mult.commute)
qed

lemma checkIsBitcoinOpReturn_found:
  "ahead s (val_bits 8 106) \<Longrightarrow> checkIsBitcoinOpReturn s = Inr (True, skip_bits 8 s)"
  using ahead_get[of s 8 106] by (simp add: checkIsBitcoinOpReturn_def field_ok_def fits_def)

end
