(* ===== verification/BitStrings.thy ===== *)
theory BitStrings
  imports BitNumbers
begin

text \<open>
  The string formats of \<^verbatim>\<open>src/src/BitIO.cpp\<close>: two characters in 11 bits (Alpha), three in 16
  bits (3B40), nibbles (Hex), packed UTF-8, and the selection of the shortest of them by
  \<open>makeBestString\<close>. A \<^verbatim>\<open>std::string\<close> is a list of bytes, here a HOL \<open>string\<close>.
\<close>

unbundle bit_operations_syntax

subsection \<open>Characters\<close>

definition byte_of :: "char \<Rightarrow> u64" where
  "byte_of c = of_nat (of_char c)"

text \<open>Conversion of an integer to \<^verbatim>\<open>char\<close> by \<^verbatim>\<open>push_back\<close>: the low eight bits.\<close>

definition char_of_byte :: "u64 \<Rightarrow> char" where
  "char_of_byte w = char_of (unat w)"

text \<open>\<^verbatim>\<open>charSet[i]\<close> of a constant string: the terminating zero at its size, undefined beyond.\<close>

definition str_get :: "string \<Rightarrow> nat \<Rightarrow> char result" where
  "str_get cs i =
     (if i < length cs then Inr (cs ! i) else if i = length cs then Inr (CHR 0x00)
      else Inl UndefinedBehaviour)"

text \<open>\<^verbatim>\<open>tolower\<close> in the C locale: only the letters A to Z change.\<close>

definition tolower :: "char \<Rightarrow> char" where
  "tolower c = (if 65 \<le> (of_char c :: nat) \<and> (of_char c :: nat) \<le> 90 then char_of (of_char c + 32 :: nat) else c)"

definition BITIO_CHARSET_3B40 :: string where
  "BITIO_CHARSET_3B40 = ''0123456789abcdefghijklmnopqrstuvwxyz#$&.''"

definition BITIO_CHARSET_ALPHA :: string where
  "BITIO_CHARSET_ALPHA = ''0123456789abcdefghijklmnopqrstuvwxyz $%*+-./:''"

definition BITIO_CHARSET_HEX :: string where
  "BITIO_CHARSET_HEX = ''0123456789abcdef''"

definition getCharSetPos :: "char \<Rightarrow> string \<Rightarrow> nat result" where
  "getCharSetPos character charSet =
     (if character \<in> set charSet then Inr (length (takeWhile (\<lambda>c. c \<noteq> character) charSet))
      else invalidCharacter)"

definition stringLength :: "string \<Rightarrow> nat" where
  "stringLength message = length (filter (\<lambda>c. byte_of c AND 0xc0 \<noteq> 0x80) message)"

subsection \<open>Alpha\<close>

fun makeAlphaString_loop :: "string \<Rightarrow> nat \<Rightarrow> u64 \<Rightarrow> BitIO \<Rightarrow> (nat \<times> u64 \<times> BitIO) result" where
  "makeAlphaString_loop [] charI val result = Inr (charI, val, result)"
| "makeAlphaString_loop (c # cs) charI val result =
     bindE (getCharSetPos c BITIO_CHARSET_ALPHA) (\<lambda>p.
     let val = val * 45 + of_nat p in
     if charI mod 2 = 1
     then bindE (appendBits val 11 result) (\<lambda>result. makeAlphaString_loop cs (charI + 1) 0 result)
     else makeAlphaString_loop cs (charI + 1) val result)"

definition makeAlphaString :: "string \<Rightarrow> BitIO result" where
  "makeAlphaString message =
     bindE (makeAlphaString_loop message 0 0 BitIO_empty) (\<lambda>(charI, val, result).
     if charI mod 2 = 1 then appendBits val 6 result else Inr result)"

fun getAlphaString_loop :: "nat \<Rightarrow> BitIO \<Rightarrow> (string \<times> BitIO) result" where
  "getAlphaString_loop 0 s = Inr ([], s)"
| "getAlphaString_loop (Suc k) s =
     bindE (getBits 11 s) (\<lambda>(chars, s).
     bindE (str_get BITIO_CHARSET_ALPHA (unat chars div 45)) (\<lambda>c1.
     bindE (str_get BITIO_CHARSET_ALPHA (unat chars mod 45)) (\<lambda>c2.
     bindE (getAlphaString_loop k s) (\<lambda>(result, s). Inr (c1 # c2 # result, s)))))"

definition getAlphaString :: "nat \<Rightarrow> BitIO \<Rightarrow> (string \<times> BitIO) result" where
  "getAlphaString len s =
     bindE (getAlphaString_loop (len div 2) s) (\<lambda>(result, s).
     if len mod 2 = 1
     then bindE (getBits 6 s) (\<lambda>(v, s).
          bindE (str_get BITIO_CHARSET_ALPHA (unat v)) (\<lambda>c. Inr (result @ [c], s)))
     else Inr (result, s))"

subsection \<open>3B40\<close>

fun make3B40String_loop :: "string \<Rightarrow> nat \<Rightarrow> u64 \<Rightarrow> BitIO \<Rightarrow> (nat \<times> u64 \<times> BitIO) result" where
  "make3B40String_loop [] charI val result = Inr (charI, val, result)"
| "make3B40String_loop (c # cs) charI val result =
     bindE (getCharSetPos c BITIO_CHARSET_3B40) (\<lambda>p.
     let val = val * 40 + of_nat p in
     if charI mod 3 = 2
     then bindE (appendBits val 16 result) (\<lambda>result. make3B40String_loop cs (charI + 1) 0 result)
     else make3B40String_loop cs (charI + 1) val result)"

definition make3B40String :: "string \<Rightarrow> BitIO result" where
  "make3B40String message =
     bindE (make3B40String_loop message 0 0 BitIO_empty) (\<lambda>(charI, val, result).
     bindE (if charI mod 3 = 1 then appendBits val 5 result else Inr result) (\<lambda>result.
     if charI mod 3 = 2 then appendBits val 11 result else Inr result))"

fun get3B40String_loop :: "nat \<Rightarrow> BitIO \<Rightarrow> (string \<times> BitIO) result" where
  "get3B40String_loop 0 s = Inr ([], s)"
| "get3B40String_loop (Suc k) s =
     bindE (getBits 16 s) (\<lambda>(chars, s).
     bindE (str_get BITIO_CHARSET_3B40 (unat chars div 1600)) (\<lambda>c1.
     let chars = unat chars mod 1600 in
     bindE (str_get BITIO_CHARSET_3B40 (chars div 40)) (\<lambda>c2.
     bindE (str_get BITIO_CHARSET_3B40 (chars mod 40)) (\<lambda>c3.
     bindE (get3B40String_loop k s) (\<lambda>(result, s). Inr (c1 # c2 # c3 # result, s))))))"

definition get3B40String :: "nat \<Rightarrow> BitIO \<Rightarrow> (string \<times> BitIO) result" where
  "get3B40String len s =
     bindE (get3B40String_loop (len div 3) s) (\<lambda>(result, s).
     bindE (if len mod 3 = 1
            then bindE (getBits 5 s) (\<lambda>(v, s).
                 bindE (str_get BITIO_CHARSET_3B40 (unat v)) (\<lambda>c. Inr (result @ [c], s)))
            else Inr (result, s)) (\<lambda>(result, s).
     if len mod 3 = 2
     then bindE (getBits 11 s) (\<lambda>(chars, s).
          bindE (str_get BITIO_CHARSET_3B40 (unat chars div 40)) (\<lambda>c1.
          bindE (str_get BITIO_CHARSET_3B40 (unat chars mod 40)) (\<lambda>c2. Inr (result @ [c1, c2], s))))
     else Inr (result, s)))"

subsection \<open>Hex\<close>

definition makeHexString :: "string \<Rightarrow> BitIO result" where
  "makeHexString message =
     foldE (\<lambda>c result.
       bindE (getCharSetPos (tolower c) BITIO_CHARSET_HEX) (\<lambda>p. appendBits (of_nat p) 4 result))
     message BitIO_empty"

fun getHexString :: "nat \<Rightarrow> BitIO \<Rightarrow> (string \<times> BitIO) result" where
  "getHexString 0 s = Inr ([], s)"
| "getHexString (Suc k) s =
     bindE (getBits 4 s) (\<lambda>(v, s).
     bindE (str_get BITIO_CHARSET_HEX (unat v)) (\<lambda>c.
     bindE (getHexString k s) (\<lambda>(result, s). Inr (c # result, s))))"

subsection \<open>UTF-8\<close>

text \<open>
  One iteration of the loop for a byte; the local variables are \<open>remainingBytes\<close>, \<open>bitLength\<close>,
  \<open>block\<close> and the result. \<open>bitLength\<close> and \<open>block\<close> are only read when a lead byte has set them.
\<close>

definition makeUTF8String_byte :: "char \<Rightarrow> nat \<times> nat \<times> u64 \<times> BitIO \<Rightarrow> (nat \<times> nat \<times> u64 \<times> BitIO) result" where
  "makeUTF8String_byte c = (\<lambda>(remainingBytes, bitLength, block, result).
     let byte = byte_of c in
     if byte AND 0x80 = 0 then
       (if remainingBytes \<noteq> 0 then invalidCharacter
        else bindE (appendBits byte 8 result) (\<lambda>result. Inr (remainingBytes, bitLength, block, result)))
     else if remainingBytes = 0 then
       (if byte < 0xdf then Inr (2, 13, byte AND 0x7f, result)
        else if byte < 0xef then Inr (3, 19, byte AND 0x7f, result)
        else if byte < 0xf7 then Inr (4, 24, (byte AND 0x7) OR 0x38, result)
        else invalidCharacter)
     else
       let remainingBytes = remainingBytes - 1;
           block = push_bit 6 block OR (byte AND 0x3f)
       in if remainingBytes = 1
          then bindE (appendBits block bitLength result) (\<lambda>result. Inr (0, bitLength, block, result))
          else Inr (remainingBytes, bitLength, block, result))"

definition makeUTF8String :: "string \<Rightarrow> BitIO result" where
  "makeUTF8String message =
     bindE (foldE makeUTF8String_byte message (0, 0, 0, BitIO_empty)) (\<lambda>(_, _, _, result). Inr result)"

text \<open>One code point: each continuation is \<open>0x80 | getBits(6)\<close>.\<close>

fun getUTF8_continuations :: "nat \<Rightarrow> BitIO \<Rightarrow> (string \<times> BitIO) result" where
  "getUTF8_continuations 0 s = Inr ([], s)"
| "getUTF8_continuations (Suc k) s =
     bindE (getBits 6 s) (\<lambda>(v, s).
     bindE (getUTF8_continuations k s) (\<lambda>(cs, s). Inr (char_of_byte (0x80 OR v) # cs, s)))"

definition getUTF8_char :: "BitIO \<Rightarrow> (string \<times> BitIO) result" where
  "getUTF8_char s =
     bindE (getBits 1 s) (\<lambda>(b, s).
     if b = 0 then bindE (getBits 7 s) (\<lambda>(v, s). Inr ([char_of_byte v], s))
     else bindE (getBits 1 s) (\<lambda>(b, s).
     if b = 0 then
       bindE (getBits 5 s) (\<lambda>(v, s).
       bindE (getUTF8_continuations 1 s) (\<lambda>(cs, s). Inr (char_of_byte (0xc0 OR v) # cs, s)))
     else bindE (getBits 1 s) (\<lambda>(b, s).
     if b = 0 then
       bindE (getBits 4 s) (\<lambda>(v, s).
       bindE (getUTF8_continuations 2 s) (\<lambda>(cs, s). Inr (char_of_byte (0xe0 OR v) # cs, s)))
     else
       bindE (getBits 3 s) (\<lambda>(v, s).
       bindE (getUTF8_continuations 3 s) (\<lambda>(cs, s). Inr (char_of_byte (0xf0 OR v) # cs, s))))))"

fun getUTF8String :: "nat \<Rightarrow> BitIO \<Rightarrow> (string \<times> BitIO) result" where
  "getUTF8String 0 s = Inr ([], s)"
| "getUTF8String (Suc k) s =
     bindE (getUTF8_char s) (\<lambda>(c, s).
     bindE (getUTF8String k s) (\<lambda>(cs, s). Inr (c @ cs, s)))"

subsection \<open>The shortest encoding\<close>

record stringHeaderOption =
  header :: xBitValue
  encoder :: nat

abbreviation (input) BITIO_ENCODE_ALPHA :: nat where "BITIO_ENCODE_ALPHA \<equiv> 0"
abbreviation (input) BITIO_ENCODE_UTF8 :: nat where "BITIO_ENCODE_UTF8 \<equiv> 1"
abbreviation (input) BITIO_ENCODE_HEX :: nat where "BITIO_ENCODE_HEX \<equiv> 2"
abbreviation (input) BITIO_ENCODE_3B40 :: nat where "BITIO_ENCODE_3B40 \<equiv> 3"

definition defaultHeaderOptions :: "stringHeaderOption list" where
  "defaultHeaderOptions =
     [\<lparr>header = \<lparr>depth = 0, key = 1, xBitLength = 2\<rparr>, encoder = 0\<rparr>,
      \<lparr>header = \<lparr>depth = 0, key = 2, xBitLength = 2\<rparr>, encoder = 3\<rparr>,
      \<lparr>header = \<lparr>depth = 0, key = 3, xBitLength = 2\<rparr>, encoder = 1\<rparr>,
      \<lparr>header = \<lparr>depth = 1, key = 1, xBitLength = 2\<rparr>, encoder = 2\<rparr>]"

text \<open>The \<^verbatim>\<open>switch\<close> over the encoder; \<open>None\<close> is its default case.\<close>

definition encodeWith :: "nat \<Rightarrow> string \<Rightarrow> BitIO result option" where
  "encodeWith enc message =
     (if enc = BITIO_ENCODE_ALPHA then Some (makeAlphaString message)
      else if enc = BITIO_ENCODE_UTF8 then Some (makeUTF8String message)
      else if enc = BITIO_ENCODE_HEX then Some (makeHexString message)
      else if enc = BITIO_ENCODE_3B40 then Some (make3B40String message)
      else None)"

text \<open>
  The \<^verbatim>\<open>try\<close> block for one option: \<open>Inr None\<close> when an exception was caught, otherwise the result
  with the flag \<open>invalidEncoderDetected\<close>.
\<close>

definition tryHeaderOption :: "string \<Rightarrow> nat \<Rightarrow> nat \<Rightarrow> stringHeaderOption \<Rightarrow> (BitIO \<times> bool) option result" where
  "tryHeaderOption message characterCount lengthBits opt =
     catchE
       (bindE (makeXBit (header opt)) (\<lambda>result.
        bindE (appendBits (of_nat characterCount) lengthBits result) (\<lambda>result.
        case encodeWith (encoder opt) message of
          None \<Rightarrow> bindE (appendBits_stream BitIO_empty result) (\<lambda>result. Inr (Some (result, True)))
        | Some temp \<Rightarrow>
            bindE temp (\<lambda>temp.
            bindE (appendBits_stream temp result) (\<lambda>result. Inr (Some (result, False)))))))
       (\<lambda>_. Inr None)"

text \<open>\<open>best\<close> is \<open>None\<close> while \<open>bestLength\<close> is \<^verbatim>\<open>SIZE_MAX\<close>.\<close>

definition keepBest :: "BitIO \<Rightarrow> BitIO option \<Rightarrow> BitIO option" where
  "keepBest result best =
     (case best of None \<Rightarrow> Some result
      | Some b \<Rightarrow> if getLength result < getLength b then Some result else Some b)"

fun makeBestString_loop :: "string \<Rightarrow> nat \<Rightarrow> nat \<Rightarrow> stringHeaderOption list \<Rightarrow> BitIO option \<Rightarrow> BitIO option result" where
  "makeBestString_loop message characterCount lengthBits [] best = Inr best"
| "makeBestString_loop message characterCount lengthBits (opt # opts) best =
     bindE (tryHeaderOption message characterCount lengthBits opt) (\<lambda>r.
     case r of
       None \<Rightarrow> makeBestString_loop message characterCount lengthBits opts best
     | Some (result, invalidEncoderDetected) \<Rightarrow>
         (if invalidEncoderDetected then invalidEncoder
          else makeBestString_loop message characterCount lengthBits opts (keepBest result best)))"

definition makeBestString :: "string \<Rightarrow> nat \<Rightarrow> stringHeaderOption list \<Rightarrow> BitIO result" where
  "makeBestString message lengthBits headerOptions =
     (let characterCount = stringLength message in
      bindE (checkValueSize (of_nat characterCount) lengthBits) (\<lambda>_.
      bindE (makeBestString_loop message characterCount lengthBits headerOptions None) (\<lambda>best.
      case best of None \<Rightarrow> invalidCharacter | Some b \<Rightarrow> Inr b)))"

definition decodeWith :: "nat \<Rightarrow> nat \<Rightarrow> BitIO \<Rightarrow> (string \<times> BitIO) result" where
  "decodeWith enc len s =
     (if enc = BITIO_ENCODE_ALPHA then getAlphaString len s
      else if enc = BITIO_ENCODE_UTF8 then getUTF8String len s
      else if enc = BITIO_ENCODE_HEX then getHexString len s
      else if enc = BITIO_ENCODE_3B40 then get3B40String len s
      else invalidEncoder)"

text \<open>\<^verbatim>\<open>headerOptions.front()\<close> of an empty vector is undefined.\<close>

definition getBestString :: "nat \<Rightarrow> stringHeaderOption list \<Rightarrow> BitIO \<Rightarrow> (string \<times> BitIO) result" where
  "getBestString lengthBits headerOptions s =
     (case headerOptions of
        [] \<Rightarrow> Inl UndefinedBehaviour
      | front # _ \<Rightarrow>
          bindE (getXBit (unat (xBitLength (header front))) s) (\<lambda>(hdr, s).
          bindE (getBits lengthBits s) (\<lambda>(len, s).
          case List.find (\<lambda>opt. xBitValue_eq (header opt) hdr) headerOptions of
            None \<Rightarrow> invalidEncoder
          | Some opt \<Rightarrow> decodeWith (encoder opt) (unat len) s)))"

subsection \<open>The formats\<close>

text \<open>
  The formats: the positions of the characters grouped by two or three, each group one number.
\<close>

definition char_pos :: "string \<Rightarrow> char \<Rightarrow> nat" where
  "char_pos charSet c = length (takeWhile (\<lambda>x. x \<noteq> c) charSet)"

fun alpha_fields :: "nat list \<Rightarrow> (nat \<times> u64) list" where
  "alpha_fields [] = []"
| "alpha_fields [a] = [(6, of_nat a)]"
| "alpha_fields (a # b # r) = (11, of_nat (a * 45 + b)) # alpha_fields r"

fun tb40_fields :: "nat list \<Rightarrow> (nat \<times> u64) list" where
  "tb40_fields [] = []"
| "tb40_fields [a] = [(5, of_nat a)]"
| "tb40_fields [a, b] = [(11, of_nat (a * 40 + b))]"
| "tb40_fields (a # b # c # r) = (16, of_nat ((a * 40 + b) * 40 + c)) # tb40_fields r"

abbreviation "apos \<equiv> char_pos BITIO_CHARSET_ALPHA"

definition alpha_chars :: "string \<Rightarrow> bool" where
  "alpha_chars m \<longleftrightarrow> set m \<subseteq> set BITIO_CHARSET_ALPHA"

definition alpha_image :: "string \<Rightarrow> bool list" where
  "alpha_image m = fields_image (alpha_fields (map apos m))"

abbreviation "tpos \<equiv> char_pos BITIO_CHARSET_3B40"

text \<open>A single character at the end has only five bits: it must be one of the first 32.\<close>

definition tb40_chars :: "string \<Rightarrow> bool" where
  "tb40_chars m \<longleftrightarrow> set m \<subseteq> set BITIO_CHARSET_3B40 \<and> (length m mod 3 = 1 \<longrightarrow> tpos (last m) < 32)"

definition tb40_image :: "string \<Rightarrow> bool list" where
  "tb40_image m = fields_image (tb40_fields (map tpos m))"

abbreviation "hpos \<equiv> char_pos BITIO_CHARSET_HEX"

definition hex_chars :: "string \<Rightarrow> bool" where
  "hex_chars m \<longleftrightarrow> tolower ` set m \<subseteq> set BITIO_CHARSET_HEX"

definition hex_image :: "string \<Rightarrow> bool list" where
  "hex_image m = fields_image (map (\<lambda>c. (4, of_nat (hpos (tolower c)))) m)"

text \<open>
  The characters the packed form carries: those whose lead byte is inside the ranges the encoder
  tests for, so not the lead bytes 0xdf, 0xef and 0xf7, which the tests put in the next class.
\<close>

definition in_range :: "nat \<Rightarrow> nat \<Rightarrow> char \<Rightarrow> bool" where
  "in_range lo hi c \<longleftrightarrow> lo \<le> (of_char c :: nat) \<and> (of_char c :: nat) < hi"

fun utf8_char :: "string \<Rightarrow> bool" where
  "utf8_char [a] = in_range 0 0x80 a"
| "utf8_char [a, b] = (in_range 0xc0 0xdf a \<and> in_range 0x80 0xc0 b)"
| "utf8_char [a, b, c] = (in_range 0xe0 0xef a \<and> in_range 0x80 0xc0 b \<and> in_range 0x80 0xc0 c)"
| "utf8_char [a, b, c, d] =
     (in_range 0xf0 0xf7 a \<and> in_range 0x80 0xc0 b \<and> in_range 0x80 0xc0 c \<and> in_range 0x80 0xc0 d)"
| "utf8_char _ = False"

definition cont_field :: "char \<Rightarrow> nat \<times> u64" where
  "cont_field c = (6, byte_of c AND 0x3f)"

definition utf8_fields :: "string \<Rightarrow> (nat \<times> u64) list" where
  "utf8_fields cs = (case cs of
     [] \<Rightarrow> []
   | a # r \<Rightarrow>
       (case length r of
          0 \<Rightarrow> [(1, 0), (7, byte_of a)]
        | Suc 0 \<Rightarrow> [(1, 1), (1, 0), (5, byte_of a AND 0x1f)]
        | Suc (Suc 0) \<Rightarrow> [(1, 1), (1, 1), (1, 0), (4, byte_of a AND 0xf)]
        | _ \<Rightarrow> [(1, 1), (1, 1), (1, 1), (3, byte_of a AND 0x7)]) @ map cont_field r)"

definition utf8_image :: "string list \<Rightarrow> bool list" where
  "utf8_image cs = concat (map (\<lambda>c. fields_image (utf8_fields c)) cs)"

subsection \<open>Positions in a character set\<close>

lemma char_pos_props:
  "c \<in> set cs \<Longrightarrow> getCharSetPos c cs = Inr (char_pos cs c) \<and> char_pos cs c < length cs \<and> cs ! char_pos cs c = c"
proof -
  assume c: "c \<in> set cs"
  have lt: "char_pos cs c < length cs"
    using c takeWhile_eq_all_conv[of "\<lambda>x. x \<noteq> c" cs] length_takeWhile_le[of "\<lambda>x. x \<noteq> c" cs]
    unfolding char_pos_def by (metis le_neq_implies_less takeWhile_eq_take take_all_iff nle_le)
  moreover have "cs ! char_pos cs c = c"
    using nth_length_takeWhile[of "\<lambda>x. x \<noteq> c" cs] lt by (simp add: char_pos_def)
  ultimately show ?thesis using c by (simp add: getCharSetPos_def char_pos_def)
qed

lemma str_get_pos: "c \<in> set cs \<Longrightarrow> str_get cs (char_pos cs c) = Inr c"
  using char_pos_props[of c cs] by (simp add: str_get_def)

subsection \<open>Alpha\<close>

lemma apos_less: "c \<in> set BITIO_CHARSET_ALPHA \<Longrightarrow> apos c < 45"
  using char_pos_props[of c BITIO_CHARSET_ALPHA] by (simp add: BITIO_CHARSET_ALPHA_def)

lemma alpha_fields_ok:
  "list_all (\<lambda>a. a < 45) ps \<Longrightarrow> list_all (\<lambda>(n, v). field_ok n v) (alpha_fields ps)"
proof (induction ps rule: alpha_fields.induct)
  case (2 a)
  then have "unat (of_nat a :: u64) < 2 ^ 6" using unat_of_nat64[of a] by auto
  then show ?case by (simp add: field_okI)
next
  case (3 a b r)
  then have "a * 45 + b < 2 ^ 11" by auto
  then have "unat (of_nat (a * 45 + b) :: u64) < 2 ^ 11" using unat_of_nat64[of "a * 45 + b"] by auto
  then show ?case using 3 by (simp add: field_okI del: of_nat_add of_nat_mult)
qed simp

lemma makeAlphaString_loop_fields:
  assumes "alpha_chars m" "charI mod 2 = 0"
  shows "bindE (makeAlphaString_loop m charI 0 s) (\<lambda>(charI, val, result).
      if charI mod 2 = 1 then appendBits val 6 result else Inr result) =
    put_fields appendBits (alpha_fields (map apos m)) s"
  using assms
proof (induction "map apos m" arbitrary: m charI s rule: alpha_fields.induct)
  case (2 a)
  then obtain c where "m = [c]" "c \<in> set BITIO_CHARSET_ALPHA" by (auto simp: alpha_chars_def map_eq_Cons_conv)
  then show ?case using 2 char_pos_props[of c BITIO_CHARSET_ALPHA]
    by (auto simp: mod_Suc put_fields_def)
next
  case (3 a b r)
  then obtain c d m' where m: "m = c # d # m'" "c \<in> set BITIO_CHARSET_ALPHA" "d \<in> set BITIO_CHARSET_ALPHA"
      "alpha_chars m'" "r = map apos m'"
    by (auto simp: alpha_chars_def map_eq_Cons_conv)
  have "(charI + 2) mod 2 = 0" "Suc charI mod 2 = 1" using 3 by (auto simp: mod_Suc)
  note IH = 3(1)[OF m(5,4) this(1)]
  show ?case
    using m 3 char_pos_props[of c BITIO_CHARSET_ALPHA] char_pos_props[of d BITIO_CHARSET_ALPHA] IH
    by (cases "appendBits (of_nat (apos c) * 45 + of_nat (apos d)) 11 s")
      (auto simp: mod_Suc bindE_assoc put_fields_def)
qed simp

lemma getAlphaString_fields:
  assumes "alpha_chars m" "ahead s (fields_image (alpha_fields (map apos m)))"
  shows "getAlphaString (length m) s = Inr (m, skip_bits (length (fields_image (alpha_fields (map apos m)))) s)"
  using assms
proof (induction "map apos m" arbitrary: m s rule: alpha_fields.induct)
  case (2 a)
  then obtain c where c: "m = [c]" "c \<in> set BITIO_CHARSET_ALPHA" by (auto simp: alpha_chars_def map_eq_Cons_conv)
  have "unat (of_nat (apos c) :: u64) = apos c" using unat_of_nat64 apos_less[OF c(2)] by auto
  moreover have "field_ok 6 (of_nat (apos c))"
    using alpha_fields_ok[of "[apos c]"] apos_less[OF c(2)] by simp
  ultimately show ?case using 2 c str_get_pos[OF c(2)]
    by (simp add: getAlphaString_def ahead_get)
next
  case (3 a b r)
  then obtain c d m' where m: "m = c # d # m'" "c \<in> set BITIO_CHARSET_ALPHA" "d \<in> set BITIO_CHARSET_ALPHA"
      "alpha_chars m'" "r = map apos m'"
    by (auto simp: alpha_chars_def map_eq_Cons_conv)
  define n where "n = apos c * 45 + apos d"
  have lt: "apos c < 45" "apos d < 45" using apos_less m by auto
  have n: "unat (of_nat n :: u64) = n" "n div 45 = apos c" "n mod 45 = apos d"
    using lt unat_of_nat64[of n] by (auto simp: n_def)
  have ok: "field_ok 11 (of_nat n)" using alpha_fields_ok[of "[apos c, apos d]"] lt by (simp add: n_def)
  have img: "ahead s (val_bits 11 (of_nat n) @ fields_image (alpha_fields (map apos m')))"
    using 3 m by (simp add: n_def)
  note g = ahead_get_append[OF img ok]
  note IH = 3(1)[OF m(5,4) g(2)]
  show ?case
    using IH g(1) n m str_get_pos[OF m(2)] str_get_pos[OF m(3)]
    by (auto simp: getAlphaString_def res_simps n_def[symmetric] split: if_splits)
qed (simp add: getAlphaString_def)

lemma makeAlphaString_holds:
  assumes "alpha_chars m" shows "\<exists>b. makeAlphaString m = Inr b \<and> holds b (alpha_image m)"
proof -
  have "list_all (\<lambda>a. a < 45) (map apos m)"
    using assms apos_less by (auto simp: alpha_chars_def list_all_iff)
  from put_fields_holds[OF alpha_fields_ok[OF this] holds_empty] show ?thesis
    using makeAlphaString_loop_fields[OF assms, of 0 BitIO_empty]
    by (simp add: makeAlphaString_def alpha_image_def)
qed

interpretation alpha: codec makeAlphaString "getAlphaString n" "\<lambda>m. alpha_chars m \<and> length m = n" alpha_image for n
  by unfold_locales (use makeAlphaString_holds getAlphaString_fields in \<open>auto simp flip: alpha_image_def\<close>)

subsection \<open>3B40\<close>

lemma tpos_less: "c \<in> set BITIO_CHARSET_3B40 \<Longrightarrow> tpos c < 40"
  using char_pos_props[of c BITIO_CHARSET_3B40] by (simp add: BITIO_CHARSET_3B40_def)

lemma tb40_fields_ok:
  "list_all (\<lambda>a. a < 40) ps \<Longrightarrow> length ps mod 3 = 1 \<longrightarrow> last ps < 32 \<Longrightarrow>
     list_all (\<lambda>(n, v). field_ok n v) (tb40_fields ps)"
proof (induction ps rule: tb40_fields.induct)
  case (2 a)
  then have "unat (of_nat a :: u64) < 2 ^ 5" using unat_of_nat64[of a] by auto
  then show ?case by (simp add: field_okI)
next
  case (3 a b)
  then have "a * 40 + b < 2 ^ 11" by auto
  then have "unat (of_nat (a * 40 + b) :: u64) < 2 ^ 11" using unat_of_nat64[of "a * 40 + b"] by auto
  then show ?case by (simp add: field_okI del: of_nat_add of_nat_mult)
next
  case (4 a b c r)
  then have "(a * 40 + b) * 40 + c < 2 ^ 16" by auto
  then have "unat (of_nat ((a * 40 + b) * 40 + c) :: u64) < 2 ^ 16"
    using unat_of_nat64[of "(a * 40 + b) * 40 + c"] by auto
  then have "field_ok 16 (of_nat ((a * 40 + b) * 40 + c))" by (simp add: field_okI del: of_nat_add of_nat_mult)
  then show ?case using 4 by (auto simp: split: if_splits)
qed simp

lemma make3B40String_loop_fields:
  assumes "set m \<subseteq> set BITIO_CHARSET_3B40" "charI mod 3 = 0"
  shows "bindE (make3B40String_loop m charI 0 s) (\<lambda>(charI, val, result).
      bindE (if charI mod 3 = 1 then appendBits val 5 result else Inr result) (\<lambda>result.
      if charI mod 3 = 2 then appendBits val 11 result else Inr result)) =
    put_fields appendBits (tb40_fields (map tpos m)) s"
  using assms
proof (induction "map tpos m" arbitrary: m charI s rule: tb40_fields.induct)
  case (2 a)
  then obtain c where "m = [c]" "c \<in> set BITIO_CHARSET_3B40" by (auto simp: map_eq_Cons_conv)
  then show ?case using 2 char_pos_props[of c BITIO_CHARSET_3B40]
    by (auto simp: mod_Suc put_fields_def)
next
  case (3 a b)
  then obtain c d where "m = [c, d]" "c \<in> set BITIO_CHARSET_3B40" "d \<in> set BITIO_CHARSET_3B40"
    by (auto simp: map_eq_Cons_conv)
  then show ?case using 3 char_pos_props[of c BITIO_CHARSET_3B40] char_pos_props[of d BITIO_CHARSET_3B40]
    by (auto simp: mod_Suc put_fields_def)
next
  case (4 a b c' r)
  then obtain c d e m' where m: "m = c # d # e # m'" "c \<in> set BITIO_CHARSET_3B40" "d \<in> set BITIO_CHARSET_3B40"
      "e \<in> set BITIO_CHARSET_3B40" "set m' \<subseteq> set BITIO_CHARSET_3B40" "r = map tpos m'"
    by (auto simp: map_eq_Cons_conv)
  have idx: "charI mod 3 = 0" "Suc charI mod 3 = 1" "Suc (Suc charI) mod 3 = 2" "Suc (Suc (Suc charI)) mod 3 = 0"
    using 4 by (simp_all add: mod_Suc)
  note IH = 4(1)[OF m(6,5) idx(4)]
  let ?v = "(of_nat (tpos c) * 40 + of_nat (tpos d)) * 40 + of_nat (tpos e)"
  have "make3B40String_loop m charI 0 s = bindE (appendBits ?v 16 s) (make3B40String_loop m' (Suc (Suc (Suc charI))) 0)"
    using m(1-4) idx char_pos_props[of _ BITIO_CHARSET_3B40] by simp
  then show ?case using IH m(1) by (simp add: bindE_assoc)
qed simp

lemma get3B40String_fields:
  assumes "tb40_chars m" "ahead s (fields_image (tb40_fields (map tpos m)))"
  shows "get3B40String (length m) s = Inr (m, skip_bits (length (fields_image (tb40_fields (map tpos m)))) s)"
  using assms
proof (induction "map tpos m" arbitrary: m s rule: tb40_fields.induct)
  case (2 a)
  then obtain c where c: "m = [c]" "c \<in> set BITIO_CHARSET_3B40" "tpos c < 32"
    by (auto simp: tb40_chars_def map_eq_Cons_conv)
  have "unat (of_nat (tpos c) :: u64) = tpos c" using unat_of_nat64 c(3) by auto
  moreover have "field_ok 5 (of_nat (tpos c))" using tb40_fields_ok[of "[tpos c]"] c(3) by simp
  ultimately show ?case using 2 c str_get_pos[OF c(2)]
    by (simp add: get3B40String_def ahead_get)
next
  case (3 a b)
  then obtain c d where c: "m = [c, d]" "c \<in> set BITIO_CHARSET_3B40" "d \<in> set BITIO_CHARSET_3B40"
    by (auto simp: tb40_chars_def map_eq_Cons_conv)
  define n where "n = tpos c * 40 + tpos d"
  have lt: "tpos c < 40" "tpos d < 40" using tpos_less c by auto
  have n: "unat (of_nat n :: u64) = n" "n div 40 = tpos c" "n mod 40 = tpos d"
    using lt unat_of_nat64[of n] by (auto simp: n_def)
  have "field_ok 11 (of_nat n)" using tb40_fields_ok[of "[tpos c, tpos d]"] lt by (simp add: n_def)
  moreover have "ahead s (val_bits 11 (of_nat n))" using 3 c by (simp add: n_def)
  ultimately show ?case using c n str_get_pos[OF c(2)] str_get_pos[OF c(3)]
    by (simp add: get3B40String_def ahead_get)
next
  case (4 a b c' r)
  then obtain c d e m' where m: "m = c # d # e # m'" "c \<in> set BITIO_CHARSET_3B40" "d \<in> set BITIO_CHARSET_3B40"
      "e \<in> set BITIO_CHARSET_3B40" "tb40_chars m'" "r = map tpos m'"
    by (auto simp: tb40_chars_def map_eq_Cons_conv split: if_splits)
  define n where "n = (tpos c * 40 + tpos d) * 40 + tpos e"
  have lt: "tpos c < 40" "tpos d < 40" "tpos e < 40" using tpos_less m by auto
  have "n = tpos d * 40 + tpos e + 1600 * tpos c" "tpos d * 40 + tpos e < 1600" using lt by (auto simp: n_def)
  then have "n div 1600 = tpos c" "n mod 1600 = tpos d * 40 + tpos e" by simp_all
  then have n: "unat (of_nat n :: u64) = n" "n div 1600 = tpos c" "n mod 1600 div 40 = tpos d" "n mod 1600 mod 40 = tpos e"
    using lt unat_of_nat64[of n] by (auto simp: n_def)
  have ok: "field_ok 16 (of_nat n)" using tb40_fields_ok[of "[tpos c, tpos d, tpos e]"] lt by (simp add: n_def)
  have img: "ahead s (val_bits 16 (of_nat n) @ fields_image (tb40_fields (map tpos m')))"
    using 4 m by (simp add: n_def)
  note g = ahead_get_append[OF img ok]
  note IH = 4(1)[OF m(6,5) g(2)]
  have len: "length m div 3 = Suc (length m' div 3)" "length m mod 3 = length m' mod 3" using m(1) by simp_all
  show ?case
    unfolding get3B40String_def len
    using IH g(1) n m str_get_pos[OF m(2)] str_get_pos[OF m(3)] str_get_pos[OF m(4)]
    by (auto simp: get3B40String_def res_simps n_def[symmetric] Let_def split: if_splits)
qed (simp add: get3B40String_def)

lemma make3B40String_holds:
  assumes "tb40_chars m" shows "\<exists>b. make3B40String m = Inr b \<and> holds b (tb40_image m)"
proof -
  have a: "list_all (\<lambda>a. a < 40) (map tpos m)"
    using assms tpos_less by (auto simp: tb40_chars_def list_all_iff)
  have b: "length (map tpos m) mod 3 = 1 \<longrightarrow> last (map tpos m) < 32"
    using assms by (cases "m = []") (auto simp: tb40_chars_def last_map)
  from put_fields_holds[OF tb40_fields_ok[OF a b] holds_empty] show ?thesis
    using make3B40String_loop_fields[of m 0 BitIO_empty] assms
    by (simp add: make3B40String_def tb40_image_def tb40_chars_def)
qed

interpretation tb40: codec make3B40String "get3B40String n" "\<lambda>m. tb40_chars m \<and> length m = n" tb40_image for n
  by unfold_locales (use make3B40String_holds get3B40String_fields in \<open>auto simp flip: tb40_image_def\<close>)

text \<open>A finding: a string of characters of the set that the encoder rejects.\<close>

lemma make3B40String_tail_rejected:
  assumes "c \<in> set BITIO_CHARSET_3B40" "32 \<le> tpos c"
  shows "make3B40String [c] = Inl (OutOfRange ''value must be smaller than length bits'')"
proof -
  have "unat (of_nat (tpos c) :: u64) = tpos c" using tpos_less[OF assms(1)] by (intro unat_of_nat64) simp
  then have "checkValueSize (of_nat (tpos c)) 5 = Inl (OutOfRange ''value must be smaller than length bits'')"
    using assms(2) by (intro checkValueSize_too_big) (auto simp: fits_def)
  then show ?thesis
    using char_pos_props[OF assms(1)] by (simp add: make3B40String_def appendBits_def)
qed

subsection \<open>Hex\<close>

lemma hpos_ok: "c \<in> set BITIO_CHARSET_HEX \<Longrightarrow> hpos c < 16 \<and> field_ok 4 (of_nat (hpos c)) \<and>
    unat (of_nat (hpos c) :: u64) = hpos c"
  using char_pos_props[of c BITIO_CHARSET_HEX] unat_of_nat64[of "hpos c"]
  by (auto simp: BITIO_CHARSET_HEX_def intro!: field_okI)

lemma makeHexString_holds:
  assumes "hex_chars m" shows "\<exists>b. makeHexString m = Inr b \<and> holds b (hex_image m)"
proof -
  let ?fs = "map (\<lambda>c. (4, of_nat (hpos (tolower c)))) m"
  have "foldE (\<lambda>c result. bindE (getCharSetPos (tolower c) BITIO_CHARSET_HEX) (\<lambda>p. appendBits (of_nat p) 4 result)) m s =
      put_fields appendBits ?fs s" for s
    using assms
  proof (induction m arbitrary: s)
    case (Cons c m)
    then show ?case using char_pos_props[of "tolower c" BITIO_CHARSET_HEX]
      by (cases "appendBits (of_nat (hpos (tolower c))) 4 s") (auto simp: hex_chars_def)
  qed simp
  moreover have "list_all (\<lambda>(n, v). field_ok n v) ?fs"
    using assms hpos_ok by (auto simp: hex_chars_def list_all_iff)
  ultimately show ?thesis
    using put_fields_holds[OF _ holds_empty, of ?fs] by (simp add: makeHexString_def hex_image_def)
qed

lemma getHexString_image:
  "hex_chars m \<Longrightarrow> ahead s (hex_image m) \<Longrightarrow>
     getHexString (length m) s = Inr (map tolower m, skip_bits (length (hex_image m)) s)"
proof (induction m arbitrary: s)
  case (Cons c m)
  have c: "tolower c \<in> set BITIO_CHARSET_HEX" "hex_chars m" using Cons.prems by (auto simp: hex_chars_def)
  have "ahead s (val_bits 4 (of_nat (hpos (tolower c))) @ hex_image m)" using Cons.prems by (simp add: hex_image_def)
  then have "getBits 4 s = Inr (of_nat (hpos (tolower c)), skip_bits 4 s)" "ahead (skip_bits 4 s) (hex_image m)"
    using ahead_get_append hpos_ok[OF c(1)] by blast+
  then show ?case using Cons.IH[OF c(2)] hpos_ok[OF c(1)] str_get_pos[OF c(1)]
    by (simp add: hex_image_def)
qed (simp add: hex_image_def)

text \<open>Upper-case digits are read back in lower case, so only lower-case strings are a codec.\<close>

interpretation hex: codec makeHexString "getHexString n"
    "\<lambda>m. hex_chars m \<and> map tolower m = m \<and> length m = n" hex_image for n
  by unfold_locales (use makeHexString_holds getHexString_image in auto)

subsection \<open>UTF-8\<close>

lemma utf8_tables:
  "list_all (\<lambda>n. (of_nat n :: u64) AND 0x80 = 0 \<and> unat (of_nat n :: u64) < 2 ^ 7 \<and>
      val_bits 8 (of_nat n) = val_bits 1 0 @ val_bits 7 (of_nat n)) [0..<128]"
  "list_all (\<lambda>n. (of_nat n :: u64) AND 0x80 \<noteq> 0 \<and> 0x80 OR ((of_nat n :: u64) AND 0x3f) = of_nat n) [128..<192]"
  "list_all (\<lambda>n. (of_nat n :: u64) AND 0x80 \<noteq> 0 \<and> (of_nat n :: u64) < 0xdf \<and>
      val_bits 7 ((of_nat n :: u64) AND 0x7f) = val_bits 1 1 @ val_bits 1 0 @ val_bits 5 (of_nat n AND 0x1f) \<and>
      0xc0 OR (of_nat n AND 0x1f) = (of_nat n :: u64)) [192..<223]"
  "list_all (\<lambda>n. (of_nat n :: u64) AND 0x80 \<noteq> 0 \<and> \<not> (of_nat n :: u64) < 0xdf \<and> (of_nat n :: u64) < 0xef \<and>
      val_bits 7 ((of_nat n :: u64) AND 0x7f) =
        val_bits 1 1 @ val_bits 1 1 @ val_bits 1 0 @ val_bits 4 (of_nat n AND 0xf) \<and>
      0xe0 OR (of_nat n AND 0xf) = (of_nat n :: u64)) [224..<239]"
  "list_all (\<lambda>n. (of_nat n :: u64) AND 0x80 \<noteq> 0 \<and> \<not> (of_nat n :: u64) < 0xdf \<and> \<not> (of_nat n :: u64) < 0xef \<and>
      (of_nat n :: u64) < 0xf7 \<and> unat (((of_nat n :: u64) AND 0x7) OR 0x38) < 2 ^ 6 \<and>
      val_bits 6 (((of_nat n :: u64) AND 0x7) OR 0x38) =
        val_bits 1 1 @ val_bits 1 1 @ val_bits 1 1 @ val_bits 3 (of_nat n AND 0x7) \<and>
      0xf0 OR (of_nat n AND 0x7) = (of_nat n :: u64)) [240..<247]"
  by code_simp+

lemma masked_field: "0 < n \<Longrightarrow> n \<le> 64 \<Longrightarrow> field_ok n (w AND mask n)"
  by (auto simp: field_ok_def fits_iff_bits bit_and_iff bit_mask_iff)

lemma mask_fields [simp]:
  "field_ok 6 (w AND 0x3f)" "field_ok 5 (w AND 0x1f)" "field_ok 4 (w AND 0xf)" "field_ok 3 (w AND 0x7)"
  "field_ok 7 (w AND 0x7f)" "field_ok 1 0" "field_ok 1 1" "field_ok (Suc 0) 0" "field_ok (Suc 0) 1"
  using masked_field[of 6 w] masked_field[of 5 w] masked_field[of 4 w] masked_field[of 3 w] masked_field[of 7 w]
  by (simp_all add: mask_eq_exp_minus_1 field_ok_def fits_def)

lemma char_of_byte_of [simp]: "char_of_byte (byte_of c) = c"
  using unat_of_nat64[of "of_char c"] nat_of_char_less_256[of c]
  by (simp add: char_of_byte_def byte_of_def del: of_nat_of_char)

lemma byte_table:
  assumes "list_all (\<lambda>n. P (of_nat n)) [lo..<hi]" "in_range lo hi c"
  shows "P (byte_of c)"
  using assms by (auto simp: list_all_iff in_range_def byte_of_def simp del: of_nat_of_char)

lemma utf8_ascii: "in_range 0 0x80 c \<Longrightarrow> byte_of c AND 0x80 = 0 \<and> unat (byte_of c) < 2 ^ 7 \<and>
    val_bits 8 (byte_of c) = val_bits 1 0 @ val_bits 7 (byte_of c)"
  by (rule byte_table[OF utf8_tables(1)]) simp

lemma utf8_cont: "in_range 0x80 0xc0 c \<Longrightarrow> byte_of c AND 0x80 \<noteq> 0 \<and> 0x80 OR (byte_of c AND 0x3f) = byte_of c"
  by (rule byte_table[OF utf8_tables(2)]) simp

lemma utf8_lead2: "in_range 0xc0 0xdf c \<Longrightarrow> byte_of c AND 0x80 \<noteq> 0 \<and> byte_of c < 0xdf \<and>
      val_bits 7 (byte_of c AND 0x7f) = val_bits 1 1 @ val_bits 1 0 @ val_bits 5 (byte_of c AND 0x1f) \<and>
      0xc0 OR (byte_of c AND 0x1f) = byte_of c"
  by (rule byte_table[OF utf8_tables(3)]) simp

lemma utf8_lead3: "in_range 0xe0 0xef c \<Longrightarrow> byte_of c AND 0x80 \<noteq> 0 \<and> \<not> byte_of c < 0xdf \<and> byte_of c < 0xef \<and>
      val_bits 7 (byte_of c AND 0x7f) =
        val_bits 1 1 @ val_bits 1 1 @ val_bits 1 0 @ val_bits 4 (byte_of c AND 0xf) \<and>
      0xe0 OR (byte_of c AND 0xf) = byte_of c"
  by (rule byte_table[OF utf8_tables(4)]) simp

lemma utf8_lead4: "in_range 0xf0 0xf7 c \<Longrightarrow> byte_of c AND 0x80 \<noteq> 0 \<and> \<not> byte_of c < 0xdf \<and> \<not> byte_of c < 0xef \<and>
      byte_of c < 0xf7 \<and> unat ((byte_of c AND 0x7) OR 0x38) < 2 ^ 6 \<and>
      val_bits 6 ((byte_of c AND 0x7) OR 0x38) =
        val_bits 1 1 @ val_bits 1 1 @ val_bits 1 1 @ val_bits 3 (byte_of c AND 0x7) \<and>
      0xf0 OR (byte_of c AND 0x7) = byte_of c"
  by (rule byte_table[OF utf8_tables(5)]) simp

text \<open>The continuation bytes of a character shift their six bits into the block.\<close>

lemma pack_block:
  assumes "field_ok m h" "m + 6 \<le> 64"
  shows "field_ok (m + 6) (push_bit 6 h OR (w AND 0x3f))"
    "val_bits (m + 6) (push_bit 6 h OR (w AND 0x3f)) = val_bits m h @ val_bits 6 (w AND 0x3f)"
  using paired_field[OF assms(1), of 6 "w AND 0x3f"] assms(2) by simp_all

lemma utf8_fields_ok: "utf8_char cs \<Longrightarrow> list_all (\<lambda>(n, v). field_ok n v) (utf8_fields cs)"
  using utf8_ascii by (induction cs rule: utf8_char.induct)
    (auto simp: utf8_fields_def cont_field_def intro!: field_okI)

lemma makeUTF8_char:
  assumes "utf8_char cs" "holds r bl"
  shows "\<exists>n b r'. foldE makeUTF8String_byte cs (0, bitLength, block, r) = Inr (0, n, b, r') \<and>
    holds r' (bl @ fields_image (utf8_fields cs))"
  using assms
proof (induction cs rule: utf8_char.induct)
  case (1 a)
  then obtain r' where "appendBits (byte_of a) 8 r = Inr r'" "holds r' (bl @ val_bits 8 (byte_of a))"
    using append_holds[of r bl 8 "byte_of a"] utf8_ascii[of a] by (auto simp: field_ok_def fits_def)
  then show ?case using 1 utf8_ascii[of a] by (simp add: makeUTF8String_byte_def utf8_fields_def)
next
  case (2 a b)
  then have l: "in_range 0xc0 0xdf a" and c: "in_range 0x80 0xc0 b" by auto
  note f = pack_block[of 7 "byte_of a AND 0x7f" "byte_of b", simplified]
  obtain r' where "appendBits (push_bit 6 (byte_of a AND 0x7f) OR (byte_of b AND 0x3f)) 13 r = Inr r'"
      "holds r' (bl @ fields_image (utf8_fields [a, b]))"
    using append_holds[OF 2(2) f(1)] f(2) utf8_lead2[OF l] by (auto simp: utf8_fields_def cont_field_def)
  then show ?case using utf8_lead2[OF l] utf8_cont[OF c] by (simp add: makeUTF8String_byte_def Let_def)
next
  case (3 a b c)
  then have l: "in_range 0xe0 0xef a" and cc: "in_range 0x80 0xc0 b" "in_range 0x80 0xc0 c" by auto
  note f1 = pack_block[of 7 "byte_of a AND 0x7f" "byte_of b", simplified]
  note f2 = pack_block[OF f1(1), of "byte_of c", simplified]
  obtain r' where "appendBits (push_bit 6 (push_bit 6 (byte_of a AND 0x7f) OR (byte_of b AND 0x3f)) OR
        (byte_of c AND 0x3f)) 19 r = Inr r'"
      "holds r' (bl @ fields_image (utf8_fields [a, b, c]))"
    using append_holds[OF 3(2) f2(1)] f1(2) f2(2) utf8_lead3[OF l] by (auto simp: utf8_fields_def cont_field_def)
  then show ?case using utf8_lead3[OF l] utf8_cont[OF cc(1)] utf8_cont[OF cc(2)]
    by (simp add: makeUTF8String_byte_def Let_def)
next
  case (4 a b c d)
  then have l: "in_range 0xf0 0xf7 a" and cc: "in_range 0x80 0xc0 b" "in_range 0x80 0xc0 c" "in_range 0x80 0xc0 d"
    by auto
  have "field_ok 6 ((byte_of a AND 0x7) OR 0x38)" using utf8_lead4[OF l] by (intro field_okI) simp_all
  note f1 = pack_block[OF this, of "byte_of b", simplified]
  note f2 = pack_block[OF f1(1), of "byte_of c", simplified]
  note f3 = pack_block[OF f2(1), of "byte_of d", simplified]
  obtain r' where "appendBits (push_bit 6 (push_bit 6 (push_bit 6 ((byte_of a AND 0x7) OR 0x38) OR
        (byte_of b AND 0x3f)) OR (byte_of c AND 0x3f)) OR (byte_of d AND 0x3f)) 24 r = Inr r'"
      "holds r' (bl @ fields_image (utf8_fields [a, b, c, d]))"
    using append_holds[OF 4(2) f3(1)] f1(2) f2(2) f3(2) utf8_lead4[OF l]
    by (auto simp: utf8_fields_def cont_field_def)
  then show ?case using utf8_lead4[OF l] utf8_cont[OF cc(1)] utf8_cont[OF cc(2)] utf8_cont[OF cc(3)]
    by (simp add: makeUTF8String_byte_def Let_def)
qed auto

lemma getUTF8_continuations_image:
  assumes "list_all (in_range 0x80 0xc0) cs" "ahead s (fields_image (map cont_field cs))"
  shows "getUTF8_continuations (length cs) s = Inr (cs, skip_bits (6 * length cs) s)"
  using assms
proof (induction cs arbitrary: s)
  case (Cons c cs)
  then show ?case using Cons.IH[of "skip_bits 6 s"] utf8_cont[of c]
    by (auto simp: cont_field_def ahead_append_iff ahead_get)
qed simp

lemma length_cont_fields [simp]: "length (fields_image (map cont_field cs)) = 6 * length cs"
  by (induction cs) (simp_all add: cont_field_def)

lemma getUTF8_char_image:
  assumes "utf8_char cs" "ahead s (fields_image (utf8_fields cs))"
  shows "getUTF8_char s = Inr (cs, skip_bits (length (fields_image (utf8_fields cs))) s)"
  using assms
proof (induction cs rule: utf8_char.induct)
  case (1 a)
  then show ?case using utf8_ascii[of a] field_okI[of 7 "byte_of a"]
    by (auto simp: utf8_fields_def getUTF8_char_def ahead_append_iff ahead_get)
next
  case (2 a b)
  then have c: "getUTF8_continuations (length [b]) (skip_bits 7 s) = Inr ([b], skip_bits (6 * length [b]) (skip_bits 7 s))"
    by (intro getUTF8_continuations_image) (auto simp: utf8_fields_def ahead_append_iff)
  show ?case using 2 c utf8_lead2[of a]
    by (auto simp: utf8_fields_def getUTF8_char_def ahead_append_iff ahead_get cont_field_def)
next
  case (3 a b c)
  have l: "length [b, c] = 2" by simp
  have "getUTF8_continuations (length [b, c]) (skip_bits 7 s) =
      Inr ([b, c], skip_bits (6 * length [b, c]) (skip_bits 7 s))"
    using 3 by (intro getUTF8_continuations_image) (auto simp: utf8_fields_def ahead_append_iff)
  note c = this[unfolded l]
  show ?case using 3 c utf8_lead3[of a]
    by (auto simp: utf8_fields_def getUTF8_char_def ahead_append_iff ahead_get cont_field_def)
next
  case (4 a b c d)
  have l: "length [b, c, d] = 3" by simp
  have "getUTF8_continuations (length [b, c, d]) (skip_bits 6 s) =
      Inr ([b, c, d], skip_bits (6 * length [b, c, d]) (skip_bits 6 s))"
    using 4 by (intro getUTF8_continuations_image) (auto simp: utf8_fields_def ahead_append_iff)
  note c = this[unfolded l]
  show ?case using 4 c utf8_lead4[of a]
    by (auto simp: utf8_fields_def getUTF8_char_def ahead_append_iff ahead_get cont_field_def)
qed auto

lemma makeUTF8String_holds:
  assumes "list_all utf8_char cs"
  shows "\<exists>b. makeUTF8String (concat cs) = Inr b \<and> holds b (utf8_image cs)"
proof -
  have "\<exists>n' b' r'. foldE makeUTF8String_byte (concat cs) (0, n, b, r) = Inr (0, n', b', r') \<and>
      holds r' (bl @ utf8_image cs)" if "holds r bl" for n b r bl
    using assms that
  proof (induction cs arbitrary: n b r bl)
    case (Cons c cs)
    obtain n1 b1 r1 where "foldE makeUTF8String_byte c (0, n, b, r) = Inr (0, n1, b1, r1)"
        "holds r1 (bl @ fields_image (utf8_fields c))"
      using makeUTF8_char[of c r bl n b] Cons.prems by fastforce
    then show ?case
      using Cons.IH[of r1 "bl @ fields_image (utf8_fields c)" n1 b1] Cons.prems
      by (auto simp: foldE_append utf8_image_def)
  qed (simp add: utf8_image_def)
  from this[OF holds_empty, of 0 0] show ?thesis by (auto simp: makeUTF8String_def)
qed

lemma getUTF8String_image:
  "list_all utf8_char cs \<Longrightarrow> ahead s (utf8_image cs) \<Longrightarrow>
     getUTF8String (length cs) s = Inr (concat cs, skip_bits (length (utf8_image cs)) s)"
proof (induction cs arbitrary: s)
  case (Cons c cs)
  then show ?case using Cons.IH[of "skip_bits (length (fields_image (utf8_fields c))) s"] getUTF8_char_image[of c s]
    by (auto simp: utf8_image_def ahead_append_iff)
qed (simp add: utf8_image_def)

text \<open>
  A finding: a message of upper-case hex digits is shortest in the Hex encoding, which reads back
  in lower case.
\<close>

lemma makeBestString_loses_case:
  "bindE (makeBestString ''AB'' 8 defaultHeaderOptions) (\<lambda>b.
     bindE (getBestString 8 defaultHeaderOptions b) (\<lambda>(m, _). Inr m)) = Inr ''ab''"
  by code_simp

lemma utf8_image_pos: "list_all utf8_char cs \<Longrightarrow> cs \<noteq> [] \<Longrightarrow> 0 < length (utf8_image cs)"
proof -
  assume "list_all utf8_char cs" "cs \<noteq> []"
  then obtain c rest where c: "cs = c # rest" "utf8_char c" by (cases cs) auto
  then show ?thesis by (cases c rule: utf8_char.cases) (auto simp: utf8_image_def utf8_fields_def)
qed

end
