(* ===== verification/StreamMoves.thy ===== *)
theory StreamMoves
  imports BitStrings
begin

text \<open>
  How far the readers of the bit stream move the cursor. \<open>uses n s s'\<close> says that the step
  from \<open>s\<close> to \<open>s'\<close> keeps the cursor inside the data and at least \<open>n\<close> fewer bits are left; it is what
  the termination proofs of the decoders' loops need, and it bounds what a decoder consumes.
\<close>

definition uses :: "nat \<Rightarrow> BitIO \<Rightarrow> BitIO \<Rightarrow> bool" where
  "uses n s s' \<longleftrightarrow> position s \<le> blength s \<and> position s' \<le> blength s' \<and>
     getNumberOfBitLeft s' + n \<le> getNumberOfBitLeft s"

lemma uses_trans: "uses m s s' \<Longrightarrow> uses n s' s'' \<Longrightarrow> uses (m + n) s s''"
  by (auto simp: uses_def)

lemma uses_weaken: "uses n s s' \<Longrightarrow> m \<le> n \<Longrightarrow> uses m s s'"
  by (auto simp: uses_def)

lemma getBits_uses: "getBits n s = Inr (v, s') \<Longrightarrow> uses n s s' \<and> 0 < n"
  by (auto dest!: getBits_moves simp: uses_def getNumberOfBitLeft_def)

lemma setBits_moves:
  "setBits v n s = Inr s' \<Longrightarrow> position s' = position s + n \<and> blength s' = max (blength s) (position s + n)"
  by (auto simp: setBits_def checkLength_def res_simps Let_def split: if_splits)

lemma insertBits_moves:
  assumes "insertBits v n s = Inr s'" "position s \<le> blength s"
  shows "position s' = position s + n \<and> blength s' = blength s + n"
proof -
  obtain bs where "setBits v n ((resizeIfNeeded (s\<lparr>blength := blength s + n\<rparr>))\<lparr>bits := bs\<rparr>) = Inr s'"
    using assms(1) by (auto simp: insertBits_def res_simps Let_def split: if_splits)
  from setBits_moves[OF this] show ?thesis using assms(2) by (auto simp: resizeIfNeeded_def Let_def)
qed

lemma movePositionBy_moves:
  "movePositionBy s k = Inr s' \<Longrightarrow> s' = s\<lparr>position := nat (int (position s) + k)\<rparr> \<and>
     nat (int (position s) + k) \<le> blength s \<and> 0 \<le> int (position s) + k"
  by (auto simp: movePositionBy_def movePositionTo_def checkPosition_def res_simps split: if_splits)

lemma movePositionBy_back:
  "movePositionBy s (-1) = Inr s' \<Longrightarrow> 0 < position s \<and> s' = s\<lparr>position := position s - 1\<rparr> \<and> position s' \<le> blength s'"
  using movePositionBy_moves[of s "-1" s'] by (auto simp: nat_diff_distrib)

lemma getFixedPrecision_uses: "getFixedPrecision s = Inr (v, s') \<Longrightarrow> uses 7 s s'"
  by (auto simp: getFixedPrecision_def bindE_Inr_iff Let_def uses_def getNumberOfBitLeft_def
      split: if_splits dest!: getBits_moves movePositionBy_back)

lemma get3B40String_loop_uses:
  "get3B40String_loop k s = Inr (v, s') \<Longrightarrow> 0 < k \<Longrightarrow> uses (16 * k) s s'"
proof (induction k arbitrary: s v)
  case (Suc k)
  from Suc.prems(1) obtain w v' s1 where g: "getBits 16 s = Inr (w, s1)" "get3B40String_loop k s1 = Inr (v', s')"
    by (auto simp: bindE_Inr_iff Let_def)
  show ?case
  proof (cases "k = 0")
    case True
    then show ?thesis using g getBits_uses[OF g(1)] by simp
  next
    case False
    then show ?thesis using Suc.IH[OF g(2)] uses_trans[of 16 s s1] getBits_uses[OF g(1)] by simp
  qed
qed simp

lemma get3B40String_uses3: "get3B40String 3 s = Inr (v, s') \<Longrightarrow> uses 16 s s'"
  using get3B40String_loop_uses[of 1 s] by (auto simp: get3B40String_def bindE_Inr_iff Let_def)

lemma appendBits_moves: "appendBits v n s = Inr s' \<Longrightarrow> position s' = position s \<and> blength s' = blength s + n"
  by (auto simp: appendBits_def res_simps Let_def split: if_splits)

end
