(* ===== verification/Serialize.thy ===== *)
theory Serialize
  imports Prelude
begin

unbundle bit_operations_syntax

text \<open>
  The byte-buffer serialization of \<^verbatim>\<open>src/src/serialize.h\<close> and the value types of
  \<^verbatim>\<open>src/src/DigiAssetTypes.cpp\<close> that are stored with it. The overloads of \<^verbatim>\<open>serialize\<close> and
  \<^verbatim>\<open>deserialize\<close> are one function per type, named by the type; \<open>serialize\<close> returns the buffer
  with the value appended, \<open>deserialize\<close> the value and the moved cursor. The locale \<open>serializer\<close>
  is the contract every pair keeps; the template over vectors keeps it whenever the pair of the
  element type does.
\<close>

subsection \<open>Bytes and integers\<close>

definition serialize_u8 :: "u8 list \<Rightarrow> u8 \<Rightarrow> u8 list" where
  "serialize_u8 serializedData input = serializedData @ [input]"

definition deserialize_u8 :: "u8 list \<Rightarrow> nat \<Rightarrow> (u8 \<times> nat) result" where
  "deserialize_u8 serializedData i =
     (if i \<ge> length serializedData then Inl (OutOfRange ''read past end of data'')
      else Inr (serializedData ! i, i + 1))"

definition serialize_u64 :: "u8 list \<Rightarrow> u64 \<Rightarrow> u8 list" where
  "serialize_u64 serializedData input =
     foldl (\<lambda>d shift. d @ [ucast (drop_bit shift input AND 0xff)]) serializedData
       [56, 48, 40, 32, 24, 16, 8] @ [ucast (input AND 0xff)]"

definition deserialize_u64 :: "u8 list \<Rightarrow> nat \<Rightarrow> (u64 \<times> nat) result" where
  "deserialize_u64 serializedData i =
     (if i + 8 > length serializedData then Inl (OutOfRange ''read past end of data'')
      else
        let (output, i) = foldl (\<lambda>(output, i) shift. (output + push_bit shift (ucast (serializedData ! i)), i + 1))
              (0, i) [56, 48, 40, 32, 24, 16, 8]
        in Inr (output + ucast (serializedData ! i), i + 1))"

subsection \<open>Strings and vectors\<close>

text \<open>The conversions between \<^verbatim>\<open>char\<close> and \<^verbatim>\<open>uint8_t\<close>.\<close>

definition char_to_u8 :: "char \<Rightarrow> u8" where
  "char_to_u8 c = of_nat (of_char c)"

definition u8_to_char :: "u8 \<Rightarrow> char" where
  "u8_to_char b = char_of (unat b)"

definition serialize_string :: "u8 list \<Rightarrow> string \<Rightarrow> u8 list" where
  "serialize_string serializedData input =
     foldl (\<lambda>d letter. serialize_u8 d (char_to_u8 letter))
       (serialize_u64 serializedData (of_nat (length input))) input"

text \<open>
  The bound check adds the announced size to the cursor in 64 bits. When that sum wraps, the
  check passes, but the size is then above every size \<^verbatim>\<open>std::string::resize\<close> accepts and it
  throws \<^verbatim>\<open>std::length_error\<close>.
\<close>

definition deserialize_string :: "u8 list \<Rightarrow> nat \<Rightarrow> (string \<times> nat) result" where
  "deserialize_string serializedData i =
     bindE (deserialize_u64 serializedData i) (\<lambda>(size, i).
     if unat (of_nat i + size) > length serializedData then Inl (OutOfRange ''read past end of data'')
     else if size \<ge> 0x7fffffffffffffff then Inl (RuntimeError ''length_error'')
     else Inr (map u8_to_char (take (unat size) (drop i serializedData)), i + unat size))"

definition serialize_vector :: "(u8 list \<Rightarrow> 'a \<Rightarrow> u8 list) \<Rightarrow> u8 list \<Rightarrow> 'a list \<Rightarrow> u8 list" where
  "serialize_vector ser serializedData input =
     foldl ser (serialize_u64 serializedData (of_nat (length input))) input"

fun deserialize_elements :: "(u8 list \<Rightarrow> nat \<Rightarrow> ('a \<times> nat) result) \<Rightarrow> u8 list \<Rightarrow> nat \<Rightarrow> nat \<Rightarrow> ('a list \<times> nat) result" where
  "deserialize_elements des serializedData 0 i = Inr ([], i)"
| "deserialize_elements des serializedData (Suc n) i =
     bindE (des serializedData i) (\<lambda>(v, i).
     bindE (deserialize_elements des serializedData n i) (\<lambda>(vs, i). Inr (v # vs, i)))"

definition deserialize_vector :: "(u8 list \<Rightarrow> nat \<Rightarrow> ('a \<times> nat) result) \<Rightarrow> u8 list \<Rightarrow> nat \<Rightarrow> ('a list \<times> nat) result" where
  "deserialize_vector des serializedData i =
     bindE (deserialize_u64 serializedData i) (\<lambda>(size, i).
     deserialize_elements des serializedData (unat size) i)"

subsection \<open>The stored value types\<close>

record Signer =
  sg_address :: string
  sg_weight :: u64

record ExchangeRate =
  er_address :: string
  er_index :: u8
  er_name :: string

record Royalty =
  ry_address :: string
  ry_amount :: u64

record VoteOption =
  vo_address :: string
  vo_label :: string

definition ExchangeRate_enabled :: "ExchangeRate \<Rightarrow> bool" where
  "ExchangeRate_enabled r \<longleftrightarrow> er_address r \<noteq> []"

text \<open>The comparison operators; names and labels are not compared.\<close>

definition Signer_eq :: "Signer \<Rightarrow> Signer \<Rightarrow> bool" where
  "Signer_eq a b \<longleftrightarrow> sg_address b = sg_address a \<and> sg_weight b = sg_weight a"

definition ExchangeRate_eq :: "ExchangeRate \<Rightarrow> ExchangeRate \<Rightarrow> bool" where
  "ExchangeRate_eq a b \<longleftrightarrow>
     (if er_address b \<noteq> er_address a then False
      else if er_address b = [] then True
      else er_index b = er_index a)"

definition ExchangeRate_neq :: "ExchangeRate \<Rightarrow> ExchangeRate \<Rightarrow> bool" where
  "ExchangeRate_neq a b \<longleftrightarrow>
     (if er_address b = [] \<and> er_address a = [] then False
      else \<not> (er_address b = er_address a \<and> er_index b = er_index a))"

definition Royalty_eq :: "Royalty \<Rightarrow> Royalty \<Rightarrow> bool" where
  "Royalty_eq a b \<longleftrightarrow> ry_address b = ry_address a \<and> ry_amount b = ry_amount a"

definition VoteOption_eq :: "VoteOption \<Rightarrow> VoteOption \<Rightarrow> bool" where
  "VoteOption_eq a b \<longleftrightarrow> vo_address b = vo_address a"

definition serialize_Signer :: "u8 list \<Rightarrow> Signer \<Rightarrow> u8 list" where
  "serialize_Signer serializedData input =
     serialize_u64 (serialize_string serializedData (sg_address input)) (sg_weight input)"

definition deserialize_Signer :: "u8 list \<Rightarrow> nat \<Rightarrow> (Signer \<times> nat) result" where
  "deserialize_Signer serializedData i =
     bindE (deserialize_string serializedData i) (\<lambda>(a, i).
     bindE (deserialize_u64 serializedData i) (\<lambda>(w, i). Inr (\<lparr>sg_address = a, sg_weight = w\<rparr>, i)))"

definition serialize_ExchangeRate :: "u8 list \<Rightarrow> ExchangeRate \<Rightarrow> u8 list" where
  "serialize_ExchangeRate serializedData input =
     serialize_string (serialize_u8 (serialize_string serializedData (er_address input)) (er_index input))
       (er_name input)"

definition deserialize_ExchangeRate :: "u8 list \<Rightarrow> nat \<Rightarrow> (ExchangeRate \<times> nat) result" where
  "deserialize_ExchangeRate serializedData i =
     bindE (deserialize_string serializedData i) (\<lambda>(a, i).
     bindE (deserialize_u8 serializedData i) (\<lambda>(x, i).
     bindE (deserialize_string serializedData i) (\<lambda>(n, i).
     Inr (\<lparr>er_address = a, er_index = x, er_name = n\<rparr>, i))))"

definition serialize_Royalty :: "u8 list \<Rightarrow> Royalty \<Rightarrow> u8 list" where
  "serialize_Royalty serializedData input =
     serialize_u64 (serialize_string serializedData (ry_address input)) (ry_amount input)"

definition deserialize_Royalty :: "u8 list \<Rightarrow> nat \<Rightarrow> (Royalty \<times> nat) result" where
  "deserialize_Royalty serializedData i =
     bindE (deserialize_string serializedData i) (\<lambda>(a, i).
     bindE (deserialize_u64 serializedData i) (\<lambda>(w, i). Inr (\<lparr>ry_address = a, ry_amount = w\<rparr>, i)))"

definition serialize_VoteOption :: "u8 list \<Rightarrow> VoteOption \<Rightarrow> u8 list" where
  "serialize_VoteOption serializedData input =
     serialize_string (serialize_string serializedData (vo_address input)) (vo_label input)"

definition deserialize_VoteOption :: "u8 list \<Rightarrow> nat \<Rightarrow> (VoteOption \<times> nat) result" where
  "deserialize_VoteOption serializedData i =
     bindE (deserialize_string serializedData i) (\<lambda>(a, i).
     bindE (deserialize_string serializedData i) (\<lambda>(l, i). Inr (\<lparr>vo_address = a, vo_label = l\<rparr>, i)))"

subsection \<open>The contract\<close>

text \<open>What fits in memory: a count the 64-bit prefix can hold.\<close>

definition string_ok :: "string \<Rightarrow> bool" where
  "string_ok s \<longleftrightarrow> length s < 2 ^ 62"

definition bytes_of_u64 :: "u64 \<Rightarrow> u8 list" where
  "bytes_of_u64 v = map (\<lambda>shift. ucast (drop_bit shift v AND 0xff)) [56, 48, 40, 32, 24, 16, 8, 0]"

lemma serialize_u64_append: "serialize_u64 d v = d @ bytes_of_u64 v"
  by (simp add: serialize_u64_def bytes_of_u64_def)

lemma length_bytes_of_u64 [simp]: "length (bytes_of_u64 v) = 8"
  by (simp add: bytes_of_u64_def)

lemma byte_step: "take_bit k v + push_bit k (ucast (ucast (drop_bit k v AND 0xff) :: u8)) = take_bit (k + 8) (v :: u64)"
proof -
  have b: "bit (push_bit k (ucast (ucast (drop_bit k v AND 0xff) :: u8) :: u64)) n \<longleftrightarrow> k \<le> n \<and> n < k + 8 \<and> n < 64 \<and> bit v n" for n
  proof -
    have ff: "(0xff :: u64) = mask 8" by (simp add: mask_eq_exp_minus_1)
    show ?thesis
      unfolding ff by (auto simp: bit_push_bit_iff bit_unsigned_iff bit_and_iff bit_mask_iff bit_drop_bit_eq)
  qed
  have "take_bit k v + push_bit k (ucast (ucast (drop_bit k v AND 0xff) :: u8)) =
      take_bit k v OR push_bit k (ucast (ucast (drop_bit k v AND 0xff) :: u8))"
    by (rule disjunctive_add_eq_or) (rule bit_word_eqI, auto simp: bit_and_iff b bit_take_bit_iff)
  also have "\<dots> = take_bit (k + 8) v"
    by (rule bit_word_eqI) (auto simp: bit_or_iff b bit_take_bit_iff)
  finally show ?thesis .
qed


lemma u8_char_inverse [simp]: "u8_to_char (char_to_u8 c) = c"
  using nat_of_char_less_256[of c]
  by (simp add: char_to_u8_def u8_to_char_def unat_of_nat del: of_nat_of_char)

lemma bytes_of_u64_sum:
  "0 + push_bit 56 (ucast (bytes_of_u64 v ! 0)) + push_bit 48 (ucast (bytes_of_u64 v ! 1))
     + push_bit 40 (ucast (bytes_of_u64 v ! 2)) + push_bit 32 (ucast (bytes_of_u64 v ! 3))
     + push_bit 24 (ucast (bytes_of_u64 v ! 4)) + push_bit 16 (ucast (bytes_of_u64 v ! 5))
     + push_bit 8 (ucast (bytes_of_u64 v ! 6)) + ucast (bytes_of_u64 v ! 7) = v"
proof -
  define b where "b k = push_bit k (ucast (ucast (drop_bit k v AND 0xff) :: u8) :: u64)" for k
  have step: "take_bit (k + 8) v = take_bit k v + b k" for k using byte_step[of k v] by (simp add: b_def)
  have "v = take_bit 64 v" by (simp add: take_bit_word_eq_self)
  also have "\<dots> = b 0 + b 8 + b 16 + b 24 + b 32 + b 40 + b 48 + b 56"
    using step[of 56] step[of 48] step[of 40] step[of 32] step[of 24] step[of 16] step[of 8] step[of 0]
    by (simp add: add.assoc)
  finally show ?thesis by (simp add: bytes_of_u64_def b_def ac_simps)
qed

lemma deserialize_u64_append:
  "deserialize_u64 (pre @ bytes_of_u64 v @ post) (length pre) = Inr (v, length pre + 8)"
proof -
  have n: "(pre @ bytes_of_u64 v @ post) ! (length pre + k) = bytes_of_u64 v ! k" if "k < 8" for k
    using that by (simp add: nth_append)
  have idx: "length pre + 1 + 1 = length pre + 2" "length pre + 2 + 1 = length pre + 3" by simp_all
  show ?thesis
    using n[of 0] n[of 1] n[of 2] n[of 3] n[of 4] n[of 5] n[of 6] n[of 7] bytes_of_u64_sum[of v]
    by (simp add: deserialize_u64_def numeral_eq_Suc)
qed

locale serializer =
  fixes ser :: "u8 list \<Rightarrow> 'a \<Rightarrow> u8 list"
    and des :: "u8 list \<Rightarrow> nat \<Rightarrow> ('a \<times> nat) result"
    and ok :: "'a \<Rightarrow> bool"
  assumes ser_append: "ser d x = d @ ser [] x"
    and des_ser: "ok x \<Longrightarrow> des (ser pre x @ post) (length pre) = Inr (x, length (ser pre x))"
begin

lemma des_at: "ok x \<Longrightarrow> des (pre @ ser [] x @ post) (length pre) = Inr (x, length pre + length (ser [] x))"
  using des_ser[of x pre post] ser_append[of pre x] by (metis append.assoc length_append)

lemma ser_all: "foldl ser d xs = d @ concat (map (ser []) xs)"
proof (induction xs arbitrary: d)
  case (Cons x xs)
  show ?case using Cons[of "ser d x"] ser_append[of d x] by simp
qed simp

lemma des_all:
  "list_all ok xs \<Longrightarrow> deserialize_elements des (pre @ concat (map (ser []) xs) @ post) (length xs) (length pre) =
     Inr (xs, length pre + length (concat (map (ser []) xs)))"
proof (induction xs arbitrary: pre)
  case (Cons x xs)
  then have "des (pre @ ser [] x @ concat (map (ser []) xs) @ post) (length pre) = Inr (x, length (pre @ ser [] x))"
    using des_at[of x pre "concat (map (ser []) xs) @ post"] by simp
  then show ?case using Cons.IH[of "pre @ ser [] x"] Cons.prems by simp
qed simp

end


interpretation ser_u8: serializer serialize_u8 deserialize_u8 "\<lambda>_. True"
  by unfold_locales (simp_all add: serialize_u8_def deserialize_u8_def nth_append)

interpretation ser_u64: serializer serialize_u64 deserialize_u64 "\<lambda>_. True"
  by unfold_locales (simp_all add: serialize_u64_append deserialize_u64_append)

lemma u64_at: "deserialize_u64 (pre @ bytes_of_u64 v @ post) (length pre) = Inr (v, length pre + 8)"
  by (rule deserialize_u64_append)

lemma foldl_serialize_u8: "foldl (\<lambda>d c. serialize_u8 d (f c)) d xs = d @ map f xs"
  by (induction xs arbitrary: d) (simp_all add: serialize_u8_def)

lemma serialize_string_append:
  "serialize_string d s = d @ bytes_of_u64 (of_nat (length s)) @ map char_to_u8 s"
  by (simp add: serialize_string_def foldl_serialize_u8 serialize_u64_append)

interpretation ser_string: serializer serialize_string deserialize_string string_ok
proof unfold_locales
  fix s pre post assume s: "string_ok s"
  define d where "d = pre @ bytes_of_u64 (of_nat (length s)) @ map char_to_u8 s @ post"
  have u: "unat (of_nat (length s) :: u64) = length s" using s by (simp add: string_ok_def unat_of_nat64)
  have n: "deserialize_u64 d (length pre) = Inr (of_nat (length s), length pre + 8)"
    unfolding d_def by (rule u64_at)
  have "unat (of_nat (length pre + 8) + of_nat (length s) :: u64) \<le> length pre + 8 + length s"
    using unat_of_nat[of "length pre + 8 + length s", where 'a = 64] by (simp add: add.assoc)
  also have "\<dots> \<le> length d" by (simp add: d_def)
  finally have guard: "\<not> unat (of_nat (length pre + 8) + of_nat (length s) :: u64) > length d" by simp
  have small: "\<not> (of_nat (length s) :: u64) \<ge> 0x7fffffffffffffff"
    using s by (simp add: word_le_nat_alt u string_ok_def)
  have "take (length s) (drop (length pre + 8) d) = map char_to_u8 s" by (simp add: d_def)
  then have "deserialize_string d (length pre) = Inr (s, length pre + 8 + length s)"
    using n guard small u by (simp add: deserialize_string_def comp_def)
  then show "deserialize_string (serialize_string pre s @ post) (length pre) = Inr (s, length (serialize_string pre s))"
    by (simp add: serialize_string_append d_def)
qed (simp add: serialize_string_append)

text \<open>
  The template over vectors keeps the contract of its element type. The locale of vectors is a
  locale of its own, because a sublocale of \<open>serializer\<close> in itself would not end.
\<close>

locale vector_serializer = serializer ser des ok
  for ser :: "u8 list \<Rightarrow> 'a \<Rightarrow> u8 list" and des :: "u8 list \<Rightarrow> nat \<Rightarrow> ('a \<times> nat) result" and ok :: "'a \<Rightarrow> bool"
begin

lemma serialize_vector_append:
  "serialize_vector ser d xs = d @ bytes_of_u64 (of_nat (length xs)) @ concat (map (ser []) xs)"
  by (simp add: serialize_vector_def ser_all serialize_u64_append)

end

sublocale vector_serializer \<subseteq> vec: serializer "serialize_vector ser" "deserialize_vector des"
  "\<lambda>xs. list_all ok xs \<and> length xs < 2 ^ 62"
proof unfold_locales
  fix xs pre post assume xs: "list_all ok xs \<and> length xs < 2 ^ 62"
  let ?p = "pre @ bytes_of_u64 (of_nat (length xs))"
  have u: "unat (of_nat (length xs) :: u64) = length xs" using xs by (simp add: unat_of_nat64)
  have "deserialize_u64 (?p @ concat (map (ser []) xs) @ post) (length pre) = Inr (of_nat (length xs), length ?p)"
    using u64_at[of pre "of_nat (length xs)" "concat (map (ser []) xs) @ post"] by simp
  then show "deserialize_vector des (serialize_vector ser pre xs @ post) (length pre) = Inr (xs, length (serialize_vector ser pre xs))"
    using des_all[of xs ?p post] xs u by (simp add: serialize_vector_append deserialize_vector_def)
qed (simp add: serialize_vector_append)


definition Signer_ok :: "Signer \<Rightarrow> bool" where
  "Signer_ok x \<longleftrightarrow> string_ok (sg_address x)"

definition ExchangeRate_ok :: "ExchangeRate \<Rightarrow> bool" where
  "ExchangeRate_ok x \<longleftrightarrow> string_ok (er_address x) \<and> string_ok (er_name x)"

definition Royalty_ok :: "Royalty \<Rightarrow> bool" where
  "Royalty_ok x \<longleftrightarrow> string_ok (ry_address x)"

definition VoteOption_ok :: "VoteOption \<Rightarrow> bool" where
  "VoteOption_ok x \<longleftrightarrow> string_ok (vo_address x) \<and> string_ok (vo_label x)"

lemmas des_field = ser_u8.des_ser ser_u64.des_ser ser_string.des_ser

lemmas ser_field_append = ser_u8.ser_append ser_u64.ser_append ser_string.ser_append

text \<open>Two fields one after the other: the first is read in front of what the second appended.\<close>

lemma des_string_then:
  "string_ok x \<Longrightarrow> deserialize_string (serialize_u64 (serialize_string d x) v @ post) (length d) =
     Inr (x, length (serialize_string d x))"
  "string_ok x \<Longrightarrow> deserialize_string (serialize_u8 (serialize_string d x) b @ post) (length d) =
     Inr (x, length (serialize_string d x))"
  "string_ok x \<Longrightarrow> deserialize_string (serialize_string (serialize_string d x) y @ post) (length d) =
     Inr (x, length (serialize_string d x))"
  by (metis append.assoc ser_u64.ser_append ser_u8.ser_append ser_string.ser_append ser_string.des_ser)+

interpretation ser_Signer: vector_serializer serialize_Signer deserialize_Signer Signer_ok
proof unfold_locales
  fix d x show "serialize_Signer d x = d @ serialize_Signer [] x"
    by (simp add: serialize_Signer_def serialize_u64_append serialize_string_append)
next
  fix x pre post assume "Signer_ok x"
  then show "deserialize_Signer (serialize_Signer pre x @ post) (length pre) = Inr (x, length (serialize_Signer pre x))"
    by (simp add: serialize_Signer_def deserialize_Signer_def Signer_ok_def des_string_then des_field)
qed

interpretation ser_Royalty: vector_serializer serialize_Royalty deserialize_Royalty Royalty_ok
proof unfold_locales
  fix d x show "serialize_Royalty d x = d @ serialize_Royalty [] x"
    by (simp add: serialize_Royalty_def serialize_u64_append serialize_string_append)
next
  fix x pre post assume "Royalty_ok x"
  then show "deserialize_Royalty (serialize_Royalty pre x @ post) (length pre) = Inr (x, length (serialize_Royalty pre x))"
    by (simp add: serialize_Royalty_def deserialize_Royalty_def Royalty_ok_def des_string_then des_field)
qed

interpretation ser_VoteOption: vector_serializer serialize_VoteOption deserialize_VoteOption VoteOption_ok
proof unfold_locales
  fix d x show "serialize_VoteOption d x = d @ serialize_VoteOption [] x"
    by (simp add: serialize_VoteOption_def serialize_string_append)
next
  fix x pre post assume "VoteOption_ok x"
  then show "deserialize_VoteOption (serialize_VoteOption pre x @ post) (length pre) = Inr (x, length (serialize_VoteOption pre x))"
    by (simp add: serialize_VoteOption_def deserialize_VoteOption_def VoteOption_ok_def des_string_then des_field)
qed

interpretation ser_ExchangeRate: serializer serialize_ExchangeRate deserialize_ExchangeRate ExchangeRate_ok
proof unfold_locales
  fix d x show "serialize_ExchangeRate d x = d @ serialize_ExchangeRate [] x"
    by (simp add: serialize_ExchangeRate_def serialize_u8_def serialize_string_append)
next
  fix x pre post assume ok: "ExchangeRate_ok x"
  let ?a = "serialize_string pre (er_address x)" and ?n = "serialize_string [] (er_name x)"
  have split: "serialize_ExchangeRate pre x = serialize_u8 ?a (er_index x) @ ?n"
    unfolding serialize_ExchangeRate_def by (rule ser_string.ser_append)
  have "deserialize_string (serialize_u8 ?a (er_index x) @ ?n @ post) (length pre) = Inr (er_address x, length ?a)"
    using ok by (intro des_string_then) (simp add: ExchangeRate_ok_def)
  then have "deserialize_string (serialize_ExchangeRate pre x @ post) (length pre) = Inr (er_address x, length ?a)"
    by (simp add: split)
  moreover have "deserialize_u8 (serialize_ExchangeRate pre x @ post) (length ?a) = Inr (er_index x, length (serialize_u8 ?a (er_index x)))"
    by (simp add: split ser_u8.des_ser)
  moreover have "deserialize_string (serialize_ExchangeRate pre x @ post) (length (serialize_u8 ?a (er_index x))) =
      Inr (er_name x, length (serialize_ExchangeRate pre x))"
    using ok ser_string.des_ser[of "er_name x" "serialize_u8 ?a (er_index x)" post]
    by (simp add: serialize_ExchangeRate_def ExchangeRate_ok_def)
  ultimately show "deserialize_ExchangeRate (serialize_ExchangeRate pre x @ post) (length pre) =
      Inr (x, length (serialize_ExchangeRate pre x))"
    by (simp add: deserialize_ExchangeRate_def)
qed

interpretation ser_string_vector: vector_serializer serialize_string deserialize_string string_ok
  by unfold_locales

end
