(* ===== verification/AssetConstants.thy ===== *)
theory AssetConstants
  imports Serialize
begin

text \<open>
  The transaction data the decoders read (\<^verbatim>\<open>src/src/DigiByteCore_Types.h\<close>, the fields the program
  uses) and the protocol constants of \<^verbatim>\<open>src/src/DigiAssetConstants.h\<close>.
\<close>

subsection \<open>Transactions\<close>

record vout_t =
  valueS :: u64
  out_n :: nat
  spk_hex :: string
  spk_type :: string
  spk_addresses :: "string list"

record vin_t =
  vin_txid :: string
  vin_n :: nat
  scriptSig_hex :: string
  txinwitness :: "string list"

record getrawtransaction_t =
  tx_txid :: string
  tx_version :: int
  tx_vin :: "vin_t list"
  tx_vout :: "vout_t list"
  tx_blockhash :: string
  tx_time :: u32

subsection \<open>Constants\<close>

definition DIGIBYTE_DUST :: u64 where
  "DIGIBYTE_DUST = 10000"

definition DIGIDOLLAR_ACTIVATION_HEIGHT :: nat where
  "DIGIDOLLAR_ACTIVATION_HEIGHT = 23869440"

definition standardExchangeRates :: "ExchangeRate list" where
  "standardExchangeRates =
     [\<lparr>er_address = ''dgb1qunxh378eltj2jrwza5sj9grvu5xud43vqvudwh'', er_index = 0, er_name = ''CAD''\<rparr>,
      \<lparr>er_address = ''dgb1qunxh378eltj2jrwza5sj9grvu5xud43vqvudwh'', er_index = 1, er_name = ''USD''\<rparr>,
      \<lparr>er_address = ''dgb1qunxh378eltj2jrwza5sj9grvu5xud43vqvudwh'', er_index = 2, er_name = ''EUR''\<rparr>,
      \<lparr>er_address = ''dgb1qunxh378eltj2jrwza5sj9grvu5xud43vqvudwh'', er_index = 3, er_name = ''GBP''\<rparr>,
      \<lparr>er_address = ''dgb1qunxh378eltj2jrwza5sj9grvu5xud43vqvudwh'', er_index = 4, er_name = ''AUD''\<rparr>,
      \<lparr>er_address = ''dgb1qunxh378eltj2jrwza5sj9grvu5xud43vqvudwh'', er_index = 5, er_name = ''JPY''\<rparr>,
      \<lparr>er_address = ''dgb1qunxh378eltj2jrwza5sj9grvu5xud43vqvudwh'', er_index = 6, er_name = ''CNY''\<rparr>,
      \<lparr>er_address = ''dgb1qunxh378eltj2jrwza5sj9grvu5xud43vqvudwh'', er_index = 7, er_name = ''TRY''\<rparr>,
      \<lparr>er_address = ''dgb1qunxh378eltj2jrwza5sj9grvu5xud43vqvudwh'', er_index = 8, er_name = ''BRL''\<rparr>,
      \<lparr>er_address = ''dgb1qunxh378eltj2jrwza5sj9grvu5xud43vqvudwh'', er_index = 9, er_name = ''CHF''\<rparr>,
      \<lparr>er_address = ''dgb1qlk3hldeynl3prqw259u8gv0jh7w5nwppxlvt3v'', er_index = 0, er_name = ''BTC''\<rparr>,
      \<lparr>er_address = ''dgb1qlk3hldeynl3prqw259u8gv0jh7w5nwppxlvt3v'', er_index = 1, er_name = ''ETH''\<rparr>,
      \<lparr>er_address = ''dgb1qlk3hldeynl3prqw259u8gv0jh7w5nwppxlvt3v'', er_index = 2, er_name = ''LTC''\<rparr>,
      \<lparr>er_address = ''dgb1qlk3hldeynl3prqw259u8gv0jh7w5nwppxlvt3v'', er_index = 3, er_name = ''DCR''\<rparr>,
      \<lparr>er_address = ''dgb1qlk3hldeynl3prqw259u8gv0jh7w5nwppxlvt3v'', er_index = 4, er_name = ''ZIL''\<rparr>,
      \<lparr>er_address = ''dgb1qlk3hldeynl3prqw259u8gv0jh7w5nwppxlvt3v'', er_index = 5, er_name = ''RVN''\<rparr>,
      \<lparr>er_address = ''dgb1qlk3hldeynl3prqw259u8gv0jh7w5nwppxlvt3v'', er_index = 6, er_name = ''XVG''\<rparr>,
      \<lparr>er_address = ''dgb1qlk3hldeynl3prqw259u8gv0jh7w5nwppxlvt3v'', er_index = 7, er_name = ''RDD''\<rparr>,
      \<lparr>er_address = ''dgb1qlk3hldeynl3prqw259u8gv0jh7w5nwppxlvt3v'', er_index = 8, er_name = ''NXS''\<rparr>,
      \<lparr>er_address = ''dgb1qlk3hldeynl3prqw259u8gv0jh7w5nwppxlvt3v'', er_index = 9, er_name = ''POT''\<rparr>]"

definition standardExchangeRatesCount :: nat where
  "standardExchangeRatesCount = 20"

definition standardVoteAddresses :: "string list" where
  "standardVoteAddresses =
     [''D8LWk1fGksGDxZai17A5wQUVsRiV69Nk7J'',
      ''DBJNvWeirccgeAdZn9gV5otheutdthzWxx'',
      ''D9zaWjGHuVNB32G7Pf5BMmtvDifdoS3Wsq'',
      ''DEKQEMFHTc1M8Gs4xvY6paZ5RKtE1cbqNp'',
      ''D8jnQigMYwhrB6Zjs73deF5RKprUdX5uvd'',
      ''DELKWiuSj86pMfDb7aDaAUhLYG8D7H6JVj'',
      ''DHUg85Pbc6mDK3y7kaWmsqjRaWfRVGys2U'',
      ''D9rxXUhaDxku4ZhdkLtyZzmmGG5ViUAYds'',
      ''DNehqnpzLWnv7vTTxkbHsneajBEzGjvLo2'',
      ''DAKiRnvVCfD4imp5A41tCeoZkezzkPXB4C'',
      ''D69jwFMuawBkG1hii1muQESFrbZFenZrmL'',
      ''D7PJqwFSLmCURDNnd5cc9Ham856GwDQ9zy'',
      ''DFHa9HQ9BDHuDKmBPvPzBE5dsLm85prUd4'',
      ''DAJMr7m4ZyaCRa9Y1o8pMaAPViBhSZTENs'',
      ''DFXqwRzai3Khd3n1uRaYgZTq1BhAUhyu3m'',
      ''DSTKiCYQqpvrXME3rEFeYEsH3dZHCPU8ez'',
      ''DG1rJMg6zCMoiptWeEozxpuVWKGmZkiHTf'',
      ''DRgWqHV6d7HSxYhA5bCMvtLhuS3kbRYKo3'',
      ''DD9kssWTzT8s5fv4Xg3MthRNCT7RtawQSw'',
      ''DLLYN7hv535nXzpvZv25ySG8GdsfYNk1Bx'',
      ''DJQEaiT39GyJgCJK7noarscutoeWHXMLaM'',
      ''DEkaR4NfvWx3bq1MBw2nTcTP2JEPxKyaBX'',
      ''DN9vVGNYzbjqTGRRGXkjiGVTpuKRz1eYe3'',
      ''D6kCF8PDhwdPzSg3xeUmrDzVK9eK3nuEJj'',
      ''DR3F3WE78aJmHvyGA35NjkLLf5F9X8eKaz'',
      ''DSMdwgWYbEpPNQJ2Hs9Y89JqNmQdiwhWaq'',
      ''DGJCxLgqW2sbhomNZvsDGsjam8pnY2b7uA'',
      ''DAaQuGSbvRQA2B7zzbrQ3SRRYC9qaQVZch'',
      ''DJbcjvGf7wzQaAQQ9GpHP1menk6jHyCsW4'',
      ''DC5vxafEZQeqpqDawTyDx7nBW81V6LfrE5'',
      ''DKJhzwe5PzFQuUdrzJR9gUfkvk4jzvUrZU'',
      ''DRX7r83LHBf1cWKnBoAd8q1iN6UP833kPx'',
      ''DShw4ZaRmW9fyWnP3umEyZ9KyJHWR9v6BD'',
      ''DK9zdFCv9yz3C7jVbnTbVCZgGAd8S1Xqxk'',
      ''DG2Gv2aZRALtMkKtaJEQr75bFqsL3JbKmB'',
      ''D9zt7Xb1RgBepPrrYSRPv6N6YCUcS5CRx6'',
      ''DAgRoBgYaDx7g6JPRZyufvFQAQc4zdjaP1'',
      ''DPLi14JkyEjkbWQMQGavBARN8xo4avmuMh'',
      ''DU4mqG99gi77BcZoS8FaJEiHk5HRYXNEcb'',
      ''D6QdquB54saxViwAfL9xKiwoXaFo7UU5ec'',
      ''DStTMUY2U1XSLsdq9uuWgfQefPDkQJkGQC'',
      ''DPUV7Htc7jBwhc9z5rqoDFmKW3y1fE8xwA'',
      ''DEGatQLqYCD9BumaXAqTFRCYZ4vznhQXcY'',
      ''DCL7fkgzSSQSLvDMXqiRdnR9qQx5MjK89t'',
      ''DNxc93Q2rrCm92sVyrtKhCn5MMC5YtuXxK'',
      ''DDtWWXHe9a4EPn2EawiTDzYjq8SEKKRS6J'',
      ''DNr54LSpN6iAQda1QYqykqeU7j7TyLeCcA'',
      ''DE6eJePsjMDrTdKoi8HAGbX6Sdwh4RGTP9'',
      ''D5kY1eMcDfLZWznQFSjCQMUW8DiSoxhmuy'',
      ''D6dSnsPqcLaVvcH1MSFRMUy5KyVbnDufiX'']"

definition standardVoteCount :: nat where
  "standardVoteCount = 50"

text \<open>The tables have the sizes the bound checks of the decoder compare with.\<close>

lemma standard_tables:
  "length standardExchangeRates = standardExchangeRatesCount"
  "length standardVoteAddresses = standardVoteCount"
  by (simp_all add: standardExchangeRates_def standardExchangeRatesCount_def
      standardVoteAddresses_def standardVoteCount_def)

end
