(* ===== verification/Rules.thy ===== *)
theory Rules
  imports StreamMoves AssetConstants
begin

text \<open>
  The asset rules of \<^verbatim>\<open>src/src/DigiAssetRules.cpp\<close>: the decoder of the rules section of an
  issuance (\<open>DigiAssetRules_decode\<close>, the decoding constructor), the getters, the setters, the
  encoder, and the serialization for the database.
\<close>

unbundle bit_operations_syntax

subsection \<open>The class\<close>

definition MIN_EPOCH_VALUE :: u64 where
  "MIN_EPOCH_VALUE = 1577836800000"

definition EXPIRE_NEVER :: u64 where
  "EXPIRE_NEVER = - 1"

record DigiAssetRules =
  noRules :: bool
  rewritable :: bool
  movable :: bool
  signersRequired :: u64
  signers :: "Signer list"
  exchangeRate :: ExchangeRate
  royalties :: "Royalty list"
  countryList :: "string list"
  countryListIsBan :: bool
  expiry :: u64
  voteOptions :: "VoteOption list"
  deflate :: u64
  voteLabelsCID :: string

text \<open>
  The default constructor. The index of the default exchange rate has no initialiser; it is never
  read while the address is empty.
\<close>

definition DigiAssetRules_default :: DigiAssetRules where
  "DigiAssetRules_default =
     \<lparr>noRules = True, rewritable = False, movable = True, signersRequired = 0, signers = [],
      exchangeRate = \<lparr>er_address = [], er_index = 0, er_name = []\<rparr>, royalties = [], countryList = [],
      countryListIsBan = False, expiry = EXPIRE_NEVER, voteOptions = [], deflate = 0, voteLabelsCID = []\<rparr>"

abbreviation (input) RULE_APPROVAL :: u64 where "RULE_APPROVAL \<equiv> 0"
abbreviation (input) RULE_ROYALTIES :: u64 where "RULE_ROYALTIES \<equiv> 1"
abbreviation (input) RULE_GEOFENCE_ALLOWED :: u64 where "RULE_GEOFENCE_ALLOWED \<equiv> 2"
abbreviation (input) RULE_GEOFENCE_DENIED :: u64 where "RULE_GEOFENCE_DENIED \<equiv> 3"
abbreviation (input) RULE_VOTE :: u64 where "RULE_VOTE \<equiv> 4"
abbreviation (input) RULE_DEFLATION :: u64 where "RULE_DEFLATION \<equiv> 5"
abbreviation (input) RULE_ROYALTY_UNITS :: u64 where "RULE_ROYALTY_UNITS \<equiv> 9"
abbreviation (input) RULE_END :: u64 where "RULE_END \<equiv> 15"

subsection \<open>Decoding\<close>

text \<open>\<^verbatim>\<open>addresses[0]\<close> without a check, and with the check that most decoders make.\<close>

definition first_address :: "vout_t \<Rightarrow> string result" where
  "first_address v = vec_get (spk_addresses v) 0"

definition checked_address :: "vout_t \<Rightarrow> string \<Rightarrow> string result" where
  "checked_address v msg = (if spk_addresses v = [] then Inl (OutOfRange msg) else first_address v)"

text \<open>The output numbers of \<^verbatim>\<open>for (unsigned int o = start; o < start + length; o++)\<close>.\<close>

definition output_range :: "u32 \<Rightarrow> u32 \<Rightarrow> nat list" where
  "output_range start len = [unat start..<unat (start + len)]"

text \<open>Approval by a range of outputs: the weight of an output is its value above 600 sats.\<close>

definition decodeApproval_range :: "vout_t list \<Rightarrow> u32 \<Rightarrow> u32 \<Rightarrow> Signer list \<Rightarrow> Signer list result" where
  "decodeApproval_range vout start len sgs =
     (if unat start + unat len > length vout then Inl (OutOfRange ''approval range out of bounds'')
      else foldE (\<lambda>outputNum sgs.
             bindE (vec_get vout outputNum) (\<lambda>v.
             bindE (checked_address v ''approval output has no address'') (\<lambda>a.
             Inr (sgs @ [\<lparr>sg_address = a, sg_weight = valueS v - 600\<rparr>]))))
           (output_range start len) sgs)"

function decodeApproval_loop :: "vout_t list \<Rightarrow> Signer list \<Rightarrow> BitIO \<Rightarrow> (Signer list \<times> BitIO) result" where
  "decodeApproval_loop vout sgs s =
     bindE (getBits 1 s) (\<lambda>(b, s).
     if b = 1 then
       bindE (insertBits 0 1 s) (\<lambda>s.
       bindE (movePositionBy s (-1)) (\<lambda>s.
       bindE (getFixedPrecision s) (\<lambda>(start, s).
       bindE (getFixedPrecision s) (\<lambda>(len, s).
       bindE (decodeApproval_range vout (ucast start) (ucast len) sgs) (\<lambda>sgs. Inr (sgs, s))))))
     else
       bindE (movePositionBy s (-1)) (\<lambda>s.
       bindE (getFixedPrecision s) (\<lambda>(temp, s).
       if temp = 0 then Inr (sgs, s)
       else
         let outputNum = unat (ucast (temp - 1) :: u32) in
         if outputNum \<ge> length vout then Inl (OutOfRange ''approval output out of bounds'')
         else
           bindE (vec_get vout outputNum) (\<lambda>v.
           bindE (checked_address v ''approval output out of bounds'') (\<lambda>a.
           bindE (getFixedPrecision s) (\<lambda>(w, s).
           decodeApproval_loop vout (sgs @ [\<lparr>sg_address = a, sg_weight = w\<rparr>]) s))))))"
  by pat_completeness auto
termination
  by (relation "measure (\<lambda>(vout, sgs, s). getNumberOfBitLeft s)")
    (auto dest!: getBits_moves movePositionBy_back getFixedPrecision_uses
      simp: uses_def getNumberOfBitLeft_def)

declare decodeApproval_loop.simps [simp del]

type_synonym decode_state = "DigiAssetRules \<times> BitIO"

definition decodeApproval :: "vout_t list \<Rightarrow> decode_state \<Rightarrow> decode_state result" where
  "decodeApproval vout = (\<lambda>(r, s).
     bindE (getFixedPrecision s) (\<lambda>(required, s).
     bindE (decodeApproval_loop vout (signers r) s) (\<lambda>(sgs, s).
     Inr (r\<lparr>signersRequired := required, signers := sgs\<rparr>, s))))"

text \<open>
  \<open>decodeRoyaltyUnits\<close> also asks the database to watch the address of a custom rate; the third
  component is the addresses it adds.
\<close>

definition decodeRoyaltyUnits :: "vout_t list \<Rightarrow> decode_state \<Rightarrow> (decode_state \<times> string list) result" where
  "decodeRoyaltyUnits vout = (\<lambda>(r, s).
     bindE (getBits 1 s) (\<lambda>(b, s).
     if b = 1 then
       bindE (getBits 7 s) (\<lambda>(erIndex, s).
       if unat erIndex \<ge> standardExchangeRatesCount
       then Inl (OutOfRange ''standard exchange rate index out of bounds'')
       else bindE (vec_get standardExchangeRates (unat erIndex)) (\<lambda>e.
            Inr ((r\<lparr>exchangeRate := e\<rparr>, s), [])))
     else
       bindE (movePositionBy s (-1)) (\<lambda>s.
       bindE (getFixedPrecision s) (\<lambda>(v, s).
       let output = unat (ucast v :: u32) in
       if output \<ge> length vout then Inl (OutOfRange ''royalty units output out of bounds'')
       else
         bindE (vec_get vout output) (\<lambda>out.
         bindE (checked_address out ''royalty units output out of bounds'') (\<lambda>a.
         Inr ((r\<lparr>exchangeRate := \<lparr>er_address = a, er_index = ucast (valueS out - 600), er_name = ''?''\<rparr>\<rparr>, s),
              [a])))))))"

text \<open>Here the address is taken without a check, and the bound check adds in 32 bits.\<close>

definition decodeRoyalties :: "vout_t list \<Rightarrow> decode_state \<Rightarrow> decode_state result" where
  "decodeRoyalties vout = (\<lambda>(r, s).
     bindE (getFixedPrecision s) (\<lambda>(v1, s).
     bindE (getFixedPrecision s) (\<lambda>(v2, s).
     let start = ucast v1 :: u32; len = ucast v2 :: u32 in
     if unat (start + len) > length vout then Inl (OutOfRange ''start plus length greater then total'')
     else
       bindE (foldE (\<lambda>outputNum rs.
                bindE (vec_get vout outputNum) (\<lambda>v.
                bindE (first_address v) (\<lambda>a. Inr (rs @ [\<lparr>ry_address = a, ry_amount = valueS v\<rparr>]))))
              (output_range start len) (royalties r)) (\<lambda>rs.
       Inr (r\<lparr>royalties := rs\<rparr>, s)))))"

text \<open>\<^verbatim>\<open>toupper\<close> in the C locale.\<close>

definition toupper :: "char \<Rightarrow> char" where
  "toupper c = (if 97 \<le> (of_char c :: nat) \<and> (of_char c :: nat) \<le> 122 then char_of (of_char c - 32 :: nat) else c)"

function decodeGeofence_loop :: "string list \<Rightarrow> BitIO \<Rightarrow> (string list \<times> BitIO) result" where
  "decodeGeofence_loop cs s =
     bindE (get3B40String 3 s) (\<lambda>(v, s').
     let v = map toupper v in
     if v \<noteq> ''...'' then decodeGeofence_loop (cs @ [v]) s' else Inr (cs, s'))"
  by pat_completeness auto
termination
proof (relation "measure (\<lambda>(cs, s). getNumberOfBitLeft s)", goal_cases)
  case (2 cs s x v s')
  then have "uses 16 s s'" using get3B40String_uses3 by blast
  then show ?case by (simp add: uses_def)
qed simp

declare decodeGeofence_loop.simps [simp del]

definition decodeGeofence :: "decode_state \<Rightarrow> decode_state result" where
  "decodeGeofence = (\<lambda>(r, s).
     bindE (decodeGeofence_loop (countryList r) s) (\<lambda>(cs, s). Inr (r\<lparr>countryList := cs\<rparr>, s)))"

text \<open>
  \<open>voteStart\<close> is an \<^verbatim>\<open>int\<close>: the low 32 bits of the 64-bit difference, read as signed. The
  vote options come from the standard list or from the outputs.
\<close>

definition decodeVote_options :: "vout_t list \<Rightarrow> u32 \<Rightarrow> nat \<Rightarrow> VoteOption list \<Rightarrow> VoteOption list result" where
  "decodeVote_options vout voteStart voteLength os =
     (if sint voteStart = -1 then
        (if voteLength > standardVoteCount then Inl (OutOfRange ''vote length exceeds standard address list'')
         else foldE (\<lambda>i os. bindE (vec_get standardVoteAddresses i) (\<lambda>a.
                Inr (os @ [\<lparr>vo_address = a, vo_label = []\<rparr>]))) [0..<voteLength] os)
      else if sint voteStart < 0 \<or> unat voteStart + voteLength > length vout
        then Inl (OutOfRange ''vote outputs out of bounds'')
      else
        foldE (\<lambda>outputNum os.
                 bindE (vec_get vout outputNum) (\<lambda>v.
                 bindE (checked_address v ''vote output has no address'') (\<lambda>a.
                 Inr (os @ [\<lparr>vo_address = a, vo_label = []\<rparr>]))))
          (output_range voteStart (of_nat voteLength)) os)"

definition decodeVoteAndExpiry :: "vout_t list \<Rightarrow> string \<Rightarrow> decode_state \<Rightarrow> decode_state result" where
  "decodeVoteAndExpiry vout cid = (\<lambda>(r, s).
     if rewritable r
     then Inl (OutOfRange ''Invalid Rule Detected: Votes can not be part of rewritable rule asset'')
     else
       bindE (getBits 1 s) (\<lambda>(m, s).
       bindE (getBits 7 s) (\<lambda>(v, s).
       bindE (getFixedPrecision s) (\<lambda>(cutoff, s).
       bindE (getFixedPrecision s) (\<lambda>(vs, s).
       let voteLength = unat v;
           voteStart = ucast (vs - 1);
           r = r\<lparr>movable := (m = 1)\<rparr>;
           r = (if cutoff \<noteq> 0 then r\<lparr>expiry := cutoff\<rparr> else r)
       in bindE (if voteLength = 0 then Inr r
                 else bindE (decodeVote_options vout voteStart voteLength (voteOptions r)) (\<lambda>os.
                      Inr (r\<lparr>voteOptions := os, voteLabelsCID := cid\<rparr>))) (\<lambda>r.
          Inr (r, s)))))))"

definition decodeDeflation :: "decode_state \<Rightarrow> decode_state result" where
  "decodeDeflation = (\<lambda>(r, s).
     bindE (getFixedPrecision s) (\<lambda>(v, s). Inr (r\<lparr>deflate := v\<rparr>, s)))"


text \<open>The \<^verbatim>\<open>switch\<close> over the rule header; the royalty units fall through to the royalties.\<close>

definition decodeRule :: "vout_t list \<Rightarrow> string \<Rightarrow> u64 \<Rightarrow> decode_state \<Rightarrow> (decode_state \<times> string list) result" where
  "decodeRule vout cid ruleCode = (\<lambda>st.
     if ruleCode = RULE_END then Inr (st, [])
     else if ruleCode = RULE_APPROVAL then bindE (decodeApproval vout st) (\<lambda>st. Inr (st, []))
     else if ruleCode = RULE_ROYALTY_UNITS then
       bindE (decodeRoyaltyUnits vout st) (\<lambda>(st, ws).
       bindE (decodeRoyalties vout st) (\<lambda>st. Inr (st, ws)))
     else if ruleCode = RULE_ROYALTIES then bindE (decodeRoyalties vout st) (\<lambda>st. Inr (st, []))
     else if ruleCode = RULE_GEOFENCE_ALLOWED then
       bindE (decodeGeofence (apfst (countryListIsBan_update (\<lambda>_. False)) st)) (\<lambda>st. Inr (st, []))
     else if ruleCode = RULE_GEOFENCE_DENIED then
       bindE (decodeGeofence (apfst (countryListIsBan_update (\<lambda>_. True)) st)) (\<lambda>st. Inr (st, []))
     else if ruleCode = RULE_VOTE then bindE (decodeVoteAndExpiry vout cid st) (\<lambda>st. Inr (st, []))
     else if ruleCode = RULE_DEFLATION then bindE (decodeDeflation st) (\<lambda>st. Inr (st, []))
     else Inl (OutOfRange ''Invalid Rule Code''))"

lemma decodeApproval_loop_uses:
  "decodeApproval_loop vout sgs s = Inr (sgs', s') \<Longrightarrow> uses 0 s s'"
proof (induction vout sgs s arbitrary: sgs' s' rule: decodeApproval_loop.induct)
  case (1 vout sgs s)
  from "1.prems" obtain b s1 where g: "getBits 1 s = Inr (b, s1)"
    by (subst (asm) decodeApproval_loop.simps) (auto simp: bindE_Inr_iff)
  note m = getBits_moves[OF g]
  show ?case
  proof (cases "b = 1")
    case True
    from "1.prems" g True obtain s2 s3 x s4 y s5 where
      i: "insertBits 0 1 s1 = Inr s2" "movePositionBy s2 (-1) = Inr s3" "getFixedPrecision s3 = Inr (x, s4)"
        "getFixedPrecision s4 = Inr (y, s')"
      by (subst (asm) decodeApproval_loop.simps) (auto simp: bindE_Inr_iff)
    show ?thesis
      using insertBits_moves[OF i(1)] movePositionBy_back[OF i(2)] getFixedPrecision_uses[OF i(3)]
        getFixedPrecision_uses[OF i(4)] m
      by (auto simp: uses_def getNumberOfBitLeft_def)
  next
    case False
    from "1.prems" g False obtain s2 temp s3 where
      i: "movePositionBy s1 (-1) = Inr s2" "getFixedPrecision s2 = Inr (temp, s3)"
      by (subst (asm) decodeApproval_loop.simps) (auto simp: bindE_Inr_iff)
    have u: "uses 0 s s3"
      using movePositionBy_back[OF i(1)] getFixedPrecision_uses[OF i(2)] m
      by (auto simp: uses_def getNumberOfBitLeft_def)
    show ?thesis
    proof (cases "temp = 0")
      case True
      then have "s' = s3"
        using "1.prems" g False i by (subst (asm) decodeApproval_loop.simps) (auto simp: bindE_Inr_iff)
      then show ?thesis using u by simp
    next
      case t: False
      let ?o = "unat (ucast (temp - 1) :: u32)"
      from "1.prems" g False i t obtain v a w s4 where
        j: "\<not> ?o \<ge> length vout" "vec_get vout ?o = Inr v" "checked_address v ''approval output out of bounds'' = Inr a"
          "getFixedPrecision s3 = Inr (w, s4)"
          "decodeApproval_loop vout (sgs @ [\<lparr>sg_address = a, sg_weight = w\<rparr>]) s4 = Inr (sgs', s')"
        by (subst (asm) decodeApproval_loop.simps) (auto simp: bindE_Inr_iff Let_def split: if_splits)
      have "uses 0 s4 s'" using "1.IH"[OF g refl False i(1) i(2) refl t refl j(1,2,3,4) refl j(5)] .
      then show ?thesis
        using uses_trans[OF uses_trans[OF u getFixedPrecision_uses[OF j(4)]], of 0 s'] by (simp add: uses_weaken)
    qed
  qed
qed

lemma decodeGeofence_loop_uses: "decodeGeofence_loop cs s = Inr (cs', s') \<Longrightarrow> uses 0 s s'"
proof (induction cs s arbitrary: cs' s' rule: decodeGeofence_loop.induct)
  case (1 cs s)
  from "1.prems" obtain v s1 where g: "get3B40String 3 s = Inr (v, s1)"
    and r: "if map toupper v \<noteq> ''...'' then decodeGeofence_loop (cs @ [map toupper v]) s1 = Inr (cs', s') else s' = s1"
    by (subst (asm) decodeGeofence_loop.simps) (auto simp: bindE_Inr_iff Let_def split: if_splits)
  have u: "uses 0 s s1" using get3B40String_uses3[OF g] by (rule uses_weaken) simp
  show ?case
  proof (cases "map toupper v \<noteq> ''...''")
    case True
    then show ?thesis using "1.IH"[OF g refl refl True] r uses_trans[OF u, of 0] by auto
  qed (use r u in simp)
qed

lemma handler_uses:
  "decodeApproval vout (r, s) = Inr (r', s') \<Longrightarrow> uses 0 s s'"
  "decodeRoyaltyUnits vout (r, s) = Inr ((r', s'), ws) \<Longrightarrow> uses 0 s s'"
  "decodeRoyalties vout (r, s) = Inr (r', s') \<Longrightarrow> uses 0 s s'"
  "decodeGeofence (r, s) = Inr (r', s') \<Longrightarrow> uses 0 s s'"
  "decodeVoteAndExpiry vout cid (r, s) = Inr (r', s') \<Longrightarrow> uses 0 s s'"
  "decodeDeflation (r, s) = Inr (r', s') \<Longrightarrow> uses 0 s s'"
proof -
  show "decodeApproval vout (r, s) = Inr (r', s') \<Longrightarrow> uses 0 s s'"
    by (auto simp: decodeApproval_def bindE_Inr_iff uses_def dest!: getFixedPrecision_uses decodeApproval_loop_uses)
  show "decodeRoyaltyUnits vout (r, s) = Inr ((r', s'), ws) \<Longrightarrow> uses 0 s s'"
    by (auto simp: decodeRoyaltyUnits_def bindE_Inr_iff uses_def Let_def getNumberOfBitLeft_def split: if_splits
        dest!: getBits_moves movePositionBy_back getFixedPrecision_uses)
  show "decodeRoyalties vout (r, s) = Inr (r', s') \<Longrightarrow> uses 0 s s'"
    by (auto simp: decodeRoyalties_def bindE_Inr_iff Let_def uses_def split: if_splits dest!: getFixedPrecision_uses)
  show "decodeGeofence (r, s) = Inr (r', s') \<Longrightarrow> uses 0 s s'"
    by (auto simp: decodeGeofence_def bindE_Inr_iff dest!: decodeGeofence_loop_uses)
  show "decodeDeflation (r, s) = Inr (r', s') \<Longrightarrow> uses 0 s s'"
    by (auto simp: decodeDeflation_def bindE_Inr_iff uses_def dest!: getFixedPrecision_uses)
  assume v: "decodeVoteAndExpiry vout cid (r, s) = Inr (r', s')"
  then obtain m s1 v s2 c s3 x where g: "getBits 1 s = Inr (m, s1)" "getBits 7 s1 = Inr (v, s2)"
      "getFixedPrecision s2 = Inr (c, s3)" "getFixedPrecision s3 = Inr (x, s')"
    by (auto simp: decodeVoteAndExpiry_def bindE_Inr_iff[of "getBits _ _"] bindE_Inr_iff[of "getFixedPrecision _"]
        bindE_Inr_iff[of _ "\<lambda>r. Inr (r, _)"] Let_def split: if_splits(2))
  show "uses 0 s s'"
    using g by (auto simp: uses_def getNumberOfBitLeft_def dest!: getBits_moves getFixedPrecision_uses)
qed

lemma decodeRule_uses:
  assumes "decodeRule vout cid c (r, s) = Inr ((r', s'), ws)" "position s \<le> blength s"
  shows "uses 0 s s'"
proof -
  have refl: "uses 0 s s" using assms(2) by (simp add: uses_def)
  have units: "uses 0 s s'" if "decodeRoyaltyUnits vout (r, s) = Inr ((r1, s1), ws1)"
      "decodeRoyalties vout (r1, s1) = Inr (r', s')" for r1 s1 ws1
    using uses_trans[OF handler_uses(2)[OF that(1)] handler_uses(3)[OF that(2)]] by simp
  show ?thesis
    using assms(1) refl units
    by (auto simp: decodeRule_def bindE_Inr_iff split: if_splits intro: handler_uses)
qed


function decodeRules_loop :: "vout_t list \<Rightarrow> string \<Rightarrow> decode_state \<Rightarrow> string list \<Rightarrow> (decode_state \<times> string list) result" where
  "decodeRules_loop vout cid (r, s) ws =
     bindE (getBits 4 s) (\<lambda>(ruleCode, s).
     bindE (decodeRule vout cid ruleCode (r, s)) (\<lambda>(st, ws').
     if ruleCode \<noteq> RULE_END then decodeRules_loop vout cid st (ws @ ws') else Inr (st, ws @ ws')))"
  by pat_completeness auto
termination
  by (relation "measure (\<lambda>(vout, cid, (r, s), ws). getNumberOfBitLeft s)")
    (auto dest!: getBits_moves decodeRule_uses simp: uses_def getNumberOfBitLeft_def)

declare decodeRules_loop.simps [simp del]

text \<open>
  The decoding constructor. It returns the rules, the stream behind the rules section, and the
  addresses the database was asked to watch.
\<close>

definition DigiAssetRules_decode ::
  "getrawtransaction_t \<Rightarrow> BitIO \<Rightarrow> string \<Rightarrow> u8 \<Rightarrow> (decode_state \<times> string list) result" where
  "DigiAssetRules_decode txData dataStream cid opCode =
     (if opCode \<noteq> 3 \<and> opCode \<noteq> 4 then Inr ((DigiAssetRules_default, dataStream), [])
      else
        bindE (decodeRules_loop (tx_vout txData) cid
                 (DigiAssetRules_default\<lparr>noRules := False, rewritable := (opCode = 3)\<rparr>, dataStream) [])
          (\<lambda>((r, s), ws).
        let extraBits = getPosition s mod 8 in
        if extraBits \<noteq> 0
        then bindE (movePositionBy s (int (8 - extraBits))) (\<lambda>s. Inr ((r, s), ws))
        else Inr ((r, s), ws)))"

subsection \<open>Getters\<close>

definition lock :: "DigiAssetRules \<Rightarrow> DigiAssetRules" where
  "lock r = r\<lparr>rewritable := False\<rparr>"

definition isRewritable :: "DigiAssetRules \<Rightarrow> bool" where
  "isRewritable r = rewritable r"

definition rules_empty :: "DigiAssetRules \<Rightarrow> bool" where
  "rules_empty r = noRules r"

definition getExpiry :: "DigiAssetRules \<Rightarrow> u64" where
  "getExpiry r = expiry r"

definition isExpiryHeight :: "DigiAssetRules \<Rightarrow> bool" where
  "isExpiryHeight r \<longleftrightarrow> expiry r < MIN_EPOCH_VALUE"

definition expires :: "DigiAssetRules \<Rightarrow> bool" where
  "expires r \<longleftrightarrow> expiry r \<noteq> EXPIRE_NEVER"

definition getIfExpired :: "u32 \<Rightarrow> u64 \<Rightarrow> DigiAssetRules \<Rightarrow> bool" where
  "getIfExpired height time r =
     (if expiry r = EXPIRE_NEVER then False
      else if expiry r \<ge> MIN_EPOCH_VALUE then time \<ge> expiry r div 1000
      else ucast height > expiry r)"

definition getRequiredSignerWeight :: "DigiAssetRules \<Rightarrow> u64" where
  "getRequiredSignerWeight r = signersRequired r"

definition getSigners :: "DigiAssetRules \<Rightarrow> Signer list" where
  "getSigners r = signers r"

definition getIfRequiresRoyalty :: "DigiAssetRules \<Rightarrow> bool" where
  "getIfRequiresRoyalty r \<longleftrightarrow> royalties r \<noteq> []"

definition getRoyaltyCurrency :: "DigiAssetRules \<Rightarrow> ExchangeRate" where
  "getRoyaltyCurrency r = exchangeRate r"

definition getRoyalties :: "DigiAssetRules \<Rightarrow> Royalty list" where
  "getRoyalties r = royalties r"

definition getIfGeoFenced :: "DigiAssetRules \<Rightarrow> bool" where
  "getIfGeoFenced r \<longleftrightarrow> countryListIsBan r \<or> countryList r \<noteq> []"

definition getIfCountryAllowedToReceive :: "string \<Rightarrow> DigiAssetRules \<Rightarrow> bool" where
  "getIfCountryAllowedToReceive country r =
     (if \<not> getIfGeoFenced r then True
      else
        let inList = list_ex (\<lambda>c. c = country) (countryList r)
        in (\<not> countryListIsBan r \<and> inList) \<or> (countryListIsBan r \<and> \<not> inList))"

definition getIfVoteRestricted :: "DigiAssetRules \<Rightarrow> bool" where
  "getIfVoteRestricted r \<longleftrightarrow> \<not> movable r"

definition getIfValidVoteAddress :: "string \<Rightarrow> DigiAssetRules \<Rightarrow> bool" where
  "getIfValidVoteAddress address r = list_ex (\<lambda>opt. vo_address opt = address) (voteOptions r)"

definition getRequiredBurn :: "DigiAssetRules \<Rightarrow> u64" where
  "getRequiredBurn r = deflate r"

definition getIfVote :: "DigiAssetRules \<Rightarrow> bool" where
  "getIfVote r \<longleftrightarrow> voteOptions r \<noteq> []"

subsection \<open>Setters\<close>

definition setRewritable :: "bool \<Rightarrow> DigiAssetRules \<Rightarrow> DigiAssetRules" where
  "setRewritable state r = r\<lparr>noRules := False, rewritable := state\<rparr>"

definition setRequireSigners :: "u64 \<Rightarrow> Signer list \<Rightarrow> DigiAssetRules \<Rightarrow> DigiAssetRules" where
  "setRequireSigners requiredWeight sgs r =
     r\<lparr>noRules := False, signersRequired := requiredWeight, signers := sgs\<rparr>"

definition setRequireKYC :: "DigiAssetRules \<Rightarrow> DigiAssetRules" where
  "setRequireKYC r = r\<lparr>noRules := False, countryListIsBan := True, countryList := []\<rparr>"

definition setDoesNotRequireKYC :: "DigiAssetRules \<Rightarrow> DigiAssetRules" where
  "setDoesNotRequireKYC r = r\<lparr>noRules := False, countryListIsBan := False, countryList := []\<rparr>"

definition setRequireKYC_countries :: "string list \<Rightarrow> bool \<Rightarrow> DigiAssetRules \<Rightarrow> DigiAssetRules result" where
  "setRequireKYC_countries countries banList r =
     (if countries = [] \<and> \<not> banList then Inl (RulesException ''Invalid Rule defined'')
      else Inr (r\<lparr>noRules := False, countryListIsBan := banList, countryList := countries\<rparr>))"

definition setRoyalties :: "Royalty list \<Rightarrow> ExchangeRate \<Rightarrow> DigiAssetRules \<Rightarrow> DigiAssetRules" where
  "setRoyalties rys rate r = r\<lparr>noRules := False, royalties := rys, exchangeRate := rate\<rparr>"

definition setVote :: "VoteOption list \<Rightarrow> u64 \<Rightarrow> bool \<Rightarrow> DigiAssetRules \<Rightarrow> DigiAssetRules" where
  "setVote os ex mov r = r\<lparr>noRules := False, voteOptions := os, expiry := ex, movable := mov\<rparr>"

definition setExpiry :: "u64 \<Rightarrow> DigiAssetRules \<Rightarrow> DigiAssetRules" where
  "setExpiry ex r = r\<lparr>noRules := False, expiry := ex\<rparr>"

definition setDeflationary :: "u64 \<Rightarrow> DigiAssetRules \<Rightarrow> DigiAssetRules" where
  "setDeflationary rate r = r\<lparr>noRules := False, deflate := rate\<rparr>"

text \<open>The comparison; the vote label CID is not compared.\<close>

definition list_eq :: "('a \<Rightarrow> 'a \<Rightarrow> bool) \<Rightarrow> 'a list \<Rightarrow> 'a list \<Rightarrow> bool" where
  "list_eq eq xs ys \<longleftrightarrow> length xs = length ys \<and> list_all2 eq xs ys"

definition DigiAssetRules_eq :: "DigiAssetRules \<Rightarrow> DigiAssetRules \<Rightarrow> bool" where
  "DigiAssetRules_eq a b \<longleftrightarrow>
     noRules b = noRules a \<and> rewritable b = rewritable a \<and> movable b = movable a \<and>
     signersRequired b = signersRequired a \<and> list_eq Signer_eq (signers b) (signers a) \<and>
     \<not> ExchangeRate_neq (exchangeRate b) (exchangeRate a) \<and> list_eq Royalty_eq (royalties b) (royalties a) \<and>
     countryList b = countryList a \<and> countryListIsBan b = countryListIsBan a \<and> expiry b = expiry a \<and>
     list_eq VoteOption_eq (voteOptions b) (voteOptions a) \<and> deflate b = deflate a"


subsection \<open>Encoding\<close>

record RuleOutput =
  ro_address :: string
  ro_sats :: u64

text \<open>\<^verbatim>\<open>standardVoteAddresses[i]\<close> is a C array; the loop stays inside it.\<close>

definition usesStandardVoteAddresses :: "DigiAssetRules \<Rightarrow> bool" where
  "usesStandardVoteAddresses r =
     (if length (voteOptions r) > standardVoteCount then False
      else list_all (\<lambda>i. vo_address (voteOptions r ! i) = standardVoteAddresses ! i) [0..<length (voteOptions r)])"

definition standardExchangeRateIndex :: "DigiAssetRules \<Rightarrow> nat result" where
  "standardExchangeRateIndex r =
     (case List.find (\<lambda>i. er_address (standardExchangeRates ! i) = er_address (exchangeRate r) \<and>
                          er_index (standardExchangeRates ! i) = er_index (exchangeRate r))
             [0..<standardExchangeRatesCount] of
        Some i \<Rightarrow> Inr i
      | None \<Rightarrow> Inl (RulesException ''Royalty units must be one of the standard exchange rates''))"

definition getRequiredOutputs :: "DigiAssetRules \<Rightarrow> RuleOutput list result" where
  "getRequiredOutputs r =
     (if noRules r then Inr []
      else
        let outputs = map (\<lambda>sg. \<lparr>ro_address = sg_address sg, ro_sats = DIGIBYTE_DUST\<rparr>) (signers r) in
        bindE (foldE (\<lambda>ry outputs.
                 if ry_amount ry < DIGIBYTE_DUST
                 then Inl (RulesException ''Royalty amount can not be encoded'')
                 else Inr (outputs @ [\<lparr>ro_address = ry_address ry, ro_sats = ry_amount ry\<rparr>]))
               (royalties r) outputs) (\<lambda>outputs.
        if voteOptions r \<noteq> [] \<and> \<not> usesStandardVoteAddresses r
        then Inr (outputs @ map (\<lambda>opt. \<lparr>ro_address = vo_address opt, ro_sats = DIGIBYTE_DUST\<rparr>) (voteOptions r))
        else Inr outputs))"

definition appendFixedPrecision :: "u64 \<Rightarrow> BitIO \<Rightarrow> BitIO result" where
  "appendFixedPrecision value stream = bindE (makeFixedPrecision value) (\<lambda>bits. appendBits_stream bits stream)"

definition append3B40 :: "string \<Rightarrow> BitIO \<Rightarrow> BitIO result" where
  "append3B40 text stream = bindE (make3B40String text) (\<lambda>bits. appendBits_stream bits stream)"

text \<open>The five sections of \<open>encode\<close>; those that use outputs advance \<open>nextOutput\<close>, an \<^verbatim>\<open>unsigned int\<close>.\<close>

fun encode_signers :: "Signer list \<Rightarrow> u32 \<times> BitIO \<Rightarrow> (u32 \<times> BitIO) result" where
  "encode_signers [] st = Inr st"
| "encode_signers (sg # sgs) (nextOutput, stream) =
     bindE (appendFixedPrecision (ucast (nextOutput + 1)) stream) (\<lambda>stream.
     bindE (appendFixedPrecision (sg_weight sg) stream) (\<lambda>stream.
     encode_signers sgs (nextOutput + 1, stream)))"

definition encode_approval :: "DigiAssetRules \<Rightarrow> u32 \<times> BitIO \<Rightarrow> (u32 \<times> BitIO) result" where
  "encode_approval r = (\<lambda>(nextOutput, stream).
     if signersRequired r > 0 then
       bindE (appendBits RULE_APPROVAL 4 stream) (\<lambda>stream.
       bindE (appendFixedPrecision (signersRequired r) stream) (\<lambda>stream.
       bindE (encode_signers (signers r) (nextOutput, stream)) (\<lambda>(nextOutput, stream).
       bindE (appendBits 0 8 stream) (\<lambda>stream. Inr (nextOutput, stream)))))
     else Inr (nextOutput, stream))"

definition encode_royalties :: "DigiAssetRules \<Rightarrow> u32 \<times> BitIO \<Rightarrow> (u32 \<times> BitIO) result" where
  "encode_royalties r = (\<lambda>(nextOutput, stream).
     if royalties r \<noteq> [] then
       bindE (if ExchangeRate_enabled (exchangeRate r) then
                bindE (appendBits RULE_ROYALTY_UNITS 4 stream) (\<lambda>stream.
                bindE (appendBits 1 1 stream) (\<lambda>stream.
                bindE (standardExchangeRateIndex r) (\<lambda>i. appendBits (of_nat i) 7 stream)))
              else appendBits RULE_ROYALTIES 4 stream) (\<lambda>stream.
       bindE (appendFixedPrecision (ucast nextOutput) stream) (\<lambda>stream.
       bindE (appendFixedPrecision (of_nat (length (royalties r))) stream) (\<lambda>stream.
       Inr (nextOutput + of_nat (length (royalties r)), stream))))
     else Inr (nextOutput, stream))"

definition encode_geofence :: "DigiAssetRules \<Rightarrow> BitIO \<Rightarrow> BitIO result" where
  "encode_geofence r stream =
     (if countryListIsBan r \<or> countryList r \<noteq> [] then
        bindE (appendBits (if countryListIsBan r then RULE_GEOFENCE_DENIED else RULE_GEOFENCE_ALLOWED) 4 stream) (\<lambda>stream.
        bindE (foldE (\<lambda>country stream.
                 if length country \<noteq> 3
                 then Inl (RulesException ''Country codes must be ISO 3166-1 alpha-3'')
                 else append3B40 (map tolower country) stream) (countryList r) stream) (\<lambda>stream.
        append3B40 ''...'' stream))
      else Inr stream)"

definition encode_vote :: "DigiAssetRules \<Rightarrow> u32 \<times> BitIO \<Rightarrow> (u32 \<times> BitIO) result" where
  "encode_vote r = (\<lambda>(nextOutput, stream).
     if voteOptions r \<noteq> [] \<or> expires r then
       bindE (guardE (\<not> rewritable r)
                (RulesException ''Votes and expiry can not be part of a rewritable rule asset'')) (\<lambda>_.
       bindE (guardE (length (voteOptions r) \<le> 127) (RulesException ''Maximum 127 vote options'')) (\<lambda>_.
       bindE (appendBits RULE_VOTE 4 stream) (\<lambda>stream.
       bindE (appendBits (if movable r then 1 else 0) 1 stream) (\<lambda>stream.
       bindE (appendBits (of_nat (length (voteOptions r))) 7 stream) (\<lambda>stream.
       bindE (appendFixedPrecision (if expires r then expiry r else 0) stream) (\<lambda>stream.
       if voteOptions r = [] \<or> usesStandardVoteAddresses r
       then bindE (appendFixedPrecision 0 stream) (\<lambda>stream. Inr (nextOutput, stream))
       else bindE (appendFixedPrecision (ucast (nextOutput + 1)) stream) (\<lambda>stream.
            Inr (nextOutput + of_nat (length (voteOptions r)), stream))))))))
     else Inr (nextOutput, stream))"

definition encode_deflation :: "DigiAssetRules \<Rightarrow> BitIO \<Rightarrow> BitIO result" where
  "encode_deflation r stream =
     (if deflate r \<noteq> 0
      then bindE (appendBits RULE_DEFLATION 4 stream) (appendFixedPrecision (deflate r))
      else Inr stream)"

function encode_padding :: "BitIO \<Rightarrow> BitIO result" where
  "encode_padding stream =
     (if getLength stream mod 8 \<noteq> 0 then bindE (appendBits 1 1 stream) encode_padding else Inr stream)"
  by pat_completeness auto
termination
proof (relation "measure (\<lambda>s. 8 - (blength s + 7) mod 8)", goal_cases)
  case (2 stream s')
  then have b: "blength s' = Suc (blength stream)" by (auto dest: appendBits_moves)
  have "(blength stream + 7) mod 8 < 7" using 2(1) unfolding getLength_def by presburger
  then have "(blength s' + 7) mod 8 = Suc ((blength stream + 7) mod 8)" unfolding b by presburger
  then show ?case by simp
qed simp

declare encode_padding.simps [simp del]

definition encode :: "DigiAssetRules \<Rightarrow> u32 \<Rightarrow> BitIO \<Rightarrow> BitIO result" where
  "encode r firstRuleOutput stream =
     (if noRules r then Inr stream
      else
        bindE (encode_approval r (firstRuleOutput, stream)) (\<lambda>st.
        bindE (encode_royalties r st) (\<lambda>(nextOutput, stream).
        bindE (encode_geofence r stream) (\<lambda>stream.
        bindE (encode_vote r (nextOutput, stream)) (\<lambda>(nextOutput, stream).
        bindE (encode_deflation r stream) (\<lambda>stream.
        bindE (appendBits RULE_END 4 stream) encode_padding))))))"

subsection \<open>Database serialization\<close>

definition flag_bit :: "bool \<Rightarrow> u8 \<Rightarrow> u8" where
  "flag_bit b k = (if b then k else 0)"

definition serialize_DigiAssetRules :: "u8 list \<Rightarrow> DigiAssetRules \<Rightarrow> u8 list" where
  "serialize_DigiAssetRules d r =
     (if rules_empty r then d
      else
        let d = serialize_u8 d (flag_bit (rewritable r) 128 + flag_bit (movable r) 64 + flag_bit (countryListIsBan r) 32);
            d = serialize_u8 d (flag_bit (signersRequired r > 0) 128 + flag_bit (royalties r \<noteq> []) 64 +
                  flag_bit (countryList r \<noteq> []) 32 + flag_bit (voteOptions r \<noteq> []) 16 +
                  flag_bit (expiry r \<noteq> EXPIRE_NEVER) 8 + flag_bit (deflate r \<noteq> 0) 4 +
                  flag_bit (ExchangeRate_enabled (exchangeRate r)) 2 + flag_bit (voteLabelsCID r \<noteq> []) 1);
            d = (if signersRequired r > 0
                 then serialize_vector serialize_Signer (serialize_u64 d (signersRequired r)) (signers r) else d);
            d = (if royalties r \<noteq> [] then serialize_vector serialize_Royalty d (royalties r) else d);
            d = (if countryList r \<noteq> [] then serialize_vector serialize_string d (countryList r) else d);
            d = (if voteOptions r \<noteq> [] then serialize_vector serialize_VoteOption d (voteOptions r) else d);
            d = (if expiry r \<noteq> EXPIRE_NEVER then serialize_u64 d (expiry r) else d);
            d = (if deflate r \<noteq> 0 then serialize_u64 d (deflate r) else d);
            d = (if ExchangeRate_enabled (exchangeRate r) then serialize_ExchangeRate d (exchangeRate r) else d);
            d = (if voteLabelsCID r \<noteq> [] then serialize_string d (voteLabelsCID r) else d)
        in d)"

text \<open>One optional section of the record: read when its flag is set.\<close>

definition read_if :: "bool \<Rightarrow> (nat \<Rightarrow> ('a \<times> nat) result) \<Rightarrow> ('a \<Rightarrow> DigiAssetRules \<Rightarrow> DigiAssetRules) \<Rightarrow>
    DigiAssetRules \<times> nat \<Rightarrow> (DigiAssetRules \<times> nat) result" where
  "read_if b des upd = (\<lambda>(r, i). if b then bindE (des i) (\<lambda>(v, i). Inr (upd v r, i)) else Inr (r, i))"

definition deserialize_DigiAssetRules :: "u8 list \<Rightarrow> nat \<Rightarrow> DigiAssetRules \<Rightarrow> (DigiAssetRules \<times> nat) result" where
  "deserialize_DigiAssetRules d i output =
     (if d = [] then Inr (DigiAssetRules_default, i)
      else
        bindE (deserialize_u8 d i) (\<lambda>(flags, i).
        if flags AND 0x1f \<noteq> 0 then Inl (OutOfRange ''Unknown serialization'')
        else
          let r = output\<lparr>noRules := False, rewritable := (flags AND 128 \<noteq> 0), movable := (flags AND 64 \<noteq> 0),
                    countryListIsBan := (flags AND 32 \<noteq> 0)\<rparr>
          in bindE (deserialize_u8 d i) (\<lambda>(flags, i).
             bindE (read_if (flags AND 128 \<noteq> 0) (deserialize_u64 d) (\<lambda>v. signersRequired_update (\<lambda>_. v)) (r, i)) (\<lambda>st.
             bindE (read_if (flags AND 128 \<noteq> 0) (deserialize_vector deserialize_Signer d) (\<lambda>v. signers_update (\<lambda>_. v)) st) (\<lambda>st.
             bindE (read_if (flags AND 64 \<noteq> 0) (deserialize_vector deserialize_Royalty d) (\<lambda>v. royalties_update (\<lambda>_. v)) st) (\<lambda>st.
             bindE (read_if (flags AND 32 \<noteq> 0) (deserialize_vector deserialize_string d) (\<lambda>v. countryList_update (\<lambda>_. v)) st) (\<lambda>st.
             bindE (read_if (flags AND 16 \<noteq> 0) (deserialize_vector deserialize_VoteOption d) (\<lambda>v. voteOptions_update (\<lambda>_. v)) st) (\<lambda>st.
             bindE (read_if (flags AND 8 \<noteq> 0) (deserialize_u64 d) (\<lambda>v. expiry_update (\<lambda>_. v)) st) (\<lambda>st.
             bindE (read_if (flags AND 4 \<noteq> 0) (deserialize_u64 d) (\<lambda>v. deflate_update (\<lambda>_. v)) st) (\<lambda>st.
             bindE (read_if (flags AND 2 \<noteq> 0) (deserialize_ExchangeRate d) (\<lambda>v. exchangeRate_update (\<lambda>_. v)) st) (\<lambda>st.
             read_if (flags AND 1 \<noteq> 0) (deserialize_string d) (\<lambda>v. voteLabelsCID_update (\<lambda>_. v)) st)))))))))))"

end
