(* ===== verification/StreamCalculus.thy ===== *)
theory StreamCalculus
  imports Rules
begin

text \<open>
  A small calculus of writers and readers. \<open>writes f bl\<close> says that the encoder step \<open>f\<close> succeeds on
  every well-formed stream and appends exactly the bits \<open>bl\<close>; \<open>reads f bl v\<close> says that the decoder
  step \<open>f\<close>, when the bits \<open>bl\<close> are ahead, returns \<open>v\<close> and moves the cursor behind them. Both are
  closed under sequencing, so a format is proved section by section.
\<close>

definition appended :: "BitIO \<Rightarrow> bool list \<Rightarrow> BitIO \<Rightarrow> bool" where
  "appended s bl s' \<longleftrightarrow> bitio_inv s' \<and> position s' = position s \<and> to_bits s' = to_bits s @ bl"

definition writes :: "(BitIO \<Rightarrow> BitIO result) \<Rightarrow> bool list \<Rightarrow> bool" where
  "writes f bl \<longleftrightarrow> (\<forall>s. bitio_inv s \<longrightarrow> (\<exists>s'. f s = Inr s' \<and> appended s bl s'))"

definition reads :: "(BitIO \<Rightarrow> ('a \<times> BitIO) result) \<Rightarrow> bool list \<Rightarrow> 'a \<Rightarrow> bool" where
  "reads f bl v \<longleftrightarrow> (\<forall>s. ahead s bl \<longrightarrow> f s = Inr (v, skip_bits (length bl) s))"

subsection \<open>Writers\<close>

lemma writesI: "(\<And>s. bitio_inv s \<Longrightarrow> \<exists>s'. f s = Inr s' \<and> appended s bl s') \<Longrightarrow> writes f bl"
  by (simp add: writes_def)

lemma writesD: "writes f bl \<Longrightarrow> bitio_inv s \<Longrightarrow> \<exists>s'. f s = Inr s' \<and> appended s bl s'"
  by (simp add: writes_def)

lemma writes_got: "writes f bl \<Longrightarrow> f s = Inr s' \<Longrightarrow> bitio_inv s \<Longrightarrow> appended s bl s'"
  using writesD[of f bl s] by auto

lemma writes_Inr [intro]: "writes Inr []"
  by (simp add: writes_def appended_def)

lemma writes_bind [intro]:
  assumes "writes f a" "writes g b"
  shows "writes (\<lambda>s. bindE (f s) g) (a @ b)"
proof (rule writesI)
  fix s assume s: "bitio_inv s"
  obtain s1 where s1: "f s = Inr s1" "appended s a s1" using writesD[OF assms(1) s] by blast
  then have "bitio_inv s1" by (simp add: appended_def)
  then obtain s2 where "g s1 = Inr s2" "appended s1 b s2" using writesD[OF assms(2)] by blast
  then show "\<exists>s'. bindE (f s) g = Inr s' \<and> appended s (a @ b) s'" using s1 by (simp add: appended_def)
qed

lemma writes_bits: "field_ok n v \<Longrightarrow> writes (appendBits v n) (val_bits n v)"
  using appendBits_spec[of _ n v] by (intro writesI) (fastforce simp: appended_def field_ok_def)

lemma writes_stream: "bitio_inv b \<Longrightarrow> writes (appendBits_stream b) (to_bits b)"
  using appendBits_stream_spec[of b] by (intro writesI) (fastforce simp: appended_def)

lemma writes_made:
  assumes "make_fn v = Inr b" "holds b bl"
  shows "writes (\<lambda>s. bindE (make_fn v) (\<lambda>b. appendBits_stream b s)) bl"
  using assms writes_stream[of b] by (simp add: holds_def)

lemma writes_foldE:
  "(\<And>x. x \<in> set xs \<Longrightarrow> writes (f x) (g x)) \<Longrightarrow> writes (foldE f xs) (concat (map g xs))"
proof (induction xs)
  case (Cons x xs)
  have "foldE f (x # xs) = (\<lambda>s. bindE (f x s) (foldE f xs))" by (simp add: fun_eq_iff)
  then show ?case using writes_bind[of "f x" "g x" "foldE f xs"] Cons by simp
qed auto

subsection \<open>Readers\<close>

lemma readsD: "reads f bl v \<Longrightarrow> ahead s bl \<Longrightarrow> f s = Inr (v, skip_bits (length bl) s)"
  by (simp add: reads_def)

lemma reads_bits: "field_ok n v \<Longrightarrow> reads (getBits n) (val_bits n v) v"
  by (simp add: reads_def ahead_get)

lemma reads_bind:
  assumes "reads f a v" "reads (g v) b w"
  shows "reads (\<lambda>s. bindE (f s) (\<lambda>(v, s). g v s)) (a @ b) w"
  using assms by (auto simp: reads_def ahead_append_iff)

lemma reads_return: "reads f a v \<Longrightarrow> reads (\<lambda>s. bindE (f s) (\<lambda>(v, s). Inr (h v, s))) a (h v)"
  by (auto simp: reads_def)

text \<open>A codec writes its format and reads it back.\<close>

context codec begin

lemma codec_writes: "valid v \<Longrightarrow> writes (\<lambda>s. bindE (make v) (\<lambda>b. appendBits_stream b s)) (image v)"
  using make_law[of v] writes_made[of make v] by blast

lemma codec_reads: "valid v \<Longrightarrow> reads get (image v) v"
  using get_law by (simp add: reads_def)

end

abbreviation fp_bits :: "u64 \<Rightarrow> bool list" where
  "fp_bits \<equiv> made makeFixedPrecision"

lemma writes_fp: "fp_valid v \<Longrightarrow> writes (appendFixedPrecision v) (fp_bits v)"
  using fp.codec_writes[of v] by (simp add: appendFixedPrecision_def[abs_def])

lemma reads_fp: "fp_valid v \<Longrightarrow> reads getFixedPrecision (fp_bits v) v"
  by (rule fp.codec_reads)

lemma writes_3b40: "tb40_chars m \<Longrightarrow> writes (append3B40 m) (tb40_image m)"
  using tb40.codec_writes[of m "length m"] by (simp add: append3B40_def[abs_def])

lemma reads_3b40: "tb40_chars m \<Longrightarrow> reads (get3B40String (length m)) (tb40_image m) m"
  using tb40.codec_reads[of m "length m"] by simp

lemma fp_valid_small: "unat v \<le> 9999999999999999 \<Longrightarrow> fp_valid v"
  by (auto simp: fp_valid_def word_le_nat_alt)

lemma fp_bits_length: "fp_valid v \<Longrightarrow> \<exists>k. 1 \<le> k \<and> k \<le> 7 \<and> length (fp_bits v) = 8 * k"
proof -
  assume "fp_valid v"
  then obtain b where b: "makeFixedPrecision v = Inr b" "fp_carries b v" using makeFixedPrecision_carries by blast
  then obtain k m e where f: "fp_ok k m e" "holds b (fields_image (fp_fields k m e))" by (auto simp: fp_carries_def)
  have k: "k = 1 \<or> k = 2 \<or> k = 3 \<or> k = 4 \<or> k = 5 \<or> k = 6 \<or> k = 7" using f(1) by (auto simp: fp_ok_def)
  have "length (fields_image (fp_fields k m e)) = 8 * k" using k by (auto simp: fp_fields_def)
  then show ?thesis using made_holds[of makeFixedPrecision v, OF b(1) f(2)] f(1) by (intro exI[of _ k]) (simp add: fp_ok_def)
qed

end
