(* ===== verification/Rules_Format.thy ===== *)
theory Rules_Format
  imports StreamCalculus
begin

text \<open>
  The format of the rules section. Every section of the encoder has an image, the exact bits it
  writes; the encoder is shown to write the image and the decoder to read it back into the field
  of the rules it came from. The sections compose to the round trip of the whole rules section.
\<close>

unbundle bit_operations_syntax

subsection \<open>The outputs of the transaction the rules refer to\<close>

fun outputs_at :: "vout_t list \<Rightarrow> nat \<Rightarrow> RuleOutput list \<Rightarrow> bool" where
  "outputs_at vout n [] \<longleftrightarrow> n \<le> length vout"
| "outputs_at vout n (x # xs) \<longleftrightarrow>
     n < length vout \<and> spk_addresses (vout ! n) \<noteq> [] \<and> hd (spk_addresses (vout ! n)) = ro_address x \<and>
     valueS (vout ! n) = ro_sats x \<and> outputs_at vout (Suc n) xs"

lemma outputs_at_append:
  "outputs_at vout n (xs @ ys) \<longleftrightarrow> outputs_at vout n xs \<and> outputs_at vout (n + length xs) ys"
proof (induction xs arbitrary: n)
  case Nil
  have "outputs_at vout n ys \<Longrightarrow> n \<le> length vout" by (cases ys) auto
  then show ?case by auto
next
  case (Cons x xs)
  then show ?case by auto
qed

lemma outputs_at_length: "outputs_at vout n xs \<Longrightarrow> n + length xs \<le> length vout"
  by (induction xs arbitrary: n) fastforce+

lemma foldE_outputs:
  assumes "outputs_at vout n outs"
    and "\<And>v acc. spk_addresses v \<noteq> [] \<Longrightarrow> f v acc = Inr (acc @ [g (hd (spk_addresses v)) (valueS v)])"
  shows "foldE (\<lambda>i acc. bindE (vec_get vout i) (\<lambda>v. f v acc)) [n..<n + length outs] acc =
    Inr (acc @ map (\<lambda>x. g (ro_address x) (ro_sats x)) outs)"
  using assms(1)
proof (induction outs arbitrary: n acc)
  case (Cons x xs)
  have "[n..<n + length (x # xs)] = n # [Suc n..<Suc n + length xs]"
    by (simp add: upt_conv_Cons del: upt_Suc)
  then show ?case using Cons.prems Cons.IH[of "Suc n"] assms(2) by (simp del: upt_Suc)
qed simp

lemma output_range_small:
  "n + k < 2 ^ 32 \<Longrightarrow> output_range (of_nat n) (of_nat k) = [n..<n + k]"
proof -
  assume "n + k < 2 ^ 32"
  then have "unat (of_nat n :: u32) = n" "unat (of_nat (n + k) :: u32) = n + k"
    by (simp_all add: unat_of_nat take_bit_nat_eq_self del: of_nat_add)
  then show ?thesis by (simp add: output_range_def)
qed

lemma unat_of_nat32: "n < 2 ^ 32 \<Longrightarrow> unat (of_nat n :: u32) = n"
  by (simp add: unat_of_nat take_bit_nat_eq_self)

lemma ucast_of_nat32:
  assumes "n < 2 ^ 32" shows "ucast (of_nat n :: u32) = (of_nat n :: u64)"
proof -
  have "unat (ucast (of_nat n :: u32) :: u64) = n"
    using unat_of_nat32[OF assms] assms by (simp add: unsigned_ucast_eq take_bit_nat_eq_self)
  moreover have "unat (of_nat n :: u64) = n" using assms by (intro unat_of_nat64) simp
  ultimately show ?thesis by (simp add: word_unat_eq_iff)
qed

lemma ucast_to32:
  assumes "n < 2 ^ 32" shows "ucast (of_nat n :: u64) = (of_nat n :: u32)"
proof -
  have "unat (of_nat n :: u64) = n" using assms by (intro unat_of_nat64) simp
  then have "unat (ucast (of_nat n :: u64) :: u32) = n"
    using assms by (simp add: unsigned_ucast_eq take_bit_nat_eq_self)
  then show ?thesis using unat_of_nat32[OF assms] by (simp add: word_unat_eq_iff)
qed

subsection \<open>Approval\<close>

definition output_index :: "nat \<Rightarrow> bool list" where
  "output_index n = fp_bits (of_nat n)"

fun signers_image :: "nat \<Rightarrow> Signer list \<Rightarrow> bool list" where
  "signers_image n [] = []"
| "signers_image n (x # xs) = output_index (n + 1) @ fp_bits (sg_weight x) @ signers_image (Suc n) xs"

definition approval_image :: "DigiAssetRules \<Rightarrow> nat \<Rightarrow> bool list" where
  "approval_image r n = fp_bits (signersRequired r) @ signers_image n (signers r) @ val_bits 8 0"

definition max_output :: nat where
  "max_output = 33554431"

definition signer_outputs :: "Signer list \<Rightarrow> RuleOutput list" where
  "signer_outputs = map (\<lambda>x. \<lparr>ro_address = sg_address x, ro_sats = DIGIBYTE_DUST\<rparr>)"

lemma output_index_valid: "n \<le> max_output \<Longrightarrow> fp_valid (of_nat n)"
  by (rule fp_valid_small) (simp add: max_output_def unat_of_nat64)

lemma zero_image: "fp_bits 0 = val_bits 8 0"
  using append_holds[OF holds_empty, of 8 0]
  by (auto simp: makeFixedPrecision_def checkValueRange_def made_def holds_def field_ok_def fits_def)

lemma encode_signers_image:
  assumes "list_all (\<lambda>x. fp_valid (sg_weight x)) xs" "n + length xs \<le> max_output" "bitio_inv s"
  shows "\<exists>s'. encode_signers xs (of_nat n, s) = Inr (of_nat (n + length xs), s') \<and> appended s (signers_image n xs) s'"
  using assms
proof (induction xs arbitrary: n s)
  case Nil
  then show ?case by (simp add: appended_def)
next
  case (Cons x xs)
  have n: "n + 1 \<le> max_output" "n + 1 < 2 ^ 32" using Cons.prems(2) by (auto simp: max_output_def)
  have u: "ucast (of_nat n + 1 :: u32) = (of_nat (n + 1) :: u64)"
    using ucast_of_nat32[OF n(2)] by (simp add: add.commute)
  obtain s1 where s1: "appendFixedPrecision (of_nat (n + 1)) s = Inr s1" "appended s (output_index (n + 1)) s1"
    using writesD[OF writes_fp[OF output_index_valid[OF n(1)]] Cons.prems(3)] by (auto simp: output_index_def)
  obtain s2 where s2: "appendFixedPrecision (sg_weight x) s1 = Inr s2" "appended s1 (fp_bits (sg_weight x)) s2"
    using writesD[OF writes_fp, of "sg_weight x" s1] Cons.prems(1) s1(2) by (auto simp: appended_def)
  obtain s3 where "encode_signers xs (of_nat (Suc n), s2) = Inr (of_nat (Suc n + length xs), s3)"
      "appended s2 (signers_image (Suc n) xs) s3"
    using Cons.IH[of "Suc n" s2] Cons.prems s2(2) by (auto simp: appended_def)
  then show ?case using s1 s2 u by (simp add: appended_def add.commute)
qed

lemma encode_approval_image:
  assumes "signersRequired r \<noteq> 0" "fp_valid (signersRequired r)" "list_all (\<lambda>x. fp_valid (sg_weight x)) (signers r)"
    "n + length (signers r) \<le> max_output" "bitio_inv s"
  shows "\<exists>s'. encode_approval r (of_nat n, s) = Inr (of_nat (n + length (signers r)), s') \<and>
    appended s (val_bits 4 0 @ approval_image r n) s'"
proof -
  obtain s1 where s1: "appendBits 0 4 s = Inr s1" "appended s (val_bits 4 0) s1"
    using writesD[OF writes_bits[of 4 0] assms(5)] by (auto simp: field_ok_def fits_def)
  obtain s2 where s2: "appendFixedPrecision (signersRequired r) s1 = Inr s2" "appended s1 (fp_bits (signersRequired r)) s2"
    using writesD[OF writes_fp[OF assms(2)], of s1] s1(2) by (auto simp: appended_def)
  obtain s3 where s3: "encode_signers (signers r) (of_nat n, s2) = Inr (of_nat (n + length (signers r)), s3)"
      "appended s2 (signers_image n (signers r)) s3"
    using encode_signers_image[OF assms(3,4), of s2] s2(2) by (auto simp: appended_def)
  obtain s4 where "appendBits 0 8 s3 = Inr s4" "appended s3 (val_bits 8 0) s4"
    using writesD[OF writes_bits[of 8 0], of s3] s3(2) by (auto simp: field_ok_def fits_def appended_def)
  then show ?thesis
    using s1 s2 s3 assms(1) by (simp add: encode_approval_def word_gt_0 appended_def approval_image_def)
qed

text \<open>An output number is read again after its first bit showed that it is not a range.\<close>

lemma peek_output_index:
  assumes "ahead s (output_index n @ bl)" "n \<le> max_output"
  shows "getBits 1 s = Inr (0, skip_bits 1 s)" "movePositionBy (skip_bits 1 s) (-1) = Inr s"
    "getFixedPrecision s = Inr (of_nat n, skip_bits (length (output_index n)) s)"
    "ahead (skip_bits (length (output_index n)) s) bl"
proof -
  have n: "(of_nat n :: u64) < 33554432"
    using assms(2) by (simp add: max_output_def word_less_nat_alt unat_of_nat64)
  obtain r where r: "output_index n = False # r" using fp_first_bit[OF n] by (auto simp: output_index_def)
  have "val_bits 1 0 = [False]" by (simp add: val_bits_def)
  then have a1: "ahead s (val_bits 1 0 @ r @ bl)" using assms(1) r by simp
  then show "getBits 1 s = Inr (0, skip_bits 1 s)"
    using ahead_get_append(1)[OF a1] by (simp add: field_ok_def fits_def)
  have "position s + 1 \<le> blength s" using ahead_room[OF a1] by simp
  then show "movePositionBy (skip_bits 1 s) (-1) = Inr s"
    by (simp add: movePositionBy_def movePositionTo_def checkPosition_def skip_bits_def)
  show "getFixedPrecision s = Inr (of_nat n, skip_bits (length (output_index n)) s)"
    using assms readsD[OF reads_fp[OF output_index_valid[OF assms(2)]]]
    by (auto simp: output_index_def ahead_append_iff)
  show "ahead (skip_bits (length (output_index n)) s) bl" using assms(1) by (simp add: ahead_append_iff)
qed

lemma decodeApproval_loop_image:
  assumes "list_all (\<lambda>x. fp_valid (sg_weight x)) xs" "outputs_at vout n (signer_outputs xs)"
    "n + length xs \<le> max_output" "ahead s (signers_image n xs @ val_bits 8 0)"
  shows "decodeApproval_loop vout sgs s = Inr (sgs @ xs, skip_bits (length (signers_image n xs) + 8) s)"
  using assms
proof (induction xs arbitrary: n s sgs)
  case Nil
  have z: "output_index 0 = val_bits 8 0" by (simp add: output_index_def zero_image)
  have "ahead s (output_index 0 @ [])" using Nil by (simp add: z)
  note p = peek_output_index[OF this, unfolded z]
  show ?case using p by (subst decodeApproval_loop.simps) (simp add: max_output_def)
next
  case (Cons x xs)
  let ?n = "n + 1"
  have n: "?n \<le> max_output" using Cons.prems(3) by simp
  have a: "ahead s (output_index ?n @ fp_bits (sg_weight x) @ signers_image (Suc n) xs @ val_bits 8 0)"
    using Cons.prems(4) by simp
  note p = peek_output_index[OF a n]
  let ?s1 = "skip_bits (length (output_index ?n)) s"
  have w: "getFixedPrecision ?s1 = Inr (sg_weight x, skip_bits (length (fp_bits (sg_weight x))) ?s1)"
    using readsD[OF reads_fp[of "sg_weight x"]] p(4) Cons.prems(1) by (simp add: ahead_append_iff)
  have nz: "(of_nat ?n :: u64) \<noteq> 0"
    using n unat_of_nat64[of ?n] by (auto simp: max_output_def simp flip: unat_eq_zero)
  have idx: "unat (ucast ((of_nat ?n :: u64) - 1) :: u32) = n"
    using n ucast_to32[of n] unat_of_nat32[of n] by (simp add: max_output_def)
  have out: "n < length vout" "spk_addresses (vout ! n) \<noteq> []" "hd (spk_addresses (vout ! n)) = sg_address x"
      "outputs_at vout (Suc n) (signer_outputs xs)"
    using Cons.prems(2) by (auto simp: signer_outputs_def)
  have ca: "checked_address (vout ! n) msg = Inr (sg_address x)" for msg
    using out by (simp add: checked_address_def first_address_def hd_conv_nth)
  have IH: "decodeApproval_loop vout (sgs @ [x]) (skip_bits (length (fp_bits (sg_weight x))) ?s1) =
      Inr ((sgs @ [x]) @ xs, skip_bits (length (signers_image (Suc n) xs) + 8) (skip_bits (length (fp_bits (sg_weight x))) ?s1))"
    using Cons.IH[OF _ out(4)] Cons.prems(1,3) p(4) by (simp add: ahead_append_iff)
  show ?case
    using p(1,2,3) nz idx out(1) ca w IH
    by (subst decodeApproval_loop.simps, cases x) (simp add: Let_def add.assoc)
qed

lemma decodeApproval_image:
  assumes "fp_valid (signersRequired q)" "list_all (\<lambda>x. fp_valid (sg_weight x)) (signers q)"
    "outputs_at vout n (signer_outputs (signers q))" "n + length (signers q) \<le> max_output"
    "ahead s (approval_image q n)" "signers r = []"
  shows "decodeApproval vout (r, s) =
    Inr (r\<lparr>signersRequired := signersRequired q, signers := signers q\<rparr>, skip_bits (length (approval_image q n)) s)"
proof -
  have g: "getFixedPrecision s = Inr (signersRequired q, skip_bits (length (fp_bits (signersRequired q))) s)"
    using readsD[OF reads_fp[OF assms(1)]] assms(5) by (simp add: approval_image_def ahead_append_iff)
  have "ahead (skip_bits (length (fp_bits (signersRequired q))) s) (signers_image n (signers q) @ val_bits 8 0)"
    using assms(5) by (simp add: approval_image_def ahead_append_iff)
  from decodeApproval_loop_image[OF assms(2,3,4) this, of "[]"] show ?thesis
    using g assms(6) by (simp add: decodeApproval_def approval_image_def add.assoc)
qed


subsection \<open>Royalties\<close>

definition units_image :: "nat \<Rightarrow> bool list" where
  "units_image i = val_bits 1 1 @ val_bits 7 (of_nat i)"

definition royalties_image :: "nat \<Rightarrow> nat \<Rightarrow> bool list" where
  "royalties_image n k = output_index n @ output_index k"

definition royalty_outputs :: "Royalty list \<Rightarrow> RuleOutput list" where
  "royalty_outputs = map (\<lambda>x. \<lparr>ro_address = ry_address x, ro_sats = ry_amount x\<rparr>)"

definition rate_index :: "DigiAssetRules \<Rightarrow> nat" where
  "rate_index r = (case standardExchangeRateIndex r of Inr i \<Rightarrow> i | Inl _ \<Rightarrow> 0)"

definition standard_rate :: "ExchangeRate \<Rightarrow> bool" where
  "standard_rate e \<longleftrightarrow> e \<in> set standardExchangeRates"

lemma rates_distinct:
  "list_all (\<lambda>i. list_all (\<lambda>j. er_address (standardExchangeRates ! i) = er_address (standardExchangeRates ! j) \<and>
      er_index (standardExchangeRates ! i) = er_index (standardExchangeRates ! j) \<longrightarrow> i = j) [0..<20]) [0..<20]"
  by code_simp

lemma rate_index_props:
  assumes "standard_rate (exchangeRate r)"
  shows "standardExchangeRateIndex r = Inr (rate_index r)" "rate_index r < 20"
    "standardExchangeRates ! rate_index r = exchangeRate r"
proof -
  obtain i where i: "i < 20" "standardExchangeRates ! i = exchangeRate r"
    using assms standard_tables(1) by (auto simp: standard_rate_def in_set_conv_nth standardExchangeRatesCount_def)
  let ?P = "\<lambda>i. er_address (standardExchangeRates ! i) = er_address (exchangeRate r) \<and>
      er_index (standardExchangeRates ! i) = er_index (exchangeRate r)"
  have "List.find ?P [0..<20] \<noteq> None" using i by (auto simp: find_None_iff intro!: exI[of _ i])
  then obtain j where j: "List.find ?P [0..<20] = Some j" by blast
  then have jj: "j < 20" "?P j" by (auto simp: find_Some_iff)
  then have "j = i" using rates_distinct i by (auto simp: list_all_iff)
  then show "standardExchangeRateIndex r = Inr (rate_index r)" "rate_index r < 20"
      "standardExchangeRates ! rate_index r = exchangeRate r"
    using j i by (simp_all add: rate_index_def standardExchangeRateIndex_def standardExchangeRatesCount_def)
qed

definition royalty_code :: "DigiAssetRules \<Rightarrow> bool list" where
  "royalty_code r = (if ExchangeRate_enabled (exchangeRate r) then val_bits 4 9 @ units_image (rate_index r)
     else val_bits 4 1)"

lemma small_field: "i < 2 ^ n \<Longrightarrow> 0 < n \<Longrightarrow> n < 64 \<Longrightarrow> field_ok n (of_nat i)"
proof -
  assume i: "i < 2 ^ n" "0 < n" "n < 64"
  then have "(2::nat) ^ n < 2 ^ 64" by (intro power_strict_increasing) auto
  then have "unat (of_nat i :: u64) = i" using i by (intro unat_of_nat64) simp
  then show ?thesis using i by (intro field_okI) auto
qed

lemma encode_royalties_image:
  assumes "royalties r \<noteq> []" "ExchangeRate_enabled (exchangeRate r) \<longrightarrow> standard_rate (exchangeRate r)"
    "n + length (royalties r) \<le> max_output" "bitio_inv s"
  shows "\<exists>s'. encode_royalties r (of_nat n, s) = Inr (of_nat (n + length (royalties r)), s') \<and>
    appended s (royalty_code r @ royalties_image n (length (royalties r))) s'"
proof -
  let ?k = "length (royalties r)"
  let ?f = "\<lambda>stream. if ExchangeRate_enabled (exchangeRate r) then
                bindE (appendBits 9 4 stream) (\<lambda>stream.
                bindE (appendBits 1 1 stream) (\<lambda>stream.
                bindE (standardExchangeRateIndex r) (\<lambda>i. appendBits (of_nat i) 7 stream)))
              else appendBits 1 4 stream"
  have w: "writes ?f (royalty_code r)"
  proof (cases "ExchangeRate_enabled (exchangeRate r)")
    case True
    then have ri: "standardExchangeRateIndex r = Inr (rate_index r)" "rate_index r < 2 ^ 7"
      using assms(2) rate_index_props[of r] by auto
    have "writes (\<lambda>s. bindE (appendBits 9 4 s) (\<lambda>s. bindE (appendBits 1 1 s) (appendBits (of_nat (rate_index r)) 7)))
        (val_bits 4 9 @ val_bits 1 1 @ val_bits 7 (of_nat (rate_index r)))"
      using ri(2) by (intro writes_bind writes_bits small_field) (auto simp: field_ok_def fits_def)
    then show ?thesis using True ri(1) by (simp add: royalty_code_def units_image_def)
  next
    case False
    then show ?thesis using writes_bits[of 4 1] by (simp add: royalty_code_def field_ok_def fits_def)
  qed
  have n: "n \<le> max_output" "?k \<le> max_output" "n < 2 ^ 32" using assms(3) by (auto simp: max_output_def)
  have "writes (\<lambda>s. bindE (?f s) (\<lambda>s. bindE (appendFixedPrecision (of_nat n) s) (appendFixedPrecision (of_nat ?k))))
      (royalty_code r @ output_index n @ output_index ?k)"
    unfolding output_index_def by (intro writes_bind w writes_fp output_index_valid n)
  from writesD[OF this assms(4)] show ?thesis
    using assms(1) ucast_of_nat32[OF n(3)]
    by (auto simp: encode_royalties_def royalties_image_def bindE_Inr_iff)
qed

lemma decodeRoyaltyUnits_image:
  assumes "standard_rate (exchangeRate q)" "ahead s (units_image (rate_index q))"
  shows "decodeRoyaltyUnits vout (r, s) = Inr ((r\<lparr>exchangeRate := exchangeRate q\<rparr>, skip_bits 8 s), [])"
proof -
  have f: "field_ok 1 1" "field_ok 7 (of_nat (rate_index q))"
    using rate_index_props(2)[OF assms(1)] small_field[of "rate_index q" 7] by (simp_all add: field_ok_def fits_def)
  have u: "unat (of_nat (rate_index q) :: u64) = rate_index q"
    using rate_index_props(2)[OF assms(1)] by (intro unat_of_nat64) simp
  show ?thesis
    using assms(2) f u rate_index_props[OF assms(1)] standard_tables(1)
    by (auto simp: decodeRoyaltyUnits_def units_image_def ahead_append_iff ahead_get standardExchangeRatesCount_def)
qed

lemma decodeRoyalties_image:
  assumes "outputs_at vout n (royalty_outputs rys)" "n + length rys \<le> max_output"
    "ahead s (royalties_image n (length rys))" "royalties r = []"
  shows "decodeRoyalties vout (r, s) = Inr (r\<lparr>royalties := rys\<rparr>, skip_bits (length (royalties_image n (length rys))) s)"
proof -
  let ?k = "length rys"
  have n: "n \<le> max_output" "?k \<le> max_output" "n < 2 ^ 32" "?k < 2 ^ 32" "n + ?k < 2 ^ 32"
    using assms(2) by (auto simp: max_output_def)
  have g: "getFixedPrecision s = Inr (of_nat n, skip_bits (length (output_index n)) s)"
      "getFixedPrecision (skip_bits (length (output_index n)) s) =
        Inr (of_nat ?k, skip_bits (length (output_index ?k)) (skip_bits (length (output_index n)) s))"
    using assms(3) readsD[OF reads_fp[OF output_index_valid[OF n(1)]]] readsD[OF reads_fp[OF output_index_valid[OF n(2)]]]
    by (auto simp: royalties_image_def ahead_append_iff output_index_def)
  have len: "length (royalty_outputs rys) = ?k" by (simp add: royalty_outputs_def)
  have "unat (of_nat n + of_nat ?k :: u32) = n + ?k" using unat_of_nat32[OF n(5)] by simp
  then have bound: "\<not> unat (of_nat n + of_nat ?k :: u32) > length vout"
    using outputs_at_length[OF assms(1)] len by simp
  have "foldE (\<lambda>outputNum rs. bindE (vec_get vout outputNum) (\<lambda>v.
            bindE (first_address v) (\<lambda>a. Inr (rs @ [\<lparr>ry_address = a, ry_amount = valueS v\<rparr>])))) [n..<n + ?k] [] =
      Inr ([] @ map (\<lambda>x. \<lparr>ry_address = ro_address x, ry_amount = ro_sats x\<rparr>) (royalty_outputs rys))"
    using foldE_outputs[OF assms(1), of _ "\<lambda>a v. \<lparr>ry_address = a, ry_amount = v\<rparr>" "[]", unfolded len]
    by (simp add: first_address_def hd_conv_nth)
  moreover have "map (\<lambda>x. \<lparr>ry_address = ro_address x, ry_amount = ro_sats x\<rparr>) (royalty_outputs rys) = rys"
    by (induction rys) (auto simp: royalty_outputs_def)
  ultimately show ?thesis
    using g bound assms(4) ucast_to32[OF n(3)] ucast_to32[OF n(4)] output_range_small[OF n(5)]
    by (simp add: decodeRoyalties_def Let_def royalties_image_def)
qed


subsection \<open>Geofence\<close>

definition country_ok :: "string \<Rightarrow> bool" where
  "country_ok c \<longleftrightarrow> length c = 3 \<and> set (map tolower c) \<subseteq> set BITIO_CHARSET_3B40 \<and>
     map toupper (map tolower c) = c \<and> c \<noteq> ''...''"

definition geofence_image :: "string list \<Rightarrow> bool list" where
  "geofence_image cs = concat (map (\<lambda>c. tb40_image (map tolower c)) cs) @ tb40_image ''...''"

lemma country_chars: "country_ok c \<Longrightarrow> tb40_chars (map tolower c)"
  by (simp add: country_ok_def tb40_chars_def)

lemma end_chars: "tb40_chars ''...''"
  by (simp add: tb40_chars_def BITIO_CHARSET_3B40_def)

lemma encode_geofence_writes:
  assumes "countryListIsBan r \<or> countryList r \<noteq> []" "list_all country_ok (countryList r)"
  shows "writes (encode_geofence r)
    (val_bits 4 (if countryListIsBan r then 3 else 2) @ geofence_image (countryList r))"
proof -
  let ?c = "if countryListIsBan r then 3 else 2 :: u64"
  have "field_ok 4 ?c" by (simp add: field_ok_def fits_def)
  moreover have "writes (foldE (\<lambda>country stream. if length country \<noteq> 3
        then Inl (RulesException ''Country codes must be ISO 3166-1 alpha-3'')
        else append3B40 (map tolower country) stream) (countryList r))
      (concat (map (\<lambda>c. tb40_image (map tolower c)) (countryList r)))" (is "writes (foldE ?f _) _")
  proof (rule writes_foldE)
    fix c assume "c \<in> set (countryList r)"
    then have ok: "country_ok c" using assms(2) by (simp add: list_all_iff)
    then have "?f c = append3B40 (map tolower c)" by (simp add: country_ok_def fun_eq_iff)
    then show "writes (?f c) (tb40_image (map tolower c))" using writes_3b40[OF country_chars[OF ok]] by simp
  qed
  ultimately have "writes (\<lambda>s. bindE (appendBits ?c 4 s) (\<lambda>s. bindE (foldE ?f (countryList r) s) (append3B40 ''...'')))
      (val_bits 4 ?c @ concat (map (\<lambda>c. tb40_image (map tolower c)) (countryList r)) @ tb40_image ''...'')"
    by (intro writes_bind writes_bits writes_3b40 end_chars)
  then show ?thesis using assms(1) by (simp add: encode_geofence_def[abs_def] geofence_image_def)
qed

lemma decodeGeofence_loop_image:
  assumes "list_all country_ok xs" "ahead s (geofence_image xs)"
  shows "decodeGeofence_loop cs s = Inr (cs @ xs, skip_bits (length (geofence_image xs)) s)"
  using assms
proof (induction xs arbitrary: cs s)
  case Nil
  have l: "length ''...'' = 3" by simp
  have "ahead s (tb40_image ''...'')" using Nil by (simp add: geofence_image_def)
  then have "get3B40String 3 s = Inr (''...'', skip_bits (length (tb40_image ''...'')) s)"
    using readsD[OF reads_3b40[OF end_chars]] unfolding l by blast
  then show ?case by (subst decodeGeofence_loop.simps) (simp add: geofence_image_def toupper_def)
next
  case (Cons x xs)
  have ok: "country_ok x" "length (map tolower x) = 3" using Cons.prems(1) by (auto simp: country_ok_def)
  have a: "ahead s (tb40_image (map tolower x))" "ahead (skip_bits (length (tb40_image (map tolower x))) s) (geofence_image xs)"
    using Cons.prems(2) by (auto simp: geofence_image_def ahead_append_iff)
  have "get3B40String 3 s = Inr (map tolower x, skip_bits (length (tb40_image (map tolower x))) s)"
    using readsD[OF reads_3b40[OF country_chars[OF ok(1)]] a(1)] unfolding ok(2) .
  then show ?case
    using Cons.IH[OF _ a(2), of "cs @ [x]"] Cons.prems(1) ok
    by (subst decodeGeofence_loop.simps) (simp add: Let_def geofence_image_def country_ok_def)
qed

lemma decodeGeofence_image:
  assumes "list_all country_ok xs" "ahead s (geofence_image xs)" "countryList r = []"
  shows "decodeGeofence (r, s) = Inr (r\<lparr>countryList := xs\<rparr>, skip_bits (length (geofence_image xs)) s)"
  using decodeGeofence_loop_image[OF assms(1,2), of "[]"] assms(3) by (simp add: decodeGeofence_def)

subsection \<open>Votes and expiry\<close>

definition vote_outputs :: "VoteOption list \<Rightarrow> RuleOutput list" where
  "vote_outputs = map (\<lambda>x. \<lparr>ro_address = vo_address x, ro_sats = DIGIBYTE_DUST\<rparr>)"

definition custom_votes :: "DigiAssetRules \<Rightarrow> bool" where
  "custom_votes r \<longleftrightarrow> voteOptions r \<noteq> [] \<and> \<not> usesStandardVoteAddresses r"

definition vote_image :: "DigiAssetRules \<Rightarrow> nat \<Rightarrow> bool list" where
  "vote_image r n = val_bits 1 (if movable r then 1 else 0) @ val_bits 7 (of_nat (length (voteOptions r))) @
     fp_bits (if expires r then expiry r else 0) @ output_index (if custom_votes r then n + 1 else 0)"

definition vote_ok :: "DigiAssetRules \<Rightarrow> bool" where
  "vote_ok r \<longleftrightarrow> \<not> rewritable r \<and> length (voteOptions r) \<le> 127 \<and> list_all (\<lambda>x. vo_label x = []) (voteOptions r) \<and>
     (expires r \<longrightarrow> expiry r \<noteq> 0 \<and> fp_valid (expiry r))"

lemma fp_valid_0: "fp_valid 0"
  by (simp add: fp_valid_def)

lemma encode_vote_image:
  assumes "voteOptions r \<noteq> [] \<or> expires r" "vote_ok r" "n + length (voteOptions r) < max_output" "bitio_inv s"
  shows "\<exists>s'. encode_vote r (of_nat n, s) =
      Inr (of_nat (if custom_votes r then n + length (voteOptions r) else n), s') \<and>
    appended s (val_bits 4 4 @ vote_image r n) s'"
proof -
  let ?m = "if movable r then 1 else 0 :: u64" and ?k = "length (voteOptions r)"
  let ?e = "if expires r then expiry r else 0" and ?v = "if custom_votes r then n + 1 else 0"
  have n: "n + 1 \<le> max_output" "n + 1 < 2 ^ 32" using assms(3) by (auto simp: max_output_def)
  have e: "fp_valid ?e" using assms(2) fp_valid_0 by (simp add: vote_ok_def)
  have v: "fp_valid (of_nat ?v)" using output_index_valid[of ?v] n by simp
  have u: "ucast (of_nat n + 1 :: u32) = (of_nat (n + 1) :: u64)"
    using ucast_of_nat32[OF n(2)] by (simp add: add.commute)
  have "writes (\<lambda>s. bindE (appendBits 4 4 s) (\<lambda>s. bindE (appendBits ?m 1 s) (\<lambda>s. bindE (appendBits (of_nat ?k) 7 s)
      (\<lambda>s. bindE (appendFixedPrecision ?e s) (appendFixedPrecision (of_nat ?v))))))
    (val_bits 4 4 @ val_bits 1 ?m @ val_bits 7 (of_nat ?k) @ fp_bits ?e @ fp_bits (of_nat ?v))"
    using assms(2) e v
    by (intro writes_bind writes_bits writes_fp small_field) (auto simp: field_ok_def fits_def vote_ok_def)
  from writesD[OF this assms(4)] obtain s1 s2 s3 s4 s' where
    st: "appendBits 4 4 s = Inr s1" "appendBits ?m 1 s1 = Inr s2" "appendBits (of_nat ?k) 7 s2 = Inr s3"
      "appendFixedPrecision ?e s3 = Inr s4" "appendFixedPrecision (of_nat ?v) s4 = Inr s'"
    and ap: "appended s (val_bits 4 4 @ vote_image r n) s'"
    by (auto simp: bindE_Inr_iff vote_image_def output_index_def)
  have "encode_vote r (of_nat n, s) = Inr (of_nat (if custom_votes r then n + ?k else n), s')"
  proof (cases "custom_votes r")
    case True
    then have "voteOptions r \<noteq> []" "\<not> usesStandardVoteAddresses r" by (auto simp: custom_votes_def)
    then show ?thesis using st assms(1,2) True u by (simp add: encode_vote_def vote_ok_def)
  next
    case False
    then have "voteOptions r = [] \<or> usesStandardVoteAddresses r" by (simp add: custom_votes_def)
    then show ?thesis using st assms(1,2) False by (simp add: encode_vote_def vote_ok_def)
  qed
  then show ?thesis using ap by blast
qed

lemma decodeVote_custom:
  assumes "outputs_at vout n (vote_outputs xs)" "n + length xs < max_output" "list_all (\<lambda>x. vo_label x = []) xs" "xs \<noteq> []"
  shows "decodeVote_options vout (of_nat n) (length xs) [] = Inr xs"
proof -
  have n: "n < 2 ^ 31" "n < 2 ^ 32" "n + length xs < 2 ^ 32" using assms(2) by (auto simp: max_output_def)
  have u: "unat (of_nat n :: u32) = n" by (rule unat_of_nat32[OF n(2)])
  have si: "sint (of_nat n :: u32) = int n"
    using n(1) by (simp add: signed_of_nat signed_take_bit_int_eq_self)
  have len: "length (vote_outputs xs) = length xs" by (simp add: vote_outputs_def)
  have "foldE (\<lambda>outputNum os. bindE (vec_get vout outputNum) (\<lambda>v.
            bindE (checked_address v ''vote output has no address'') (\<lambda>a.
            Inr (os @ [\<lparr>vo_address = a, vo_label = []\<rparr>])))) [n..<n + length xs] [] =
      Inr ([] @ map (\<lambda>x. \<lparr>vo_address = ro_address x, vo_label = []\<rparr>) (vote_outputs xs))"
    using foldE_outputs[OF assms(1), of _ "\<lambda>a v. \<lparr>vo_address = a, vo_label = []\<rparr>" "[]", unfolded len]
    by (simp add: checked_address_def first_address_def hd_conv_nth)
  moreover have "map (\<lambda>x. \<lparr>vo_address = ro_address x, vo_label = []\<rparr>) (vote_outputs xs) = xs"
    using assms(3) by (induction xs) (auto simp: vote_outputs_def)
  moreover have "n + length xs \<le> length vout" using outputs_at_length[OF assms(1)] len by simp
  ultimately show ?thesis
    using si u output_range_small[OF n(3)] by (simp add: decodeVote_options_def)
qed

lemma decodeVote_standard:
  assumes "usesStandardVoteAddresses r" "list_all (\<lambda>x. vo_label x = []) (voteOptions r)"
  shows "decodeVote_options vout (-1) (length (voteOptions r)) [] = Inr (voteOptions r)"
proof -
  let ?k = "length (voteOptions r)"
  have k: "?k \<le> 50" and addr: "\<And>i. i < ?k \<Longrightarrow> vo_address (voteOptions r ! i) = standardVoteAddresses ! i"
    using assms(1) by (auto simp: usesStandardVoteAddresses_def standardVoteCount_def list_all_iff split: if_splits)
  have "foldE (\<lambda>i os. bindE (vec_get standardVoteAddresses i) (\<lambda>a. Inr (os @ [\<lparr>vo_address = a, vo_label = []\<rparr>]))) [0..<j] [] =
      Inr (take j (voteOptions r))" if "j \<le> ?k" for j
    using that
  proof (induction j)
    case (Suc j)
    have "voteOptions r ! j = \<lparr>vo_address = standardVoteAddresses ! j, vo_label = []\<rparr>"
      using addr[of j] Suc.prems assms(2) VoteOption.surjective[of "voteOptions r ! j"] by (simp add: list_all_length)
    then show ?case
      using Suc k standard_tables(2) by (simp add: foldE_append take_Suc_conv_app_nth standardVoteCount_def)
  qed simp
  from this[of ?k] show ?thesis using k by (simp add: decodeVote_options_def standardVoteCount_def)
qed


lemma decodeVoteAndExpiry_image:
  assumes "vote_ok q" "ahead s (vote_image q n)" "n + length (voteOptions q) < max_output"
    "custom_votes q \<longrightarrow> outputs_at vout n (vote_outputs (voteOptions q))"
    "\<not> rewritable r" "voteOptions r = []" "expiry r = EXPIRE_NEVER" "voteLabelsCID r = []"
  shows "decodeVoteAndExpiry vout cid (r, s) =
    Inr (r\<lparr>movable := movable q, expiry := expiry q, voteOptions := voteOptions q,
           voteLabelsCID := (if voteOptions q = [] then [] else cid)\<rparr>, skip_bits (length (vote_image q n)) s)"
proof -
  let ?m = "if movable q then 1 else 0 :: u64" and ?k = "length (voteOptions q)"
  let ?e = "if expires q then expiry q else 0" and ?v = "if custom_votes q then n + 1 else 0"
  have n: "?v \<le> max_output" "n < 2 ^ 32" using assms(3) by (auto simp: max_output_def)
  have k: "?k < 2 ^ 7" "unat (of_nat ?k :: u64) = ?k"
    using assms(1) unat_of_nat64[of ?k] by (auto simp: vote_ok_def)
  have e: "fp_valid ?e" using assms(1) fp_valid_0 by (simp add: vote_ok_def)
  have m: "field_ok 1 ?m" by (simp add: field_ok_def fits_def)
  have ms: "(?m = 1) = movable q" by simp
  have f7: "field_ok 7 (of_nat ?k)" using k(1) by (intro small_field) simp_all
  define s1 s2 s3 where "s1 = skip_bits 1 s" and "s2 = skip_bits 7 s1" and "s3 = skip_bits (length (fp_bits ?e)) s2"
  have a: "ahead s (val_bits 1 ?m)" "ahead s1 (val_bits 7 (of_nat ?k))" "ahead s2 (fp_bits ?e)" "ahead s3 (output_index ?v)"
    using assms(2) by (auto simp: vote_image_def ahead_append_iff s1_def s2_def s3_def)
  have g: "getBits 1 s = Inr (?m, s1)" "getBits 7 s1 = Inr (of_nat ?k, s2)"
      "getFixedPrecision s2 = Inr (?e, s3)"
      "getFixedPrecision s3 = Inr (of_nat ?v, skip_bits (length (output_index ?v)) s3)"
    using ahead_get[OF a(1) m] ahead_get[OF a(2) f7] readsD[OF reads_fp[OF e] a(3)]
      readsD[OF reads_fp[OF output_index_valid[OF n(1)]], of s3] a(4)
    by (simp_all add: s1_def s2_def s3_def output_index_def)
  have fin: "skip_bits (length (output_index ?v)) s3 = skip_bits (length (vote_image q n)) s"
    by (simp add: s1_def s2_def s3_def vote_image_def add.assoc)
  have ex: "(if ?e \<noteq> 0 then ?e else EXPIRE_NEVER) = expiry q"
    using assms(1) by (auto simp: vote_ok_def expires_def)
  have start: "ucast (of_nat ?v - 1 :: u64) = (if custom_votes q then of_nat n else - 1 :: u32)"
    using ucast_to32[OF n(2)] by (simp add: word_unat_eq_iff unsigned_ucast_eq unsigned_minus_1_eq_mask)
  have opts: "?k \<noteq> 0 \<longrightarrow> decodeVote_options vout (if custom_votes q then of_nat n else - 1) ?k [] = Inr (voteOptions q)"
    using decodeVote_custom[of vout n "voteOptions q"] decodeVote_standard[of q vout] assms(1,3,4)
    by (auto simp: custom_votes_def vote_ok_def)
  define r1 where "r1 = (if ?e \<noteq> 0 then r\<lparr>movable := (?m = 1), expiry := ?e\<rparr> else r\<lparr>movable := (?m = 1)\<rparr>)"
  have r1: "r1 = r\<lparr>movable := movable q, expiry := expiry q\<rparr>"
    unfolding r1_def ms using ex assms(7) by (auto simp: expires_def)
  have "decodeVoteAndExpiry vout cid (r, s) =
      bindE (if ?k = 0 then Inr r1
        else bindE (decodeVote_options vout (if custom_votes q then of_nat n else - 1) ?k (voteOptions r1)) (\<lambda>os.
             Inr (r1\<lparr>voteOptions := os, voteLabelsCID := cid\<rparr>)))
        (\<lambda>r. Inr (r, skip_bits (length (vote_image q n)) s))"
    using assms(5) unfolding decodeVoteAndExpiry_def r1_def
    by (simp only: g k(2) start fin Let_def bindE_simps split_conv if_False if_cancel)
  also have "\<dots> = Inr (r\<lparr>movable := movable q, expiry := expiry q, voteOptions := voteOptions q,
           voteLabelsCID := (if voteOptions q = [] then [] else cid)\<rparr>, skip_bits (length (vote_image q n)) s)"
    using opts assms(6,8) unfolding r1 by (cases "voteOptions q = []") simp_all
  finally show ?thesis .
qed


subsection \<open>The whole rules section\<close>

definition royalty_count :: "DigiAssetRules \<Rightarrow> nat" where
  "royalty_count r = length (royalties r)"

definition approval_section :: "DigiAssetRules \<Rightarrow> nat \<Rightarrow> bool list" where
  "approval_section r n = (if signersRequired r \<noteq> 0 then val_bits 4 0 @ approval_image r n else [])"

definition royalty_section :: "DigiAssetRules \<Rightarrow> nat \<Rightarrow> bool list" where
  "royalty_section r n = (if royalties r \<noteq> [] then royalty_code r @ royalties_image n (length (royalties r)) else [])"

definition geofence_section :: "DigiAssetRules \<Rightarrow> bool list" where
  "geofence_section r = (if countryListIsBan r \<or> countryList r \<noteq> []
     then val_bits 4 (if countryListIsBan r then 3 else 2) @ geofence_image (countryList r) else [])"

definition vote_section :: "DigiAssetRules \<Rightarrow> nat \<Rightarrow> bool list" where
  "vote_section r n = (if voteOptions r \<noteq> [] \<or> expires r then val_bits 4 4 @ vote_image r n else [])"

definition deflation_section :: "DigiAssetRules \<Rightarrow> bool list" where
  "deflation_section r = (if deflate r \<noteq> 0 then val_bits 4 5 @ fp_bits (deflate r) else [])"

text \<open>The vote outputs follow the signers and the royalties.\<close>

definition royalty_start :: "DigiAssetRules \<Rightarrow> nat \<Rightarrow> nat" where
  "royalty_start r n = n + length (signers r)"

definition vote_start :: "DigiAssetRules \<Rightarrow> nat \<Rightarrow> nat" where
  "vote_start r n = royalty_start r n + length (royalties r)"

definition rules_body :: "DigiAssetRules \<Rightarrow> nat \<Rightarrow> bool list" where
  "rules_body r n = approval_section r n @ royalty_section r (royalty_start r n) @ geofence_section r @
     vote_section r (vote_start r n) @ deflation_section r @ val_bits 4 15"

definition padding :: "nat \<Rightarrow> bool list" where
  "padding len = replicate ((8 - len mod 8) mod 8) True"

definition rules_image :: "DigiAssetRules \<Rightarrow> nat \<Rightarrow> bool list" where
  "rules_image r n = rules_body r n @ padding (length (rules_body r n))"

text \<open>The rules the bit stream can carry; \<open>cid\<close> is where the labels of the votes are looked up.\<close>

definition rules_encodable :: "string \<Rightarrow> DigiAssetRules \<Rightarrow> bool" where
  "rules_encodable cid r \<longleftrightarrow>
     \<not> noRules r \<and>
     fp_valid (signersRequired r) \<and> list_all (\<lambda>x. fp_valid (sg_weight x)) (signers r) \<and>
     (signersRequired r = 0 \<longrightarrow> signers r = []) \<and>
     (if royalties r \<noteq> [] \<and> ExchangeRate_enabled (exchangeRate r) then standard_rate (exchangeRate r)
      else exchangeRate r = exchangeRate DigiAssetRules_default) \<and>
     list_all country_ok (countryList r) \<and>
     (if voteOptions r \<noteq> [] \<or> expires r then vote_ok r else movable r) \<and>
     voteLabelsCID r = (if voteOptions r = [] then [] else cid) \<and>
     fp_valid (deflate r)"

lemma encode_padding_image:
  assumes "bitio_inv s"
  shows "\<exists>s'. encode_padding s = Inr s' \<and> appended s (padding (blength s)) s'"
  using assms
proof (induction s rule: encode_padding.induct)
  case (1 s)
  show ?case
  proof (cases "blength s mod 8 = 0")
    case True
    then show ?thesis using 1(2)
      by (subst encode_padding.simps) (simp add: getLength_def padding_def appended_def)
  next
    case False
    obtain s1 where s1: "appendBits 1 1 s = Inr s1" "appended s (val_bits 1 1) s1"
      using writesD[OF writes_bits[of 1 1] 1(2)] by (auto simp: field_ok_def fits_def)
    have b: "blength s1 = Suc (blength s)" using appendBits_moves[OF s1(1)] by simp
    obtain s2 where s2: "encode_padding s1 = Inr s2" "appended s1 (padding (blength s1)) s2"
      using 1(1)[OF _ s1(1)] False s1(2) unfolding getLength_def appended_def by blast
    have "0 < blength s mod 8" "blength s mod 8 < 8" using False by simp_all
    then have "(8 - blength s mod 8) mod 8 = Suc ((8 - Suc (blength s) mod 8) mod 8)"
      by (cases "blength s mod 8 = 7") (simp_all add: mod_Suc)
    then have "padding (blength s) = val_bits 1 1 @ padding (blength s1)"
      by (simp add: padding_def b val_bits_def)
    then show ?thesis using s1 s2 False
      by (subst encode_padding.simps) (simp add: getLength_def appended_def)
  qed
qed

lemma appended_trans: "appended s a s' \<Longrightarrow> appended s' b s'' \<Longrightarrow> appended s (a @ b) s''"
  by (simp add: appended_def)

lemma appended_refl: "bitio_inv s \<Longrightarrow> appended s [] s"
  by (simp add: appended_def)

lemma appended_inv: "appended s bl s' \<Longrightarrow> bitio_inv s'"
  by (simp add: appended_def)

lemma appended_length: "appended s bl s' \<Longrightarrow> blength s' = blength s + length bl"
  using length_to_bits[of s'] by (auto simp: appended_def)

text \<open>The outputs of \<open>getRequiredOutputs\<close>, and how many there are.\<close>

definition required_outputs :: "DigiAssetRules \<Rightarrow> RuleOutput list" where
  "required_outputs r = signer_outputs (signers r) @ royalty_outputs (royalties r) @
     (if custom_votes r then vote_outputs (voteOptions r) else [])"

lemma getRequiredOutputs_ok:
  assumes "getRequiredOutputs r = Inr outs" "\<not> noRules r"
  shows "outs = required_outputs r"
proof -
  let ?f = "\<lambda>ry outputs. if ry_amount ry < DIGIBYTE_DUST then Inl (RulesException ''Royalty amount can not be encoded'')
      else Inr (outputs @ [\<lparr>ro_address = ry_address ry, ro_sats = ry_amount ry\<rparr>])"
  have f: "foldE ?f rys acc = (if list_all (\<lambda>ry. \<not> ry_amount ry < DIGIBYTE_DUST) rys
      then Inr (acc @ royalty_outputs rys) else Inl (RulesException ''Royalty amount can not be encoded''))" for rys acc
    by (induction rys arbitrary: acc) (simp_all add: royalty_outputs_def)
  show ?thesis
    using assms unfolding getRequiredOutputs_def Let_def f
    by (auto simp: required_outputs_def signer_outputs_def vote_outputs_def custom_votes_def split: if_splits)
qed

lemma encode_sections:
  assumes enc: "rules_encodable cid r" and n: "n + length (signers r) + length (royalties r) + length (voteOptions r) < max_output"
    and s: "bitio_inv s"
  shows "\<exists>s'. bindE (encode_approval r (of_nat n, s)) (\<lambda>st.
        bindE (encode_royalties r st) (\<lambda>(nextOutput, stream).
        bindE (encode_geofence r stream) (\<lambda>stream.
        bindE (encode_vote r (nextOutput, stream)) (\<lambda>(nextOutput, stream).
        bindE (encode_deflation r stream) (appendBits 15 4))))) = Inr s' \<and> appended s (rules_body r n) s'"
proof -
  obtain s1 where s1: "encode_approval r (of_nat n, s) = Inr (of_nat (royalty_start r n), s1)"
      "appended s (approval_section r n) s1"
  proof (cases "signersRequired r = 0")
    case True
    then have "encode_approval r (of_nat n, s) = Inr (of_nat (royalty_start r n), s)"
      using enc by (simp add: encode_approval_def rules_encodable_def royalty_start_def)
    then show ?thesis using that s True by (simp add: approval_section_def appended_refl)
  next
    case False
    then show ?thesis using that encode_approval_image[of r n s] enc n s
      by (auto simp: rules_encodable_def royalty_start_def approval_section_def)
  qed
  obtain s2 where s2: "encode_royalties r (of_nat (royalty_start r n), s1) = Inr (of_nat (vote_start r n), s2)"
      "appended s1 (royalty_section r (royalty_start r n)) s2"
  proof (cases "royalties r = []")
    case True
    then have "encode_royalties r (of_nat (royalty_start r n), s1) = Inr (of_nat (vote_start r n), s1)"
      by (simp add: encode_royalties_def vote_start_def)
    then show ?thesis using that True appended_inv[OF s1(2)] by (simp add: royalty_section_def appended_refl)
  next
    case False
    then show ?thesis
      using that encode_royalties_image[OF False _ _ appended_inv[OF s1(2)], of "royalty_start r n"] enc n
      by (auto simp: rules_encodable_def royalty_start_def vote_start_def royalty_section_def split: if_splits)
  qed
  obtain s3 where s3: "encode_geofence r s2 = Inr s3" "appended s2 (geofence_section r) s3"
  proof (cases "countryListIsBan r \<or> countryList r \<noteq> []")
    case True
    then show ?thesis using that writesD[OF encode_geofence_writes appended_inv[OF s2(2)], of r] enc
      by (auto simp: geofence_section_def rules_encodable_def)
  next
    case False
    then show ?thesis using that appended_inv[OF s2(2)] by (simp add: encode_geofence_def geofence_section_def appended_refl)
  qed
  obtain m s4 where s4: "encode_vote r (of_nat (vote_start r n), s3) = Inr (m, s4)"
      "appended s3 (vote_section r (vote_start r n)) s4"
  proof (cases "voteOptions r \<noteq> [] \<or> expires r")
    case True
    then show ?thesis using that encode_vote_image[OF True _ _ appended_inv[OF s3(2)], of "vote_start r n"] enc n
      by (auto simp: vote_section_def rules_encodable_def vote_start_def royalty_start_def)
  next
    case False
    then show ?thesis using that appended_inv[OF s3(2)] by (simp add: encode_vote_def vote_section_def appended_refl)
  qed
  obtain s5 where s5: "encode_deflation r s4 = Inr s5" "appended s4 (deflation_section r) s5"
  proof (cases "deflate r = 0")
    case True
    then show ?thesis using that appended_inv[OF s4(2)] by (simp add: encode_deflation_def deflation_section_def appended_refl)
  next
    case False
    have "writes (\<lambda>s. bindE (appendBits 5 4 s) (appendFixedPrecision (deflate r))) (val_bits 4 5 @ fp_bits (deflate r))"
      using enc by (intro writes_bind writes_bits writes_fp) (auto simp: rules_encodable_def field_ok_def fits_def)
    from writesD[OF this appended_inv[OF s4(2)]] show ?thesis
      using that False by (auto simp: encode_deflation_def deflation_section_def)
  qed
  obtain s6 where s6: "appendBits 15 4 s5 = Inr s6" "appended s5 (val_bits 4 15) s6"
    using writesD[OF writes_bits[of 4 15] appended_inv[OF s5(2)]] by (auto simp: field_ok_def fits_def)
  have "appended s (rules_body r n) s6"
    unfolding rules_body_def by (intro appended_trans[OF s1(2)] appended_trans[OF s2(2)] appended_trans[OF s3(2)]
        appended_trans[OF s4(2)] appended_trans[OF s5(2)] s6(2))
  then show ?thesis using s1(1) s2(1) s3(1) s4(1) s5(1) s6(1) by simp
qed


lemma loop_step:
  assumes "ahead s (val_bits 4 c)" "c < 15" "decodeRule vout cid c (r, skip_bits 4 s) = Inr ((r', s'), ws')"
  shows "decodeRules_loop vout cid (r, s) ws = decodeRules_loop vout cid (r', s') (ws @ ws')"
proof -
  have "field_ok 4 c" using assms(2) by (intro field_okI) (auto simp: word_less_nat_alt)
  then have "getBits 4 s = Inr (c, skip_bits 4 s)" using ahead_get[OF assms(1)] by simp
  then show ?thesis using assms(2,3) by (subst decodeRules_loop.simps) auto
qed

lemma loop_approval:
  assumes "rules_encodable cid q" "outputs_at vout n (signer_outputs (signers q))" "n + length (signers q) \<le> max_output"
    "ahead s (approval_section q n)" "signersRequired r = 0" "signers r = []"
  shows "decodeRules_loop vout cid (r, s) ws =
    decodeRules_loop vout cid (r\<lparr>signersRequired := signersRequired q, signers := signers q\<rparr>,
      skip_bits (length (approval_section q n)) s) ws"
proof (cases "signersRequired q = 0")
  case True
  then have "r\<lparr>signersRequired := signersRequired q, signers := signers q\<rparr> = r"
    using assms(1,5,6) by (simp add: rules_encodable_def)
  then show ?thesis using True by (simp add: approval_section_def)
next
  case False
  then have a: "ahead s (val_bits 4 0)" "ahead (skip_bits 4 s) (approval_image q n)"
    using assms(4) by (auto simp: approval_section_def ahead_append_iff)
  have "decodeApproval vout (r, skip_bits 4 s) =
      Inr (r\<lparr>signersRequired := signersRequired q, signers := signers q\<rparr>, skip_bits (length (approval_image q n)) (skip_bits 4 s))"
    using decodeApproval_image[OF _ _ assms(2,3) a(2) assms(6)] assms(1) by (simp add: rules_encodable_def)
  then have "decodeRule vout cid 0 (r, skip_bits 4 s) =
      Inr ((r\<lparr>signersRequired := signersRequired q, signers := signers q\<rparr>, skip_bits (length (approval_section q n)) s), [])"
    using False by (simp add: decodeRule_def approval_section_def)
  from loop_step[OF a(1) _ this] show ?thesis by simp
qed

lemma loop_royalties:
  assumes "rules_encodable cid q" "outputs_at vout n (royalty_outputs (royalties q))" "n + length (royalties q) \<le> max_output"
    "ahead s (royalty_section q n)" "royalties r = []" "exchangeRate r = exchangeRate DigiAssetRules_default"
  shows "decodeRules_loop vout cid (r, s) ws =
    decodeRules_loop vout cid (r\<lparr>exchangeRate := exchangeRate q, royalties := royalties q\<rparr>,
      skip_bits (length (royalty_section q n)) s) ws"
proof (cases "royalties q = []")
  case True
  then have "r\<lparr>exchangeRate := exchangeRate q, royalties := royalties q\<rparr> = r"
    using assms(1,5,6) by (simp add: rules_encodable_def)
  then show ?thesis using True by (simp add: royalty_section_def)
next
  case False
  let ?img = "royalties_image n (length (royalties q))"
  show ?thesis
  proof (cases "ExchangeRate_enabled (exchangeRate q)")
    case True
    then have std: "standard_rate (exchangeRate q)" using assms(1) False by (simp add: rules_encodable_def)
    have a: "ahead s (val_bits 4 9)" "ahead (skip_bits 4 s) (units_image (rate_index q))" "ahead (skip_bits 12 s) ?img"
      using assms(4) False True
      by (auto simp: royalty_section_def royalty_code_def ahead_append_iff units_image_def)
    have "decodeRule vout cid 9 (r, skip_bits 4 s) =
        Inr ((r\<lparr>exchangeRate := exchangeRate q, royalties := royalties q\<rparr>, skip_bits (length (royalty_section q n)) s), [])"
      using decodeRoyaltyUnits_image[OF std a(2)] False True
        decodeRoyalties_image[OF assms(2,3) a(3), of "r\<lparr>exchangeRate := exchangeRate q\<rparr>"] assms(5)
      by (simp add: decodeRule_def royalty_section_def royalty_code_def units_image_def)
    from loop_step[OF a(1) _ this] show ?thesis by simp
  next
    case off: False
    have a: "ahead s (val_bits 4 1)" "ahead (skip_bits 4 s) ?img"
      using assms(4) False off by (auto simp: royalty_section_def royalty_code_def ahead_append_iff)
    have "r\<lparr>exchangeRate := exchangeRate q\<rparr> = r" using assms(1,6) off by (simp add: rules_encodable_def)
    then have "r\<lparr>exchangeRate := exchangeRate q, royalties := royalties q\<rparr> = r\<lparr>royalties := royalties q\<rparr>" by metis
    then have "decodeRule vout cid 1 (r, skip_bits 4 s) =
        Inr ((r\<lparr>exchangeRate := exchangeRate q, royalties := royalties q\<rparr>, skip_bits (length (royalty_section q n)) s), [])"
      using decodeRoyalties_image[OF assms(2,3) a(2), of r] assms(5) False off
      by (simp add: decodeRule_def royalty_section_def royalty_code_def)
    from loop_step[OF a(1) _ this] show ?thesis by simp
  qed
qed

lemma loop_geofence:
  assumes "rules_encodable cid q" "ahead s (geofence_section q)" "countryList r = []" "countryListIsBan r = False"
  shows "decodeRules_loop vout cid (r, s) ws =
    decodeRules_loop vout cid (r\<lparr>countryListIsBan := countryListIsBan q, countryList := countryList q\<rparr>,
      skip_bits (length (geofence_section q)) s) ws"
proof (cases "countryListIsBan q \<or> countryList q \<noteq> []")
  case False
  then have "r\<lparr>countryListIsBan := countryListIsBan q, countryList := countryList q\<rparr> = r" using assms(3,4) by simp
  then show ?thesis using False by (simp add: geofence_section_def)
next
  case True
  let ?c = "if countryListIsBan q then 3 else 2 :: u64"
  have a: "ahead s (val_bits 4 ?c)" "ahead (skip_bits 4 s) (geofence_image (countryList q))"
    using assms(2) True by (auto simp: geofence_section_def ahead_append_iff)
  have "decodeRule vout cid ?c (r, skip_bits 4 s) =
      Inr ((r\<lparr>countryListIsBan := countryListIsBan q, countryList := countryList q\<rparr>,
            skip_bits (length (geofence_section q)) s), [])"
    using decodeGeofence_image[OF _ a(2), of "r\<lparr>countryListIsBan := countryListIsBan q\<rparr>"] assms(1,3) True
    by (auto simp: decodeRule_def geofence_section_def rules_encodable_def)
  from loop_step[OF a(1) _ this] show ?thesis by simp
qed

lemma loop_vote:
  assumes "rules_encodable cid q" "ahead s (vote_section q n)" "n + length (voteOptions q) < max_output"
    "custom_votes q \<longrightarrow> outputs_at vout n (vote_outputs (voteOptions q))"
    "rewritable r = rewritable q" "voteOptions r = []" "expiry r = EXPIRE_NEVER" "voteLabelsCID r = []" "movable r"
  shows "decodeRules_loop vout cid (r, s) ws =
    decodeRules_loop vout cid (r\<lparr>movable := movable q, expiry := expiry q, voteOptions := voteOptions q,
        voteLabelsCID := voteLabelsCID q\<rparr>, skip_bits (length (vote_section q n)) s) ws"
proof (cases "voteOptions q \<noteq> [] \<or> expires q")
  case False
  then have "r\<lparr>movable := movable q, expiry := expiry q, voteOptions := voteOptions q,
        voteLabelsCID := voteLabelsCID q\<rparr> = r"
    using assms(1,6-9) by (auto simp: rules_encodable_def expires_def)
  then show ?thesis using False by (simp add: vote_section_def)
next
  case True
  have a: "ahead s (val_bits 4 4)" "ahead (skip_bits 4 s) (vote_image q n)"
    using assms(2) True by (auto simp: vote_section_def ahead_append_iff)
  have ok: "vote_ok q" "voteLabelsCID q = (if voteOptions q = [] then [] else cid)"
    using assms(1) True by (auto simp: rules_encodable_def)
  have "\<not> rewritable r" using assms(5) ok(1) by (simp add: vote_ok_def)
  from decodeVoteAndExpiry_image[OF ok(1) a(2) assms(3,4) this assms(6-8)]
  have "decodeRule vout cid 4 (r, skip_bits 4 s) =
      Inr ((r\<lparr>movable := movable q, expiry := expiry q, voteOptions := voteOptions q, voteLabelsCID := voteLabelsCID q\<rparr>,
            skip_bits (length (vote_section q n)) s), [])"
    using True ok(2) by (simp add: decodeRule_def vote_section_def)
  from loop_step[OF a(1) _ this] show ?thesis by simp
qed

lemma loop_deflation:
  assumes "rules_encodable cid q" "ahead s (deflation_section q)" "deflate r = 0"
  shows "decodeRules_loop vout cid (r, s) ws =
    decodeRules_loop vout cid (r\<lparr>deflate := deflate q\<rparr>, skip_bits (length (deflation_section q)) s) ws"
proof (cases "deflate q = 0")
  case True
  then have "r\<lparr>deflate := deflate q\<rparr> = r" using assms(3) by simp
  then show ?thesis using True by (simp add: deflation_section_def)
next
  case False
  have a: "ahead s (val_bits 4 5)" "ahead (skip_bits 4 s) (fp_bits (deflate q))"
    using assms(2) False by (auto simp: deflation_section_def ahead_append_iff)
  have "decodeRule vout cid 5 (r, skip_bits 4 s) =
      Inr ((r\<lparr>deflate := deflate q\<rparr>, skip_bits (length (deflation_section q)) s), [])"
    using readsD[OF reads_fp a(2)] assms(1) False
    by (simp add: decodeRule_def decodeDeflation_def rules_encodable_def deflation_section_def)
  from loop_step[OF a(1) _ this] show ?thesis by simp
qed

lemma loop_end:
  "ahead s (val_bits 4 15) \<Longrightarrow> decodeRules_loop vout cid (r, s) ws = Inr ((r, skip_bits 4 s), ws)"
  using ahead_get[of s 4 15]
  by (subst decodeRules_loop.simps) (simp add: decodeRule_def field_ok_def fits_def)

lemma decode_sections:
  assumes enc: "rules_encodable cid q"
    and n: "n + length (signers q) + length (royalties q) + length (voteOptions q) < max_output"
    and out: "outputs_at vout n (required_outputs q)"
    and a: "ahead s (rules_body q n)"
  shows "decodeRules_loop vout cid (DigiAssetRules_default\<lparr>noRules := False, rewritable := rewritable q\<rparr>, s) ws =
    Inr ((q, skip_bits (length (rules_body q n)) s), ws)"
proof -
  have outs: "outputs_at vout n (signer_outputs (signers q))"
      "outputs_at vout (royalty_start q n) (royalty_outputs (royalties q))"
      "custom_votes q \<longrightarrow> outputs_at vout (vote_start q n) (vote_outputs (voteOptions q))"
    using out by (auto simp: required_outputs_def outputs_at_append royalty_start_def vote_start_def
        signer_outputs_def royalty_outputs_def add.assoc)
  note lens = royalty_start_def vote_start_def
  have b: "n + length (signers q) \<le> max_output" "royalty_start q n + length (royalties q) \<le> max_output"
      "vote_start q n + length (voteOptions q) < max_output"
    using n by (auto simp: lens)
  define s1 where "s1 = skip_bits (length (approval_section q n)) s"
  define s2 where "s2 = skip_bits (length (royalty_section q (royalty_start q n))) s1"
  define s3 where "s3 = skip_bits (length (geofence_section q)) s2"
  define s4 where "s4 = skip_bits (length (vote_section q (vote_start q n))) s3"
  define s5 where "s5 = skip_bits (length (deflation_section q)) s4"
  have h: "ahead s (approval_section q n)" "ahead s1 (royalty_section q (royalty_start q n))"
      "ahead s2 (geofence_section q)" "ahead s3 (vote_section q (vote_start q n))" "ahead s4 (deflation_section q)"
      "ahead s5 (val_bits 4 15)"
    using a by (auto simp: rules_body_def ahead_append_iff s1_def s2_def s3_def s4_def s5_def)
  have fin: "skip_bits 4 s5 = skip_bits (length (rules_body q n)) s"
    by (simp add: s1_def s2_def s3_def s4_def s5_def rules_body_def add.assoc)
  define r0 where "r0 = DigiAssetRules_default\<lparr>noRules := False, rewritable := rewritable q\<rparr>"
  note d = r0_def DigiAssetRules_default_def
  define r1 where "r1 = r0\<lparr>signersRequired := signersRequired q, signers := signers q\<rparr>"
  define r2 where "r2 = r1\<lparr>exchangeRate := exchangeRate q, royalties := royalties q\<rparr>"
  define r3 where "r3 = r2\<lparr>countryListIsBan := countryListIsBan q, countryList := countryList q\<rparr>"
  define r4 where "r4 = r3\<lparr>movable := movable q, expiry := expiry q, voteOptions := voteOptions q, voteLabelsCID := voteLabelsCID q\<rparr>"
  have "decodeRules_loop vout cid (r0, s) ws = decodeRules_loop vout cid (r1, s1) ws"
    unfolding s1_def r1_def by (rule loop_approval[OF enc outs(1) b(1) h(1)]) (simp_all add: d)
  also have "\<dots> = decodeRules_loop vout cid (r2, s2) ws"
    unfolding s2_def r2_def by (rule loop_royalties[OF enc outs(2) b(2) h(2)]) (simp_all add: r1_def d)
  also have "\<dots> = decodeRules_loop vout cid (r3, s3) ws"
    unfolding s3_def r3_def by (rule loop_geofence[OF enc h(3)]) (simp_all add: r1_def r2_def d)
  also have "\<dots> = decodeRules_loop vout cid (r4, s4) ws"
    unfolding s4_def r4_def by (rule loop_vote[OF enc h(4) b(3) outs(3)]) (simp_all add: r1_def r2_def r3_def d)
  also have "\<dots> = decodeRules_loop vout cid (r4\<lparr>deflate := deflate q\<rparr>, s5) ws"
    unfolding s5_def by (rule loop_deflation[OF enc h(5)]) (simp add: r1_def r2_def r3_def r4_def d)
  also have "\<dots> = Inr ((r4\<lparr>deflate := deflate q\<rparr>, skip_bits 4 s5), ws)" by (rule loop_end[OF h(6)])
  also have "r4\<lparr>deflate := deflate q\<rparr> = q"
    using enc by (simp add: r1_def r2_def r3_def r4_def d rules_encodable_def)
  finally show ?thesis by (simp add: fin r0_def)
qed


lemma encode_image:
  assumes "rules_encodable cid r" "n + length (signers r) + length (royalties r) + length (voteOptions r) < max_output"
    "bitio_inv s" "blength s mod 8 = 0"
  shows "\<exists>s'. encode r (of_nat n) s = Inr s' \<and> appended s (rules_image r n) s'"
proof -
  have "encode r (of_nat n) s = bindE (bindE (encode_approval r (of_nat n, s)) (\<lambda>st.
        bindE (encode_royalties r st) (\<lambda>(nextOutput, stream).
        bindE (encode_geofence r stream) (\<lambda>stream.
        bindE (encode_vote r (nextOutput, stream)) (\<lambda>(nextOutput, stream).
        bindE (encode_deflation r stream) (appendBits 15 4)))))) encode_padding"
    using assms(1) by (simp add: encode_def rules_encodable_def bindE_assoc split_def)
  moreover obtain s1 where s1: "bindE (encode_approval r (of_nat n, s)) (\<lambda>st.
        bindE (encode_royalties r st) (\<lambda>(nextOutput, stream).
        bindE (encode_geofence r stream) (\<lambda>stream.
        bindE (encode_vote r (nextOutput, stream)) (\<lambda>(nextOutput, stream).
        bindE (encode_deflation r stream) (appendBits 15 4))))) = Inr s1" "appended s (rules_body r n) s1"
    using encode_sections[OF assms(1-3)] by blast
  moreover have "padding (blength s1) = padding (length (rules_body r n))"
    using appended_length[OF s1(2)] assms(4) by (simp add: padding_def mod_add_eq[symmetric])
  ultimately show ?thesis
    using encode_padding_image[OF appended_inv[OF s1(2)]] appended_trans[OF s1(2)] by (auto simp: rules_image_def)
qed

lemma movePositionBy_skip:
  assumes "position s + L + k \<le> blength s"
  shows "movePositionBy (skip_bits L s) (int k) = Inr (skip_bits k (skip_bits L s))"
proof -
  have "nat (int (position s) + int L + int k) = position s + L + k" by simp
  then show ?thesis using assms
    by (simp add: movePositionBy_def movePositionTo_def checkPosition_def skip_bits_def)
qed

lemma decode_image:
  assumes enc: "rules_encodable cid q"
    and n: "n + length (signers q) + length (royalties q) + length (voteOptions q) < max_output"
    and out: "outputs_at (tx_vout tx) n (required_outputs q)"
    and a: "ahead s (rules_image q n)" and al: "position s mod 8 = 0"
    and op: "opCode = (if rewritable q then 3 else 4)"
  shows "DigiAssetRules_decode tx s cid opCode = Inr ((q, skip_bits (length (rules_image q n)) s), [])"
proof -
  let ?L = "length (rules_body q n)"
  have o3: "(opCode = 3) = rewritable q" using op by simp
  have l: "decodeRules_loop (tx_vout tx) cid (DigiAssetRules_default\<lparr>noRules := False, rewritable := (opCode = 3)\<rparr>, s) [] =
      Inr ((q, skip_bits ?L s), [])"
    using decode_sections[OF enc n out, of s "[]"] a unfolding o3 by (simp add: rules_image_def ahead_append_iff)
  have room: "position s + ?L + length (padding ?L) \<le> blength s"
    using ahead_room[OF a] by (simp add: rules_image_def)
  have m: "(position s + ?L) mod 8 = ?L mod 8" using al by (simp add: mod_add_eq[symmetric])
  show ?thesis
  proof (cases "?L mod 8 = 0")
    case True
    then have "padding ?L = []" by (simp add: padding_def)
    then show ?thesis using l m True op by (simp add: DigiAssetRules_decode_def getPosition_def Let_def rules_image_def)
  next
    case False
    then have p: "length (padding ?L) = 8 - ?L mod 8" by (simp add: padding_def)
    define k where "k = 8 - ?L mod 8"
    have "position s + ?L + k \<le> blength s" using room p by (simp add: k_def)
    then have "movePositionBy (skip_bits ?L s) (int k) = Inr (skip_bits k (skip_bits ?L s))"
      by (rule movePositionBy_skip)
    then have "movePositionBy (skip_bits ?L s) (int (8 - ?L mod 8)) = Inr (skip_bits (8 - ?L mod 8) (skip_bits ?L s))"
      unfolding k_def .
    then show ?thesis
      using l m False op p by (simp add: DigiAssetRules_decode_def getPosition_def Let_def rules_image_def)
  qed
qed

lemma rules_image_aligned: "length (rules_image r n) mod 8 = 0"
proof -
  have "(L + (8 - L mod 8) mod 8) mod 8 = 0" for L :: nat
  proof -
    have "(L + (8 - L mod 8) mod 8) mod 8 = (L mod 8 + (8 - L mod 8)) mod 8"
      by (simp only: mod_add_left_eq mod_add_right_eq)
    also have "L mod 8 + (8 - L mod 8) = 8" using mod_less_divisor[of 8 L] by simp
    finally show ?thesis by simp
  qed
  then show ?thesis by (simp add: rules_image_def padding_def)
qed

lemma appended_ahead:
  assumes "appended s bl s'"
  shows "ahead (s'\<lparr>position := blength s\<rparr>) bl" "skip_bits (length bl) (s'\<lparr>position := blength s\<rparr>) = movePositionToEnd s'"
proof -
  have l: "blength s' = blength s + length bl" by (rule appended_length[OF assms])
  have t: "to_bits s' = to_bits s @ bl" "bitio_inv s'" using assms by (simp_all add: appended_def)
  then show "ahead (s'\<lparr>position := blength s\<rparr>) bl"
    using l by (simp add: ahead_def rest_bits_def)
  show "skip_bits (length bl) (s'\<lparr>position := blength s\<rparr>) = movePositionToEnd s'"
    by (simp add: skip_bits_def movePositionToEnd_def l)
qed

end
