(* ===== verification/Rules_Store.thy ===== *)
theory Rules_Store
  imports Rules_Format
begin

text \<open>
  The round trip of the rules through the database blob. The blob is two flag bytes and one chunk
  per present field; each chunk is written and read by a \<open>serializer\<close>.
\<close>

unbundle bit_operations_syntax

definition rules_storable :: "DigiAssetRules \<Rightarrow> bool" where
  "rules_storable r \<longleftrightarrow>
     \<not> noRules r \<and>
     (signersRequired r = 0 \<longrightarrow> signers r = []) \<and> list_all Signer_ok (signers r) \<and> length (signers r) < 2 ^ 62 \<and>
     list_all Royalty_ok (royalties r) \<and> length (royalties r) < 2 ^ 62 \<and>
     list_all string_ok (countryList r) \<and> length (countryList r) < 2 ^ 62 \<and>
     list_all VoteOption_ok (voteOptions r) \<and> length (voteOptions r) < 2 ^ 62 \<and>
     (\<not> ExchangeRate_enabled (exchangeRate r) \<longrightarrow> exchangeRate r = exchangeRate DigiAssetRules_default) \<and>
     ExchangeRate_ok (exchangeRate r) \<and> string_ok (voteLabelsCID r)"

definition flags1 :: "DigiAssetRules \<Rightarrow> u8" where
  "flags1 r = flag_bit (rewritable r) 128 + flag_bit (movable r) 64 + flag_bit (countryListIsBan r) 32"

definition flags2 :: "DigiAssetRules \<Rightarrow> u8" where
  "flags2 r = flag_bit (signersRequired r > 0) 128 + flag_bit (royalties r \<noteq> []) 64 +
     flag_bit (countryList r \<noteq> []) 32 + flag_bit (voteOptions r \<noteq> []) 16 +
     flag_bit (expiry r \<noteq> EXPIRE_NEVER) 8 + flag_bit (deflate r \<noteq> 0) 4 +
     flag_bit (ExchangeRate_enabled (exchangeRate r)) 2 + flag_bit (voteLabelsCID r \<noteq> []) 1"

definition chunk :: "bool \<Rightarrow> (u8 list \<Rightarrow> 'a \<Rightarrow> u8 list) \<Rightarrow> 'a \<Rightarrow> u8 list" where
  "chunk b ser v = (if b then ser [] v else [])"

definition rules_chunks :: "DigiAssetRules \<Rightarrow> u8 list list" where
  "rules_chunks r =
     [chunk (signersRequired r > 0) serialize_u64 (signersRequired r),
      chunk (signersRequired r > 0) (serialize_vector serialize_Signer) (signers r),
      chunk (royalties r \<noteq> []) (serialize_vector serialize_Royalty) (royalties r),
      chunk (countryList r \<noteq> []) (serialize_vector serialize_string) (countryList r),
      chunk (voteOptions r \<noteq> []) (serialize_vector serialize_VoteOption) (voteOptions r),
      chunk (expiry r \<noteq> EXPIRE_NEVER) serialize_u64 (expiry r),
      chunk (deflate r \<noteq> 0) serialize_u64 (deflate r),
      chunk (ExchangeRate_enabled (exchangeRate r)) serialize_ExchangeRate (exchangeRate r),
      chunk (voteLabelsCID r \<noteq> []) serialize_string (voteLabelsCID r)]"

lemma flags1_bits:
  "flags1 r AND 0x1f = 0" "(flags1 r AND 128 \<noteq> 0) = rewritable r" "(flags1 r AND 64 \<noteq> 0) = movable r"
  "(flags1 r AND 32 \<noteq> 0) = countryListIsBan r"
  by (cases "rewritable r"; cases "movable r"; cases "countryListIsBan r"; simp add: flags1_def flag_bit_def)+

lemma flags2_sum:
  fixes a b c d e f g h :: bool
  defines "w \<equiv> flag_bit a 128 + flag_bit b 64 + flag_bit c 32 + flag_bit d 16 + flag_bit e 8 + flag_bit f 4 +
    flag_bit g 2 + flag_bit h 1"
  shows "(w AND 128 \<noteq> 0) = a" "(w AND 64 \<noteq> 0) = b" "(w AND 32 \<noteq> 0) = c" "(w AND 16 \<noteq> 0) = d"
    "(w AND 8 \<noteq> 0) = e" "(w AND 4 \<noteq> 0) = f" "(w AND 2 \<noteq> 0) = g" "(w AND 1 \<noteq> 0) = h"
  unfolding w_def flag_bit_def
  by (cases a; cases b; cases c; cases d; cases e; cases f; cases g; cases h; simp)+

lemma flags2_bits:
  "(flags2 r AND 128 \<noteq> 0) = (signersRequired r > 0)" "(flags2 r AND 64 \<noteq> 0) = (royalties r \<noteq> [])"
  "(flags2 r AND 32 \<noteq> 0) = (countryList r \<noteq> [])" "(flags2 r AND 16 \<noteq> 0) = (voteOptions r \<noteq> [])"
  "(flags2 r AND 8 \<noteq> 0) = (expiry r \<noteq> EXPIRE_NEVER)" "(flags2 r AND 4 \<noteq> 0) = (deflate r \<noteq> 0)"
  "(flags2 r AND 2 \<noteq> 0) = ExchangeRate_enabled (exchangeRate r)" "(flags2 r AND 1 \<noteq> 0) = (voteLabelsCID r \<noteq> [])"
  unfolding flags2_def by (rule flags2_sum)+

context serializer begin

lemma ser_chunk: "(if b then ser d v else d) = d @ chunk b ser v"
  using ser_append[of d v] by (simp add: chunk_def)

lemma read_chunk:
  assumes "ok v" "D = pre @ chunk b ser v @ post" "i = length pre"
  shows "read_if b (des D) upd (r, i) = Inr (if b then upd v r else r, i + length (chunk b ser v))"
  using des_at[OF assms(1), of pre post] assms(2,3) by (simp add: read_if_def chunk_def)

end

lemma serialize_rules_chunks:
  "\<not> noRules r \<Longrightarrow> serialize_DigiAssetRules d r = d @ [flags1 r, flags2 r] @ concat (rules_chunks r)"
  unfolding serialize_DigiAssetRules_def rules_empty_def Let_def ser_u64.ser_chunk ser_string.ser_chunk
    ser_ExchangeRate.ser_chunk ser_Royalty.vec.ser_chunk ser_VoteOption.vec.ser_chunk ser_string_vector.vec.ser_chunk
  by (simp add: rules_chunks_def flags1_def flags2_def serialize_u8_def chunk_def
      serialize_u64_append ser_Signer.serialize_vector_append)


text \<open>The blob in front of the \<open>k\<close>-th chunk, and the cursor there.\<close>

definition chunks_before :: "DigiAssetRules \<Rightarrow> nat \<Rightarrow> u8 list" where
  "chunks_before r k = [flags1 r, flags2 r] @ concat (take k (rules_chunks r))"

lemma length_rules_chunks: "length (rules_chunks r) = 9"
  by (simp add: rules_chunks_def)

lemma chunks_split:
  assumes "\<not> noRules r" "k < 9"
  shows "serialize_DigiAssetRules [] r = chunks_before r k @ rules_chunks r ! k @ concat (drop (Suc k) (rules_chunks r))"
proof -
  have "rules_chunks r = take k (rules_chunks r) @ rules_chunks r ! k # drop (Suc k) (rules_chunks r)"
    using assms(2) by (simp add: id_take_nth_drop length_rules_chunks)
  then have "concat (rules_chunks r) =
      concat (take k (rules_chunks r)) @ rules_chunks r ! k @ concat (drop (Suc k) (rules_chunks r))"
    by (metis concat.simps(2) concat_append)
  then show ?thesis using assms(1) by (simp add: serialize_rules_chunks chunks_before_def)
qed

lemma chunks_before_Suc:
  "k < 9 \<Longrightarrow> length (chunks_before r (Suc k)) = length (chunks_before r k) + length (rules_chunks r ! k)"
  by (simp add: chunks_before_def take_Suc_conv_app_nth length_rules_chunks)

lemma chunks_before_9: "\<not> noRules r \<Longrightarrow> length (chunks_before r 9) = length (serialize_DigiAssetRules [] r)"
  by (simp add: chunks_before_def serialize_rules_chunks rules_chunks_def)

context serializer begin

lemma read_rules_chunk:
  assumes "\<not> noRules r" "k < 9" "m = Suc k" "rules_chunks r ! k = chunk b ser v" "ok v"
  shows "read_if b (des (serialize_DigiAssetRules [] r)) upd (q, length (chunks_before r k)) =
    Inr (if b then upd v q else q, length (chunks_before r m))"
  using read_chunk[OF assms(5), of "serialize_DigiAssetRules [] r" "chunks_before r k" b
      "concat (drop (Suc k) (rules_chunks r))" "length (chunks_before r k)" upd q]
    chunks_split[OF assms(1,2)] chunks_before_Suc[OF assms(2), of r] by (simp add: assms(3,4))

end

lemma keep_if: "(\<not> b \<Longrightarrow> f q = q) \<Longrightarrow> (if b then f q else q) = f q"
  by simp

lemma deserialize_serialize_rules:
  assumes r: "rules_storable r"
  shows "deserialize_DigiAssetRules (serialize_DigiAssetRules [] r) 0 DigiAssetRules_default =
    Inr (r, length (serialize_DigiAssetRules [] r))"
proof -
  let ?D = "serialize_DigiAssetRules [] r"
  have n: "\<not> noRules r" using r by (simp add: rules_storable_def)
  have D: "?D = flags1 r # flags2 r # concat (rules_chunks r)" using serialize_rules_chunks[OF n, of "[]"] by simp
  have f: "deserialize_u8 ?D 0 = Inr (flags1 r, 1)" "deserialize_u8 ?D 1 = Inr (flags2 r, length (chunks_before r 0))"
    by (simp_all add: D deserialize_u8_def chunks_before_def)
  have ne: "?D \<noteq> []" by (simp add: D)
  have st: "signersRequired r = 0 \<longrightarrow> signers r = []" "list_all Signer_ok (signers r)" "length (signers r) < 2 ^ 62"
    "list_all Royalty_ok (royalties r)" "length (royalties r) < 2 ^ 62" "list_all string_ok (countryList r)"
    "length (countryList r) < 2 ^ 62" "list_all VoteOption_ok (voteOptions r)" "length (voteOptions r) < 2 ^ 62"
    "ExchangeRate_ok (exchangeRate r)" "string_ok (voteLabelsCID r)"
    using r by (simp_all add: rules_storable_def)
  have ex: "\<not> ExchangeRate_enabled (exchangeRate r) \<Longrightarrow> exchangeRate r = exchangeRate DigiAssetRules_default"
    using r by (simp add: rules_storable_def)
  note d = DigiAssetRules_default_def
  define q0 where "q0 = DigiAssetRules_default\<lparr>noRules := False, rewritable := rewritable r, movable := movable r,
    countryListIsBan := countryListIsBan r\<rparr>"
  define q1 where "q1 = q0\<lparr>signersRequired := signersRequired r\<rparr>"
  define q2 where "q2 = q1\<lparr>signers := signers r\<rparr>"
  define q3 where "q3 = q2\<lparr>royalties := royalties r\<rparr>"
  define q4 where "q4 = q3\<lparr>countryList := countryList r\<rparr>"
  define q5 where "q5 = q4\<lparr>voteOptions := voteOptions r\<rparr>"
  define q6 where "q6 = q5\<lparr>expiry := expiry r\<rparr>"
  define q7 where "q7 = q6\<lparr>deflate := deflate r\<rparr>"
  define q8 where "q8 = q7\<lparr>exchangeRate := exchangeRate r\<rparr>"
  note q = q1_def q2_def q3_def q4_def q5_def q6_def q7_def q8_def q0_def d
  have s0: "read_if (signersRequired r > 0) (deserialize_u64 ?D) (\<lambda>v. signersRequired_update (\<lambda>_. v)) (q0, length (chunks_before r 0)) =
      Inr (q1, length (chunks_before r 1))"
    using ser_u64.read_rules_chunk[OF n, of 0 1 "signersRequired r > 0" "signersRequired r" "\<lambda>v. signersRequired_update (\<lambda>_. v)" q0] st
    by (auto simp: rules_chunks_def q word_gt_0)
  have s1: "read_if (signersRequired r > 0) (deserialize_vector deserialize_Signer ?D) (\<lambda>v. signers_update (\<lambda>_. v)) (q1, length (chunks_before r 1)) =
      Inr (q2, length (chunks_before r 2))"
    using ser_Signer.vec.read_rules_chunk[OF n, of 1 2 "signersRequired r > 0" "signers r" "\<lambda>v. signers_update (\<lambda>_. v)" q1] st
    by (auto simp: rules_chunks_def q word_gt_0)
  have s2: "read_if (royalties r \<noteq> []) (deserialize_vector deserialize_Royalty ?D) (\<lambda>v. royalties_update (\<lambda>_. v)) (q2, length (chunks_before r 2)) =
      Inr (q3, length (chunks_before r 3))"
    using ser_Royalty.vec.read_rules_chunk[OF n, of 2 3 "royalties r \<noteq> []" "royalties r" "\<lambda>v. royalties_update (\<lambda>_. v)" q2] st
    by (auto simp: rules_chunks_def q word_gt_0)
  have s3: "read_if (countryList r \<noteq> []) (deserialize_vector deserialize_string ?D) (\<lambda>v. countryList_update (\<lambda>_. v)) (q3, length (chunks_before r 3)) =
      Inr (q4, length (chunks_before r 4))"
    using ser_string_vector.vec.read_rules_chunk[OF n, of 3 4 "countryList r \<noteq> []" "countryList r" "\<lambda>v. countryList_update (\<lambda>_. v)" q3] st
    by (auto simp: rules_chunks_def q word_gt_0)
  have s4: "read_if (voteOptions r \<noteq> []) (deserialize_vector deserialize_VoteOption ?D) (\<lambda>v. voteOptions_update (\<lambda>_. v)) (q4, length (chunks_before r 4)) =
      Inr (q5, length (chunks_before r 5))"
    using ser_VoteOption.vec.read_rules_chunk[OF n, of 4 5 "voteOptions r \<noteq> []" "voteOptions r" "\<lambda>v. voteOptions_update (\<lambda>_. v)" q4] st
    by (auto simp: rules_chunks_def q word_gt_0)
  have s5: "read_if (expiry r \<noteq> EXPIRE_NEVER) (deserialize_u64 ?D) (\<lambda>v. expiry_update (\<lambda>_. v)) (q5, length (chunks_before r 5)) =
      Inr (q6, length (chunks_before r 6))"
    using ser_u64.read_rules_chunk[OF n, of 5 6 "expiry r \<noteq> EXPIRE_NEVER" "expiry r" "\<lambda>v. expiry_update (\<lambda>_. v)" q5] st
    by (auto simp: rules_chunks_def q word_gt_0)
  have s6: "read_if (deflate r \<noteq> 0) (deserialize_u64 ?D) (\<lambda>v. deflate_update (\<lambda>_. v)) (q6, length (chunks_before r 6)) =
      Inr (q7, length (chunks_before r 7))"
    using ser_u64.read_rules_chunk[OF n, of 6 7 "deflate r \<noteq> 0" "deflate r" "\<lambda>v. deflate_update (\<lambda>_. v)" q6] st
    by (auto simp: rules_chunks_def q word_gt_0)
  have s7: "read_if (ExchangeRate_enabled (exchangeRate r)) (deserialize_ExchangeRate ?D) (\<lambda>v. exchangeRate_update (\<lambda>_. v)) (q7, length (chunks_before r 7)) =
      Inr (q8, length (chunks_before r 8))"
    using ser_ExchangeRate.read_rules_chunk[OF n, of 7 8 "ExchangeRate_enabled (exchangeRate r)" "exchangeRate r" "\<lambda>v. exchangeRate_update (\<lambda>_. v)" q7] st
    by (cases "ExchangeRate_enabled (exchangeRate r)") (simp_all add: rules_chunks_def q ex)
  have s8: "read_if (voteLabelsCID r \<noteq> []) (deserialize_string ?D) (\<lambda>v. voteLabelsCID_update (\<lambda>_. v)) (q8, length (chunks_before r 8)) =
      Inr (q8\<lparr>voteLabelsCID := voteLabelsCID r\<rparr>, length (chunks_before r 9))"
  proof -
    have c: "rules_chunks r ! 8 = chunk (voteLabelsCID r \<noteq> []) serialize_string (voteLabelsCID r)"
      by (simp add: rules_chunks_def)
    have "read_if (voteLabelsCID r \<noteq> []) (deserialize_string ?D) (\<lambda>v. voteLabelsCID_update (\<lambda>_. v)) (q8, length (chunks_before r 8)) =
        Inr (if voteLabelsCID r \<noteq> [] then q8\<lparr>voteLabelsCID := voteLabelsCID r\<rparr> else q8, length (chunks_before r 9))"
      by (rule ser_string.read_rules_chunk[OF n _ _ c st(11)]) simp_all
    also have "(if voteLabelsCID r \<noteq> [] then q8\<lparr>voteLabelsCID := voteLabelsCID r\<rparr> else q8) = q8\<lparr>voteLabelsCID := voteLabelsCID r\<rparr>"
      by (rule keep_if) (simp add: q)
    finally show ?thesis .
  qed
  have "deserialize_DigiAssetRules ?D 0 DigiAssetRules_default =
      Inr (q8\<lparr>voteLabelsCID := voteLabelsCID r\<rparr>, length (chunks_before r 9))"
    using ne by (simp only: deserialize_DigiAssetRules_def f bindE_simps prod.case Let_def flags1_bits flags2_bits
        q0_def[symmetric] s0 s1 s2 s3 s4 s5 s6 s7 s8 if_False simp_thms)
  moreover have "q8\<lparr>voteLabelsCID := voteLabelsCID r\<rparr> = r" using n by (simp add: q)
  ultimately show ?thesis by (simp add: chunks_before_9[OF n])
qed

end
