(* ===== verification/Sha256.thy ===== *)
theory Sha256
  imports Prelude
begin

text \<open>
  The incremental hasher of \<^verbatim>\<open>src/src/crypto/SHA256.cpp\<close>: a 64-byte buffer that \<open>update\<close> fills
  byte by byte, the compression of a full buffer, and the padding of the last one. The constructor
  leaves the buffer uninitialised, so the model's constructor takes its contents as an argument.
  The reference is the one-shot definition of the standard: pad the whole message, cut it into
  blocks, fold the compression over them.
\<close>

unbundle bit_operations_syntax

subsection \<open>The round functions\<close>

definition rotr :: "u32 \<Rightarrow> nat \<Rightarrow> u32" where
  "rotr x n = drop_bit n x OR push_bit (32 - n) x"

definition sha_choose :: "u32 \<Rightarrow> u32 \<Rightarrow> u32 \<Rightarrow> u32" where
  "sha_choose e f g = (e AND f) XOR (NOT e AND g)"

definition majority :: "u32 \<Rightarrow> u32 \<Rightarrow> u32 \<Rightarrow> u32" where
  "majority a b c = (a AND (b OR c)) OR (b AND c)"

definition sig0 :: "u32 \<Rightarrow> u32" where
  "sig0 x = rotr x 7 XOR rotr x 18 XOR drop_bit 3 x"

definition sig1 :: "u32 \<Rightarrow> u32" where
  "sig1 x = rotr x 17 XOR rotr x 19 XOR drop_bit 10 x"

definition SHA256_K :: "u32 list" where
  "SHA256_K =
     [1116352408, 1899447441, 3049323471, 3921009573, 961987163, 1508970993, 2453635748, 2870763221,
      3624381080, 310598401, 607225278, 1426881987, 1925078388, 2162078206, 2614888103, 3248222580,
      3835390401, 4022224774, 264347078, 604807628, 770255983, 1249150122, 1555081692, 1996064986,
      2554220882, 2821834349, 2952996808, 3210313671, 3336571891, 3584528711, 113926993, 338241895,
      666307205, 773529912, 1294757372, 1396182291, 1695183700, 1986661051, 2177026350, 2456956037,
      2730485921, 2820302411, 3259730800, 3345764771, 3516065817, 3600352804, 4094571909, 275423344,
      430227734, 506948616, 659060556, 883997877, 958139571, 1322822218, 1537002063, 1747873779,
      1955562222, 2024104815, 2227730452, 2361852424, 2428436474, 2756734187, 3204031479, 3329325298]"

subsection \<open>The hasher\<close>

record SHA256 =
  m_data :: "u8 list"
  m_blocklen :: nat
  m_bitlen :: u64
  m_state :: "u32 list"

definition SHA256_new :: "u8 list \<Rightarrow> SHA256" where
  "SHA256_new garbage = \<lparr>m_data = garbage, m_blocklen = 0, m_bitlen = 0,
     m_state = [0x6a09e667, 0xbb67ae85, 0x3c6ef372, 0xa54ff53a, 0x510e527f, 0x9b05688c, 0x1f83d9ab, 0x5be0cd19]\<rparr>"

text \<open>The message schedule: 16 big-endian words of the block and 48 derived ones.\<close>

definition block_word :: "u8 list \<Rightarrow> nat \<Rightarrow> u32" where
  "block_word d j = push_bit 24 (ucast (d ! j)) OR push_bit 16 (ucast (d ! (j + 1))) OR
     push_bit 8 (ucast (d ! (j + 2))) OR ucast (d ! (j + 3))"

definition schedule :: "u8 list \<Rightarrow> u32 list" where
  "schedule d = foldl (\<lambda>m k. m @ [sig1 (m ! (k - 2)) + m ! (k - 7) + sig0 (m ! (k - 15)) + m ! (k - 16)])
     (map (\<lambda>i. block_word d (4 * i)) [0..<16]) [16..<64]"

definition sha_round :: "u32 list \<Rightarrow> u32 list \<Rightarrow> nat \<Rightarrow> u32 list" where
  "sha_round m state i =
     (let maj = majority (state ! 0) (state ! 1) (state ! 2);
          xorA = rotr (state ! 0) 2 XOR rotr (state ! 0) 13 XOR rotr (state ! 0) 22;
          ch = sha_choose (state ! 4) (state ! 5) (state ! 6);
          xorE = rotr (state ! 4) 6 XOR rotr (state ! 4) 11 XOR rotr (state ! 4) 25;
          sum = m ! i + SHA256_K ! i + state ! 7 + ch + xorE;
          newA = xorA + maj + sum;
          newE = state ! 3 + sum
      in [newA, state ! 0, state ! 1, state ! 2, newE, state ! 4, state ! 5, state ! 6])"

definition compress_block :: "u32 list \<Rightarrow> u8 list \<Rightarrow> u32 list" where
  "compress_block st d = map2 (+) st (foldl (sha_round (schedule d)) st [0..<64])"

definition transform :: "SHA256 \<Rightarrow> SHA256" where
  "transform h = h\<lparr>m_state := compress_block (m_state h) (m_data h)\<rparr>"

definition update_byte :: "SHA256 \<Rightarrow> u8 \<Rightarrow> SHA256" where
  "update_byte h b =
     (let h = h\<lparr>m_data := (m_data h)[m_blocklen h := b], m_blocklen := m_blocklen h + 1\<rparr>
      in if m_blocklen h = 64
         then let h = transform h in h\<lparr>m_bitlen := m_bitlen h + 512, m_blocklen := 0\<rparr>
         else h)"

definition SHA256_update :: "SHA256 \<Rightarrow> u8 list \<Rightarrow> SHA256" where
  "SHA256_update h data = foldl update_byte h data"

text \<open>The end of the padding: the bytes from \<open>i\<close> on are zeroed up to \<open>end\<close>.\<close>

definition zero_fill :: "nat \<Rightarrow> nat \<Rightarrow> u8 list \<Rightarrow> u8 list" where
  "zero_fill i stop d = foldl (\<lambda>d j. d[j := 0]) d [i..<stop]"

definition bitlen_bytes :: "u64 \<Rightarrow> u8 list" where
  "bitlen_bytes n = map (\<lambda>k. ucast (drop_bit k n AND 0xFF)) [56, 48, 40, 32, 24, 16, 8, 0]"

definition pad :: "SHA256 \<Rightarrow> SHA256" where
  "pad h =
     (let n = m_blocklen h;
          stop = (if n < 56 then 56 else 64);
          h = h\<lparr>m_data := zero_fill (n + 1) stop ((m_data h)[n := 0x80])\<rparr>;
          h = (if n \<ge> 56 then let h = transform h in h\<lparr>m_data := replicate 56 0 @ drop 56 (m_data h)\<rparr> else h);
          bitlen = m_bitlen h + of_nat (n * 8);
          h = h\<lparr>m_bitlen := bitlen, m_data := take 56 (m_data h) @ bitlen_bytes bitlen\<rparr>
      in transform h)"

definition revert :: "SHA256 \<Rightarrow> u8 list" where
  "revert h = concat (map (\<lambda>j. map (\<lambda>i. ucast (drop_bit (24 - i * 8) (m_state h ! j) AND 0xff)) [0..<4]) [0..<8])"

definition digest :: "SHA256 \<Rightarrow> u8 list" where
  "digest h = revert (pad h)"

text \<open>The way every caller uses the class.\<close>

definition sha256 :: "u8 list \<Rightarrow> u8 list" where
  "sha256 msg = digest (SHA256_update (SHA256_new (replicate 64 0)) msg)"

definition hex_digit :: "u8 \<Rightarrow> char" where
  "hex_digit v = ''0123456789abcdef'' ! unat v"

definition SHA256_toString :: "u8 list \<Rightarrow> string" where
  "SHA256_toString d = concat (map (\<lambda>b. [hex_digit (drop_bit 4 b), hex_digit (b AND 0xf)]) d)"

subsection \<open>The reference\<close>

definition sha_padding :: "nat \<Rightarrow> u8 list" where
  "sha_padding n = 0x80 # replicate ((119 - n mod 64) mod 64) 0 @ bitlen_bytes (of_nat (8 * n))"

fun sha_blocks :: "u32 list \<Rightarrow> u8 list \<Rightarrow> u32 list" where
  "sha_blocks st bs = (if length bs < 64 then st else sha_blocks (compress_block st (take 64 bs)) (drop 64 bs))"

declare sha_blocks.simps [simp del]

definition state_bytes :: "u32 list \<Rightarrow> u8 list" where
  "state_bytes st = concat (map (\<lambda>j. map (\<lambda>i. ucast (drop_bit (24 - i * 8) (st ! j) AND 0xff)) [0..<4]) [0..<8])"

definition sha256_reference :: "u8 list \<Rightarrow> u8 list" where
  "sha256_reference msg = state_bytes (sha_blocks (m_state (SHA256_new [])) (msg @ sha_padding (length msg)))"

subsection \<open>The incremental hasher computes the reference\<close>

text \<open>What the hasher holds after the bytes \<open>msg\<close>: the state of the full blocks and the rest in the buffer.\<close>

definition hasher_at :: "SHA256 \<Rightarrow> u8 list \<Rightarrow> bool" where
  "hasher_at h msg \<longleftrightarrow> (let n = length msg mod 64; full = length msg - n in
     length (m_data h) = 64 \<and> m_blocklen h = n \<and> take n (m_data h) = drop full msg \<and>
     m_bitlen h = of_nat (8 * full) \<and> m_state h = sha_blocks (m_state (SHA256_new [])) (take full msg))"

lemma sha_blocks_append:
  assumes "length a mod 64 = 0"
  shows "sha_blocks st (a @ b) = sha_blocks (sha_blocks st a) b"
  using assms
proof (induction st a rule: sha_blocks.induct)
  case (1 st a)
  show ?case
  proof (cases "length a < 64")
    case True
    then have "a = []" using 1(2) by auto
    then show ?thesis by (simp add: sha_blocks.simps[of st "[]"])
  next
    case False
    then have "length (drop 64 a) mod 64 = 0" using 1(2) by (simp add: le_mod_geq)
    from 1(1)[OF False this] False show ?thesis
      by (simp add: sha_blocks.simps[of st "a @ b"] sha_blocks.simps[of st a])
  qed
qed

lemma sha_blocks_one: "length b = 64 \<Longrightarrow> sha_blocks st b = compress_block st b"
  by (simp add: sha_blocks.simps[of st b] sha_blocks.simps[of _ "[]"])

lemma hasher_at_new: "length g = 64 \<Longrightarrow> hasher_at (SHA256_new g) []"
  by (simp add: hasher_at_def SHA256_new_def sha_blocks.simps Let_def)


lemma hasher_at_iff:
  assumes "length msg = full + n" "n < 64" "full mod 64 = 0"
  shows "hasher_at h msg \<longleftrightarrow> length (m_data h) = 64 \<and> m_blocklen h = n \<and> take n (m_data h) = drop full msg \<and>
     m_bitlen h = of_nat (8 * full) \<and> m_state h = sha_blocks (m_state (SHA256_new [])) (take full msg)"
proof -
  have "length msg mod 64 = n" using assms by (simp add: mod_add_eq[symmetric])
  then show ?thesis using assms(1) by (simp add: hasher_at_def)
qed

lemma hasher_at_byte:
  assumes "hasher_at h msg"
  shows "hasher_at (update_byte h b) (msg @ [b])"
proof -
  define n where "n = length msg mod 64"
  define full where "full = length msg - n"
  have n: "n < 64" "length msg = full + n" "full mod 64 = 0"
    by (simp_all add: n_def full_def minus_mod_eq_mult_div)
  have h: "length (m_data h) = 64" "m_blocklen h = n" "take n (m_data h) = drop full msg"
      "m_bitlen h = of_nat (8 * full)" "m_state h = sha_blocks (m_state (SHA256_new [])) (take full msg)"
    using assms unfolding hasher_at_iff[OF n(2,1,3)] by blast+
  have t: "take (Suc n) ((m_data h)[n := b]) = drop full (msg @ [b])"
    using h(1,3) n by (simp add: take_Suc_conv_app_nth)
  show ?thesis
  proof (cases "n = 63")
    case False
    have l: "length (msg @ [b]) = full + Suc n" "Suc n < 64" using n False by simp_all
    have u: "update_byte h b = h\<lparr>m_data := (m_data h)[n := b], m_blocklen := Suc n\<rparr>"
      using h(2) False by (simp add: update_byte_def)
    show ?thesis unfolding hasher_at_iff[OF l n(3)] u using h n(2) t by simp
  next
    case True
    have l: "length (msg @ [b]) = (full + 64) + 0" "(full + 64) mod 64 = 0" using n True by simp_all
    have d: "(m_data h)[n := b] = drop full (msg @ [b])" using t h(1) True by simp
    have "sha_blocks (m_state (SHA256_new [])) (take full msg @ drop full (msg @ [b])) =
        compress_block (m_state h) ((m_data h)[n := b])"
      using sha_blocks_append[of "take full msg" _ "drop full (msg @ [b])"] n True h(5)
        sha_blocks_one[of "drop full (msg @ [b])"] d by simp
    moreover have "take full msg @ drop full (msg @ [b]) = msg @ [b]" using n(2) by simp
    ultimately have s: "sha_blocks (m_state (SHA256_new [])) (msg @ [b]) = compress_block (m_state h) ((m_data h)[n := b])"
      by simp
    have u: "update_byte h b = h\<lparr>m_data := (m_data h)[n := b], m_blocklen := 0, m_bitlen := m_bitlen h + 512,
        m_state := compress_block (m_state h) ((m_data h)[n := b])\<rparr>"
      using h(2) True by (simp add: update_byte_def transform_def)
    show ?thesis unfolding hasher_at_iff[OF l(1) zero_less_numeral l(2)] u using h s l(1) by simp
  qed
qed

lemma hasher_at_update: "hasher_at h msg \<Longrightarrow> hasher_at (SHA256_update h data) (msg @ data)"
proof (induction data arbitrary: h msg)
  case (Cons b data)
  then show ?case using Cons.IH[OF hasher_at_byte[OF Cons.prems, of b]] by (simp add: SHA256_update_def)
qed (simp add: SHA256_update_def)

lemma zero_fill_eq: "i \<le> e \<Longrightarrow> e \<le> length d \<Longrightarrow> zero_fill i e d = take i d @ replicate (e - i) 0 @ drop e d"
proof (induction e)
  case (Suc e)
  show ?case
  proof (cases "i \<le> e")
    case True
    then have "zero_fill i (Suc e) d = (zero_fill i e d)[e := 0]" by (simp add: zero_fill_def)
    also have "\<dots> = take i d @ (replicate (e - i) 0 @ drop e d)[e - i := 0]"
      using True Suc by (simp add: list_update_append)
    also have "(replicate (e - i) 0 @ drop e d)[e - i := 0] = replicate (Suc e - i) 0 @ drop (Suc e) d"
      using True Suc.prems by (simp add: list_update_append Suc_diff_le replicate_append_same[symmetric] Cons_nth_drop_Suc[symmetric])
    finally show ?thesis .
  qed (use Suc in \<open>simp add: zero_fill_def le_Suc_eq\<close>)
qed (simp add: zero_fill_def)


lemma length_bitlen_bytes [simp]: "length (bitlen_bytes n) = 8"
  by (simp add: bitlen_bytes_def)

lemma padded_buffer:
  assumes "length d = 64" "n < e" "e \<le> 64"
  shows "zero_fill (n + 1) e (d[n := 0x80]) = take n d @ 0x80 # replicate (e - n - 1) 0 @ drop e d"
  using assms by (simp add: zero_fill_eq take_Suc_conv_app_nth)

lemma digest_reference:
  assumes "hasher_at h msg"
  shows "digest h = sha256_reference msg"
proof -
  define n where "n = length msg mod 64"
  define full where "full = length msg - n"
  have n: "n < 64" "length msg = full + n" "full mod 64 = 0"
    by (simp_all add: n_def full_def minus_mod_eq_mult_div)
  have h: "length (m_data h) = 64" "m_blocklen h = n" "take n (m_data h) = drop full msg"
      "m_bitlen h = of_nat (8 * full)" "m_state h = sha_blocks (m_state (SHA256_new [])) (take full msg)"
    using assms unfolding hasher_at_iff[OF n(2,1,3)] by blast+
  define len where "len = (of_nat (8 * length msg) :: u64)"
  have len: "m_bitlen h + of_nat (n * 8) = len"
    unfolding len_def n(2) h(4) by (simp add: algebra_simps)
  have len': "m_bitlen h + of_nat n * 8 = len" using len by simp
  define tail where "tail = drop full msg @ sha_padding (length msg)"
  have ref: "sha256_reference msg = state_bytes (sha_blocks (m_state h) tail)"
    using sha_blocks_append[of "take full msg" _ tail] n
    by (simp add: sha256_reference_def tail_def h(5) flip: append_assoc)
  have dn: "length (drop full msg) = n" using n(2) by simp
  have "m_state (pad h) = sha_blocks (m_state h) tail"
  proof (cases "n < 56")
    case True
    have z: "(119 - length msg mod 64) mod 64 = 55 - n" using True unfolding n_def[symmetric] by (simp add: le_mod_geq)
    have tail: "tail = drop full msg @ 0x80 # replicate (55 - n) 0 @ bitlen_bytes len"
      by (simp only: tail_def sha_padding_def z len_def append_Cons append_assoc)
    then have l: "length tail = 64" using dn True by simp
    have "take 56 (zero_fill (n + 1) 56 ((m_data h)[n := 0x80])) @ bitlen_bytes len = tail"
      using padded_buffer[OF h(1) True] h(3) dn True by (simp add: tail take_Cons')
    then show ?thesis
      using True by (simp add: pad_def Let_def h(2) len' transform_def sha_blocks_one[OF l])
  next
    case False
    have z: "(119 - length msg mod 64) mod 64 = 119 - n" using False n(1) unfolding n_def[symmetric] by simp
    define b1 where "b1 = drop full msg @ 0x80 # replicate (63 - n) 0"
    define b2 where "b2 = replicate 56 0 @ bitlen_bytes len"
    have "63 - n + 56 = 119 - n" using n(1) by arith
    then have "replicate (119 - n) (0 :: u8) = replicate (63 - n) 0 @ replicate 56 0"
      using replicate_add[of "63 - n" 56 "0 :: u8"] by (simp only:)
    then have tail: "tail = b1 @ b2"
      by (simp only: tail_def sha_padding_def z b1_def b2_def len_def append_Cons append_assoc)
    have l: "length b1 = 64" "length b2 = 64" using dn n(1) by (simp_all add: b1_def b2_def)
    have "zero_fill (n + 1) 64 ((m_data h)[n := 0x80]) = b1"
      using padded_buffer[OF h(1) n(1)] h(1,3) by (simp add: b1_def)
    then have "m_state (pad h) = compress_block (compress_block (m_state h) b1) b2"
      using False by (simp add: pad_def Let_def h(2) len' transform_def b2_def)
    then show ?thesis
      using sha_blocks_append[of b1 "m_state h" b2] l sha_blocks_one by (simp add: tail)
  qed
  then show ?thesis by (simp add: digest_def revert_def ref state_bytes_def)
qed

lemma sha256_any_buffer:
  "length garbage = 64 \<Longrightarrow> digest (SHA256_update (SHA256_new garbage) msg) = sha256_reference msg"
  using digest_reference[OF hasher_at_update[OF hasher_at_new, of garbage msg]] by simp

lemma length_sha256 [simp]: "length (sha256 msg) = 32"
  by (simp add: sha256_def digest_def revert_def upt_rec)

end
