(* ===== verification/Ripemd160.thy ===== *)
theory Ripemd160
  imports Prelude
begin

text \<open>
  The hash of \<^verbatim>\<open>src/src/crypto/ripemd.c\<close>. The body of \<^verbatim>\<open>compress\<close> is 160 macro calls on five
  variables per line; the model is the list of those calls in the order of the source, run by an
  interpreter of one call. The reference is the description of the algorithm: the word order of a
  round is a permutation of the previous one, the shift depends on the round and the word, and a
  step rotates the five variables.
\<close>

unbundle bit_operations_syntax

subsection \<open>The macros\<close>

definition ROL :: "u32 \<Rightarrow> nat \<Rightarrow> u32" where
  "ROL x n = push_bit n x OR drop_bit (32 - n) x"

datatype rmd_macro = FF | GG | HH | II | JJ | FFF | GGG | HHH | III | JJJ

definition rmd_F :: "u32 \<Rightarrow> u32 \<Rightarrow> u32 \<Rightarrow> u32" where
  "rmd_F x y z = x XOR y XOR z"

definition rmd_G :: "u32 \<Rightarrow> u32 \<Rightarrow> u32 \<Rightarrow> u32" where
  "rmd_G x y z = (x AND y) OR (NOT x AND z)"

definition rmd_H :: "u32 \<Rightarrow> u32 \<Rightarrow> u32 \<Rightarrow> u32" where
  "rmd_H x y z = (x OR NOT y) XOR z"

definition rmd_IQ :: "u32 \<Rightarrow> u32 \<Rightarrow> u32 \<Rightarrow> u32" where
  "rmd_IQ x y z = (x AND z) OR (y AND NOT z)"

definition rmd_J :: "u32 \<Rightarrow> u32 \<Rightarrow> u32 \<Rightarrow> u32" where
  "rmd_J x y z = x XOR (y OR NOT z)"

fun macro_mix :: "rmd_macro \<Rightarrow> (u32 \<Rightarrow> u32 \<Rightarrow> u32 \<Rightarrow> u32) \<times> u32" where
  "macro_mix FF = (rmd_F, 0)"
| "macro_mix GG = (rmd_G, 0x5a827999)"
| "macro_mix HH = (rmd_H, 0x6ed9eba1)"
| "macro_mix II = (rmd_IQ, 0x8f1bbcdc)"
| "macro_mix JJ = (rmd_J, 0xa953fd4e)"
| "macro_mix FFF = (rmd_F, 0)"
| "macro_mix GGG = (rmd_G, 0x7a6d76e9)"
| "macro_mix HHH = (rmd_H, 0x6d703ef3)"
| "macro_mix III = (rmd_IQ, 0x5c4dd124)"
| "macro_mix JJJ = (rmd_J, 0x50a28be6)"

text \<open>
  One line of \<^verbatim>\<open>compress\<close>: the macro, its first argument, the index into \<^verbatim>\<open>X\<close> and the shift. The
  five variable arguments are always consecutive in the cyclic order aa, bb, cc, dd, ee, so the
  first one, numbered from 0 in that order, gives the others.
\<close>

type_synonym rmd_line = "rmd_macro \<times> nat \<times> nat \<times> nat"

definition run_line :: "u32 list \<Rightarrow> u32 list \<Rightarrow> rmd_line \<Rightarrow> u32 list" where
  "run_line X regs l = (case l of (m, r, x, s) \<Rightarrow>
     let a = r; b = (r + 1) mod 5; c = (r + 2) mod 5; d = (r + 3) mod 5; e = (r + 4) mod 5;
         (f, k) = macro_mix m;
         regs = regs[a := regs ! a + f (regs ! b) (regs ! c) (regs ! d) + X ! x + k];
         regs = regs[a := ROL (regs ! a) s + regs ! e]
     in regs[c := ROL (regs ! c) 10])"

definition left_lines :: "rmd_line list" where
  "left_lines = [
      (FF, 0, 0, 11), (FF, 4, 1, 14), (FF, 3, 2, 15), (FF, 2, 3, 12),
      (FF, 1, 4, 5), (FF, 0, 5, 8), (FF, 4, 6, 7), (FF, 3, 7, 9),
      (FF, 2, 8, 11), (FF, 1, 9, 13), (FF, 0, 10, 14), (FF, 4, 11, 15),
      (FF, 3, 12, 6), (FF, 2, 13, 7), (FF, 1, 14, 9), (FF, 0, 15, 8),
      (GG, 4, 7, 7), (GG, 3, 4, 6), (GG, 2, 13, 8), (GG, 1, 1, 13),
      (GG, 0, 10, 11), (GG, 4, 6, 9), (GG, 3, 15, 7), (GG, 2, 3, 15),
      (GG, 1, 12, 7), (GG, 0, 0, 12), (GG, 4, 9, 15), (GG, 3, 5, 9),
      (GG, 2, 2, 11), (GG, 1, 14, 7), (GG, 0, 11, 13), (GG, 4, 8, 12),
      (HH, 3, 3, 11), (HH, 2, 10, 13), (HH, 1, 14, 6), (HH, 0, 4, 7),
      (HH, 4, 9, 14), (HH, 3, 15, 9), (HH, 2, 8, 13), (HH, 1, 1, 15),
      (HH, 0, 2, 14), (HH, 4, 7, 8), (HH, 3, 0, 13), (HH, 2, 6, 6),
      (HH, 1, 13, 5), (HH, 0, 11, 12), (HH, 4, 5, 7), (HH, 3, 12, 5),
      (II, 2, 1, 11), (II, 1, 9, 12), (II, 0, 11, 14), (II, 4, 10, 15),
      (II, 3, 0, 14), (II, 2, 8, 15), (II, 1, 12, 9), (II, 0, 4, 8),
      (II, 4, 13, 9), (II, 3, 3, 14), (II, 2, 7, 5), (II, 1, 15, 6),
      (II, 0, 14, 8), (II, 4, 5, 6), (II, 3, 6, 5), (II, 2, 2, 12),
      (JJ, 1, 4, 9), (JJ, 0, 0, 15), (JJ, 4, 5, 5), (JJ, 3, 9, 11),
      (JJ, 2, 7, 6), (JJ, 1, 12, 8), (JJ, 0, 2, 13), (JJ, 4, 10, 12),
      (JJ, 3, 14, 5), (JJ, 2, 1, 12), (JJ, 1, 3, 13), (JJ, 0, 8, 14),
      (JJ, 4, 11, 11), (JJ, 3, 6, 8), (JJ, 2, 15, 5), (JJ, 1, 13, 6)]"

definition right_lines :: "rmd_line list" where
  "right_lines = [
      (JJJ, 0, 5, 8), (JJJ, 4, 14, 9), (JJJ, 3, 7, 9), (JJJ, 2, 0, 11),
      (JJJ, 1, 9, 13), (JJJ, 0, 2, 15), (JJJ, 4, 11, 15), (JJJ, 3, 4, 5),
      (JJJ, 2, 13, 7), (JJJ, 1, 6, 7), (JJJ, 0, 15, 8), (JJJ, 4, 8, 11),
      (JJJ, 3, 1, 14), (JJJ, 2, 10, 14), (JJJ, 1, 3, 12), (JJJ, 0, 12, 6),
      (III, 4, 6, 9), (III, 3, 11, 13), (III, 2, 3, 15), (III, 1, 7, 7),
      (III, 0, 0, 12), (III, 4, 13, 8), (III, 3, 5, 9), (III, 2, 10, 11),
      (III, 1, 14, 7), (III, 0, 15, 7), (III, 4, 8, 12), (III, 3, 12, 7),
      (III, 2, 4, 6), (III, 1, 9, 15), (III, 0, 1, 13), (III, 4, 2, 11),
      (HHH, 3, 15, 9), (HHH, 2, 5, 7), (HHH, 1, 1, 15), (HHH, 0, 3, 11),
      (HHH, 4, 7, 8), (HHH, 3, 14, 6), (HHH, 2, 6, 6), (HHH, 1, 9, 14),
      (HHH, 0, 11, 12), (HHH, 4, 8, 13), (HHH, 3, 12, 5), (HHH, 2, 2, 14),
      (HHH, 1, 10, 13), (HHH, 0, 0, 13), (HHH, 4, 4, 7), (HHH, 3, 13, 5),
      (GGG, 2, 8, 15), (GGG, 1, 6, 5), (GGG, 0, 4, 8), (GGG, 4, 1, 11),
      (GGG, 3, 3, 14), (GGG, 2, 11, 14), (GGG, 1, 15, 6), (GGG, 0, 0, 14),
      (GGG, 4, 5, 6), (GGG, 3, 12, 9), (GGG, 2, 2, 12), (GGG, 1, 13, 9),
      (GGG, 0, 9, 12), (GGG, 4, 7, 5), (GGG, 3, 10, 15), (GGG, 2, 14, 8),
      (FFF, 1, 12, 8), (FFF, 0, 15, 5), (FFF, 4, 10, 12), (FFF, 3, 4, 9),
      (FFF, 2, 1, 12), (FFF, 1, 5, 5), (FFF, 0, 8, 14), (FFF, 4, 7, 6),
      (FFF, 3, 6, 8), (FFF, 2, 2, 13), (FFF, 1, 13, 6), (FFF, 0, 14, 5),
      (FFF, 4, 0, 15), (FFF, 3, 3, 13), (FFF, 2, 9, 11), (FFF, 1, 11, 11)]"

definition compress :: "u32 list \<Rightarrow> u32 list \<Rightarrow> u32 list" where
  "compress MDbuf X =
     (let l = foldl (run_line X) MDbuf left_lines;
          r = foldl (run_line X) MDbuf right_lines;
          ddd = r ! 3 + l ! 2 + MDbuf ! 1
      in [ddd, MDbuf ! 2 + l ! 3 + r ! 4, MDbuf ! 3 + l ! 4 + r ! 0, MDbuf ! 4 + l ! 0 + r ! 1,
          MDbuf ! 0 + l ! 1 + r ! 2])"

subsection \<open>The message loop\<close>

definition rmd_init :: "u32 list" where
  "rmd_init = [0x67452301, 0xefcdab89, 0x98badcfe, 0x10325476, 0xc3d2e1f0]"

text \<open>A full block as 16 little-endian words; the message pointer \<^verbatim>\<open>msg\<close> is an offset \<open>p\<close>.\<close>

definition read_chunk :: "u8 list \<Rightarrow> nat \<Rightarrow> u32 list" where
  "read_chunk msg p = map (\<lambda>j. let q = p + 4 * j in
     ucast (msg ! q) OR push_bit 8 (ucast (msg ! (q + 1))) OR push_bit 16 (ucast (msg ! (q + 2))) OR
     push_bit 24 (ucast (msg ! (q + 3)))) [0..<16]"

definition last_chunk :: "u8 list \<Rightarrow> nat \<Rightarrow> nat \<Rightarrow> u32 list" where
  "last_chunk msg p n =
     foldl (\<lambda>chunk i. chunk[i div 4 := chunk ! (i div 4) XOR push_bit ((i mod 4) * 8) (ucast (msg ! (p + i)))])
       (replicate 16 0) [0..<n]"

text \<open>The length is the argument \<^verbatim>\<open>uint32_t msg_len\<close>.\<close>

definition ripemd160 :: "u8 list \<Rightarrow> u8 list" where
  "ripemd160 msg =
     (let msg_len = (of_nat (length msg) :: u32);
          n = unat msg_len;
          digest = foldl (\<lambda>d i. compress d (read_chunk msg (64 * i))) rmd_init [0..<n div 64];
          chunk = last_chunk msg (64 * (n div 64)) (n mod 64);
          w = (n div 4) mod 16;
          chunk = chunk[w := chunk ! w XOR push_bit (8 * (n mod 4) + 7) 1];
          (digest, chunk) = (if n mod 64 > 55 then (compress digest chunk, replicate 16 0) else (digest, chunk));
          chunk = chunk[14 := push_bit 3 msg_len];
          chunk = chunk[15 := drop_bit 29 msg_len];
          digest = compress digest chunk
      in concat (map (\<lambda>i. [ucast (digest ! i), ucast (drop_bit 8 (digest ! i)), ucast (drop_bit 16 (digest ! i)),
           ucast (drop_bit 24 (digest ! i))]) [0..<5]))"

subsection \<open>The reference\<close>

text \<open>
  The word order of a round is the permutation \<open>rho\<close> applied to that of the round before; the right
  line starts from \<open>9 i + 5\<close>. Both lines shift a word by the same amount in the same round.
\<close>

definition rho :: "nat list" where
  "rho = [7, 4, 13, 1, 10, 6, 15, 3, 12, 0, 9, 5, 2, 14, 11, 8]"

fun word_order :: "nat \<Rightarrow> nat \<Rightarrow> nat" where
  "word_order 0 i = i"
| "word_order (Suc j) i = rho ! word_order j i"

definition round_shifts :: "nat list list" where
  "round_shifts =
     [[11, 14, 15, 12, 5, 8, 7, 9, 11, 13, 14, 15, 6, 7, 9, 8], [12, 13, 11, 15, 6, 9, 9, 7, 12, 15, 11, 13, 7, 8, 7, 7],
      [13, 15, 14, 11, 7, 7, 6, 8, 13, 14, 13, 12, 5, 5, 6, 9], [14, 11, 12, 14, 8, 6, 5, 5, 15, 12, 15, 14, 9, 9, 8, 6],
      [15, 12, 13, 13, 9, 5, 8, 6, 14, 11, 12, 11, 8, 6, 5, 5]]"

definition left_macro :: "nat \<Rightarrow> rmd_macro" where
  "left_macro j = [FF, GG, HH, II, JJ] ! j"

definition right_macro :: "nat \<Rightarrow> rmd_macro" where
  "right_macro j = [JJJ, III, HHH, GGG, FFF] ! j"

definition step_word :: "bool \<Rightarrow> nat \<Rightarrow> nat" where
  "step_word right t = word_order (t div 16) (if right then (9 * (t mod 16) + 5) mod 16 else t mod 16)"

definition step_shift :: "bool \<Rightarrow> nat \<Rightarrow> nat" where
  "step_shift right t = round_shifts ! (t div 16) ! step_word right t"

definition step_macro :: "bool \<Rightarrow> nat \<Rightarrow> rmd_macro" where
  "step_macro right t = (if right then right_macro (t div 16) else left_macro (t div 16))"

type_synonym rmd_vars = "u32 \<times> u32 \<times> u32 \<times> u32 \<times> u32"

definition rmd_step :: "bool \<Rightarrow> u32 list \<Rightarrow> rmd_vars \<Rightarrow> nat \<Rightarrow> rmd_vars" where
  "rmd_step right X v t = (case v of (A, B, C, D, E) \<Rightarrow>
     let (f, k) = macro_mix (step_macro right t)
     in (E, ROL (A + f B C D + X ! step_word right t + k) (step_shift right t) + E, B, ROL C 10, D))"

definition compress_reference :: "u32 list \<Rightarrow> u32 list \<Rightarrow> u32 list" where
  "compress_reference h X =
     (let v = (h ! 0, h ! 1, h ! 2, h ! 3, h ! 4);
          (A, B, C, D, E) = foldl (rmd_step False X) v [0..<80];
          (A', B', C', D', E') = foldl (rmd_step True X) v [0..<80]
      in [h ! 1 + C + D', h ! 2 + D + E', h ! 3 + E + A', h ! 4 + A + B', h ! 0 + B + C'])"

subsection \<open>The unrolled routine computes the reference\<close>

text \<open>The line at step \<open>t\<close>: its first variable moves back by one at every step.\<close>

definition line_at :: "bool \<Rightarrow> nat \<Rightarrow> rmd_line" where
  "line_at right t = (step_macro right t, (80 - t) mod 5, step_word right t, step_shift right t)"

lemma lines_generated: "left_lines = map (line_at False) [0..<80]" "right_lines = map (line_at True) [0..<80]"
  by code_simp+

definition vars_at :: "nat \<Rightarrow> u32 list \<Rightarrow> rmd_vars" where
  "vars_at r regs = (regs ! r, regs ! ((r + 1) mod 5), regs ! ((r + 2) mod 5), regs ! ((r + 3) mod 5), regs ! ((r + 4) mod 5))"

lemma run_line_view:
  assumes "length regs = 5" "r < 5" "macro_mix m = (f, k)"
  shows "vars_at ((r + 4) mod 5) (run_line X regs (m, r, x, s)) = (case vars_at r regs of (A, B, C, D, E) \<Rightarrow>
    (E, ROL (A + f B C D + X ! x + k) s + E, B, ROL C 10, D))"
proof -
  obtain p q u v w where regs: "regs = [p, q, u, v, w]"
    using assms(1) by (auto simp: numeral_eq_Suc length_Suc_conv)
  from assms(2) consider "r = 0" | "r = 1" | "r = 2" | "r = 3" | "r = 4" by linarith
  then show ?thesis by cases (simp_all add: run_line_def vars_at_def assms(3) regs)
qed

lemma run_line_step:
  assumes "length regs = 5" "t < 80"
  shows "length (run_line X regs (line_at right t)) = 5"
    "vars_at ((80 - Suc t) mod 5) (run_line X regs (line_at right t)) = rmd_step right X (vars_at ((80 - t) mod 5) regs) t"
proof -
  show "length (run_line X regs (line_at right t)) = 5"
    using assms(1) by (simp add: run_line_def line_at_def Let_def split_def)
  obtain f k where m: "macro_mix (step_macro right t) = (f, k)" by fastforce
  have "80 - t = Suc (80 - Suc t)" using assms(2) by simp
  moreover have "(Suc k mod 5 + 4) mod 5 = k mod 5" for k :: nat
    using mod_add_left_eq[of "Suc k" 5 4] mod_add_self2[of k 5] by simp
  ultimately have r': "(80 - Suc t) mod 5 = ((80 - t) mod 5 + 4) mod 5" by simp
  show "vars_at ((80 - Suc t) mod 5) (run_line X regs (line_at right t)) =
      rmd_step right X (vars_at ((80 - t) mod 5) regs) t"
    unfolding r' line_at_def
    using run_line_view[OF assms(1) _ m, of "(80 - t) mod 5"] by (simp add: rmd_step_def m)
qed

lemma run_lines:
  assumes "length regs = 5" "n \<le> 80"
  shows "length (foldl (run_line X) regs (map (line_at right) [0..<n])) = 5 \<and>
    vars_at ((80 - n) mod 5) (foldl (run_line X) regs (map (line_at right) [0..<n])) =
      foldl (rmd_step right X) (vars_at 0 regs) [0..<n]"
  using assms(2)
proof (induction n)
  case (Suc n)
  then show ?case using run_line_step[of _ n X right] by simp
qed (simp add: assms(1))

lemma compress_is_reference:
  assumes "length h = 5"
  shows "compress h X = compress_reference h X"
proof -
  define steps :: "nat list" where "steps = [0..<80]"
  have v: "vars_at 0 xs = (xs ! 0, xs ! 1, xs ! 2, xs ! 3, xs ! 4)" for xs by (simp add: vars_at_def numeral_2_eq_2)
  have run: "vars_at 0 (foldl (run_line X) h (map (line_at right) steps)) = foldl (rmd_step right X) (vars_at 0 h) steps" for right
    unfolding steps_def
    by (rule conjunct2[OF run_lines[OF assms order.refl], unfolded diff_self_eq_0 mod_0])
  show ?thesis
    unfolding compress_def compress_reference_def lines_generated steps_def[symmetric] Let_def
    unfolding v[symmetric] run[symmetric]
    unfolding v prod.case by (simp only: ac_simps)
qed

lemma length_ripemd160 [simp]: "length (ripemd160 msg) = 20"
  by (simp add: ripemd160_def Let_def split_def upt_rec)

end
