(* ===== verification/Base58.thy ===== *)
theory Base58
  imports Prelude
begin

text \<open>
  The base-58 codec of \<^verbatim>\<open>src/src/Base58.cpp\<close> and the hex conversions of \<^verbatim>\<open>src/src/Blob.cpp\<close>.
  Both directions of the codec are a long multiplication with carry over a little-endian digit
  buffer of fixed size; a push past the end of the buffer is undefined behaviour in the model.
  The theory shows that this never happens and that decoding inverts encoding, leading zero bytes
  included.
\<close>

unbundle bit_operations_syntax

subsection \<open>The alphabet\<close>

definition base58Map :: "char list" where
  "base58Map = ''123456789ABCDEFGHJKLMNPQRSTUVWXYZabcdefghijkmnopqrstuvwxyz''"

definition alphaMap :: "nat list" where
  "alphaMap = replicate 49 255 @ [0, 1, 2, 3, 4, 5, 6, 7, 8] @ replicate 7 255 @
     [9, 10, 11, 12, 13, 14, 15, 16, 255, 17, 18, 19, 20, 21, 255, 22, 23, 24, 25, 26, 27, 28, 29, 30, 31, 32] @
     replicate 6 255 @
     [33, 34, 35, 36, 37, 38, 39, 40, 41, 42, 43, 255, 44, 45, 46, 47, 48, 49, 50, 51, 52, 53, 54, 55, 56, 57] @
     replicate 5 255"

subsection \<open>Long multiplication\<close>

text \<open>
  The two inner loops of \<open>encode\<close> and \<open>decode\<close>: every digit is multiplied and the carry added, then
  the rest of the carry is pushed behind the last digit. The carry is a \<^verbatim>\<open>uint32_t\<close>, the digits
  are \<^verbatim>\<open>uint8_t\<close>; \<open>cap\<close> is the size of the buffer.
\<close>

fun mul_carry :: "nat \<Rightarrow> nat \<Rightarrow> nat list \<Rightarrow> nat \<Rightarrow> nat list \<times> nat" where
  "mul_carry base mult [] carry = ([], carry)"
| "mul_carry base mult (d # ds) carry =
     (let carry = (carry + d * mult) mod 2 ^ 32;
          (ds, rest) = mul_carry base mult ds (carry div base)
      in ((carry mod base) # ds, rest))"

fun push_carry :: "nat \<Rightarrow> nat \<Rightarrow> nat list \<Rightarrow> nat \<Rightarrow> nat list result" where
  "push_carry base cap ds carry =
     (if carry = 0 \<or> base < 2 then Inr ds
      else if length ds \<ge> cap then Inl UndefinedBehaviour
      else push_carry base cap (ds @ [carry mod base]) (carry div base))"

declare push_carry.simps [simp del]

definition mul_add :: "nat \<Rightarrow> nat \<Rightarrow> nat \<Rightarrow> nat \<Rightarrow> nat list \<Rightarrow> nat list result" where
  "mul_add base mult cap carry ds =
     (let (ds, carry) = mul_carry base mult ds carry in push_carry base cap ds carry)"

text \<open>The leading zeros that are copied: those before the last position.\<close>

fun leading :: "('a \<Rightarrow> bool) \<Rightarrow> 'a list \<Rightarrow> nat" where
  "leading P (x # y # ys) = (if P x then Suc (leading P (y # ys)) else 0)"
| "leading P _ = 0"

subsection \<open>The codec\<close>

text \<open>With no data at all the loop condition \<^verbatim>\<open>i < data.size() - 1\<close> wraps and reads past the end.\<close>

definition base58_encode :: "u8 list \<Rightarrow> string result" where
  "base58_encode data =
     bindE (foldE (\<lambda>b digits. mul_add 58 256 (length data * 138 div 100 + 1) (unat b) digits) data [0]) (\<lambda>digits.
     if data = [] then Inl UndefinedBehaviour
     else Inr (replicate (leading (\<lambda>b. b = 0) data) (base58Map ! 0) @ map (\<lambda>d. base58Map ! d) (rev digits)))"

definition base58_value :: "char \<Rightarrow> nat" where
  "base58_value c = alphaMap ! (of_char c mod 128)"

definition base58_decode :: "string \<Rightarrow> u8 list result" where
  "base58_decode data =
     bindE (foldE (\<lambda>c digits. mul_add 256 58 (length data * 138 div 100 + 1) (base58_value c) digits) data [0]) (\<lambda>digits.
     if data = [] then Inl UndefinedBehaviour
     else Inr (map of_nat (rev (digits @ replicate (leading (\<lambda>c. c = base58Map ! 0) data) 0))))"

subsection \<open>Blobs\<close>

definition char2int :: "char \<Rightarrow> nat result" where
  "char2int input =
     (let c = (of_char input :: nat) in
      if 48 \<le> c \<and> c \<le> 57 then Inr (c - 48)
      else if 65 \<le> c \<and> c \<le> 70 then Inr (c - 65 + 10)
      else if 97 \<le> c \<and> c \<le> 102 then Inr (c - 97 + 10)
      else Inl (InvalidArgument ''Invalid input string''))"

fun hex_bytes :: "string \<Rightarrow> u8 list result" where
  "hex_bytes (a # b # cs) =
     bindE (char2int a) (\<lambda>h. bindE (char2int b) (\<lambda>l. bindE (hex_bytes cs) (\<lambda>bs. Inr (of_nat (h * 16 + l) # bs))))"
| "hex_bytes _ = Inr []"

text \<open>The owned buffer of a \<^verbatim>\<open>Blob\<close> is the list of its bytes.\<close>

definition Blob_of_hex :: "string \<Rightarrow> u8 list result" where
  "Blob_of_hex hex = (if length hex mod 2 \<noteq> 0 then Inl (InvalidArgument ''Invalid input string'') else hex_bytes hex)"

definition hexmap :: "char list" where
  "hexmap = ''0123456789abcdef''"

definition Blob_toHex :: "u8 list \<Rightarrow> string" where
  "Blob_toHex d = concat (map (\<lambda>b. [hexmap ! unat (drop_bit 4 (b AND 0xF0)), hexmap ! unat (b AND 0x0F)]) d)"

subsection \<open>Digits\<close>

text \<open>The value of a little-endian digit list, and the canonical lists: no zero at the top except for zero itself.\<close>

fun dval :: "nat \<Rightarrow> nat list \<Rightarrow> nat" where
  "dval base [] = 0"
| "dval base (d # ds) = d + base * dval base ds"

definition canonical :: "nat \<Rightarrow> nat list \<Rightarrow> bool" where
  "canonical base ds \<longleftrightarrow> ds \<noteq> [] \<and> list_all (\<lambda>d. d < base) ds \<and> (ds = [0] \<or> last ds \<noteq> 0)"

lemma dval_append: "dval base (xs @ ys) = dval base xs + base ^ length xs * dval base ys"
  by (induction xs) (simp_all add: algebra_simps)

lemma dval_zeros: "dval base (replicate n 0) = 0"
  by (induction n) simp_all

lemma dval_less: "list_all (\<lambda>d. d < base) ds \<Longrightarrow> dval base ds < base ^ length ds"
proof (induction ds)
  case (Cons d ds)
  then have "Suc (dval base ds) \<le> base ^ length ds" by (simp add: Suc_le_eq)
  then have "base * Suc (dval base ds) \<le> base * base ^ length ds" by (rule mult_le_mono2)
  then show ?case using Cons.prems by simp
qed simp

lemma dval_inj:
  "list_all (\<lambda>d. d < base) xs \<Longrightarrow> list_all (\<lambda>d. d < base) ys \<Longrightarrow> length xs = length ys \<Longrightarrow>
     dval base xs = dval base ys \<Longrightarrow> xs = ys"
proof (induction xs ys rule: list_induct2')
  case (4 x xs y ys)
  then have b: "x < base" "y < base" by simp_all
  have "(x + base * dval base xs) mod base = (y + base * dval base ys) mod base" using 4 by simp
  then have "x = y" using b by simp
  moreover from this have "dval base xs = dval base ys" using 4(5) b by simp
  ultimately show ?case using 4 by simp
qed auto

lemma canonical_length:
  assumes "canonical base ds" "dval base ds \<noteq> 0"
  shows "base ^ (length ds - 1) \<le> dval base ds" "ds \<noteq> [0]"
proof -
  show n: "ds \<noteq> [0]" using assms(2) by auto
  have "ds \<noteq> []" using assms(1) by (simp add: canonical_def)
  then have e: "ds = butlast ds @ [last ds]" by simp
  have "last ds \<noteq> 0" using assms(1) n by (auto simp: canonical_def)
  then have "base ^ length (butlast ds) * 1 \<le> base ^ length (butlast ds) * last ds" by (intro mult_le_mono2) simp
  also have "\<dots> \<le> dval base ds" by (subst (3) e) (simp add: dval_append)
  finally show "base ^ (length ds - 1) \<le> dval base ds" by simp
qed

lemma canonical_unique:
  assumes "canonical base xs" "canonical base ys" "dval base xs = dval base ys"
  shows "xs = ys"
proof (cases "dval base xs = 0")
  case True
  have z: "zs = [0]" if c: "canonical base zs" and v: "dval base zs = 0" for zs
  proof (rule ccontr)
    assume "zs \<noteq> [0]"
    then have "last zs \<noteq> 0" "zs \<noteq> []" using c by (auto simp: canonical_def)
    moreover have "base \<noteq> 0" using c by (cases zs) (auto simp: canonical_def)
    ultimately show False using v dval_append[of base "butlast zs" "[last zs]"] by simp
  qed
  show ?thesis using z[OF assms(1) True] z[OF assms(2)] True assms(3) by simp
next
  case False
  note a = canonical_length(1)[OF assms(1) False] and b = canonical_length(1)[OF assms(2)]
  have ne: "xs \<noteq> []" "ys \<noteq> []" using assms by (auto simp: canonical_def)
  have less: "dval base xs < base ^ length xs" "dval base ys < base ^ length ys"
    by (rule dval_less; use assms in \<open>simp add: canonical_def\<close>)+
  have base: "1 < base"
  proof (rule ccontr)
    assume "\<not> 1 < base"
    then have "list_all (\<lambda>d. d = 0) xs" using assms(1) by (auto simp: canonical_def list_all_iff)
    then have "dval base xs = 0" by (induction xs) auto
    then show False using False by simp
  qed
  have "base ^ (length xs - 1) < base ^ length ys" "base ^ (length ys - 1) < base ^ length xs"
    using a b less assms(3) False by auto
  then have "length xs - 1 < length ys" "length ys - 1 < length xs"
    using base power_less_imp_less_exp by blast+
  then have "length xs = length ys" using ne by (cases xs; cases ys) auto
  then show ?thesis using dval_inj assms by (auto simp: canonical_def)
qed


subsection \<open>What the long multiplication computes\<close>

text \<open>The carry stays far below \<open>2 ^ 32\<close> when digits, factor and first carry are bytes.\<close>

lemma mul_carry_step:
  fixes d base mult carry :: nat
  assumes "d < base" "base \<le> 256" "mult \<le> 256" "carry < mult"
  shows "(carry + d * mult) mod 2 ^ 32 = carry + d * mult" "(carry + d * mult) div base < mult"
proof -
  have "carry + d * mult < mult * Suc d" using assms(4) by (simp add: algebra_simps)
  also have "\<dots> \<le> mult * base" using assms(1) by (intro mult_le_mono2) simp
  finally have c: "carry + d * mult < mult * base" .
  also have "\<dots> \<le> 256 * 256" using assms(2,3) by (intro mult_le_mono) simp_all
  finally show "(carry + d * mult) mod 2 ^ 32 = carry + d * mult" by simp
  show "(carry + d * mult) div base < mult" using c by (simp add: less_mult_imp_div_less mult.commute)
qed

lemma mul_carry_spec:
  assumes "base \<le> 256" "mult \<le> 256" "list_all (\<lambda>d. d < base) ds" "carry < mult"
    "mul_carry base mult ds carry = (ds', rest)"
  shows "length ds' = length ds \<and> list_all (\<lambda>d. d < base) ds' \<and> rest < mult \<and>
    dval base ds' + base ^ length ds * rest = dval base ds * mult + carry"
  using assms(3-)
proof (induction ds arbitrary: carry ds' rest)
  case (Cons d ds)
  have b: "d < base" "list_all (\<lambda>d. d < base) ds" using Cons.prems(1) by simp_all
  define c where "c = carry + d * mult"
  note step = mul_carry_step[OF b(1) assms(1,2) Cons.prems(2), folded c_def]
  obtain es r where m: "mul_carry base mult ds (c div base) = (es, r)" by fastforce
  have out: "ds' = (c mod base) # es" "rest = r" using Cons.prems(3) step(1) m by (simp_all add: c_def)
  have IH: "length es = length ds" "list_all (\<lambda>d. d < base) es" "r < mult"
      "dval base es + base ^ length ds * r = dval base ds * mult + c div base"
    using Cons.IH[OF b(2) step(2) m] by auto
  have "dval base ds' + base ^ length (d # ds) * rest = c mod base + base * (dval base es + base ^ length ds * r)"
    by (simp add: out algebra_simps)
  also have "\<dots> = base * (dval base ds * mult) + (base * (c div base) + c mod base)"
    unfolding IH(4) by (simp add: algebra_simps)
  also have "\<dots> = dval base (d # ds) * mult + carry" by (simp add: c_def algebra_simps)
  finally show ?case using out IH b(1) by simp
qed simp

lemma push_carry_spec:
  assumes "1 < base" "list_all (\<lambda>d. d < base) ds" "dval base ds + base ^ length ds * carry < base ^ cap"
  shows "\<exists>ds'. push_carry base cap ds carry = Inr ds' \<and> list_all (\<lambda>d. d < base) ds' \<and>
    dval base ds' = dval base ds + base ^ length ds * carry \<and> (if carry = 0 then ds' = ds else ds' \<noteq> [] \<and> last ds' \<noteq> 0)"
  using assms(2-)
proof (induction carry arbitrary: ds rule: less_induct)
  case (less carry)
  show ?case
  proof (cases "carry = 0")
    case False
    have "base ^ length ds \<le> base ^ length ds * carry" using False by simp
    then have "base ^ length ds < base ^ cap" using less.prems(2) by linarith
    then have l: "length ds < cap" using assms(1) power_less_imp_less_exp by blast
    have v: "dval base (ds @ [carry mod base]) + base ^ length (ds @ [carry mod base]) * (carry div base) =
        dval base ds + base ^ length ds * carry"
    proof -
      define q r where "q = carry div base" "r = carry mod base"
      have "carry = base * q + r" by (simp add: q_r_def)
      then have "base ^ length ds * carry = base ^ length ds * (base * q + r)" by simp
      then show ?thesis unfolding q_r_def[symmetric] by (simp add: dval_append algebra_simps)
    qed
    have "carry div base < carry" using assms(1) False by simp
    from less.IH[OF this, of "ds @ [carry mod base]"] obtain ds' where ds':
        "push_carry base cap (ds @ [carry mod base]) (carry div base) = Inr ds'" "list_all (\<lambda>d. d < base) ds'"
        "dval base ds' = dval base ds + base ^ length ds * carry"
        "if carry div base = 0 then ds' = ds @ [carry mod base] else ds' \<noteq> [] \<and> last ds' \<noteq> 0"
      using less.prems assms(1) unfolding v by auto
    moreover have "carry div base = 0 \<Longrightarrow> carry mod base \<noteq> 0" using False by (metis div_mult_mod_eq mult_zero_left add_0)
    ultimately show ?thesis
      using False l assms(1) by (subst push_carry.simps) (auto split: if_splits)
  qed (use less.prems in \<open>simp add: push_carry.simps\<close>)
qed

text \<open>One step of either loop of the codec: the value times the factor plus the new digit.\<close>

lemma mul_add_spec:
  assumes "1 < base" "base \<le> 256" "0 < mult" "mult \<le> 256" "canonical base ds" "carry < mult"
    "dval base ds * mult + carry < base ^ cap"
  shows "\<exists>ds'. mul_add base mult cap carry ds = Inr ds' \<and> canonical base ds' \<and>
    dval base ds' = dval base ds * mult + carry"
proof -
  have ds: "ds \<noteq> []" "list_all (\<lambda>d. d < base) ds" using assms(5) by (simp_all add: canonical_def)
  obtain es rest where m: "mul_carry base mult ds carry = (es, rest)" by fastforce
  have s: "length es = length ds" "list_all (\<lambda>d. d < base) es"
      "dval base es + base ^ length es * rest = dval base ds * mult + carry"
    using mul_carry_spec[OF assms(2,4) ds(2) assms(6) m] by auto
  obtain ds' where p: "push_carry base cap es rest = Inr ds'" "list_all (\<lambda>d. d < base) ds'"
      "dval base ds' = dval base ds * mult + carry" "if rest = 0 then ds' = es else ds' \<noteq> [] \<and> last ds' \<noteq> 0"
    using push_carry_spec[OF assms(1) s(2), of rest cap] assms(7) unfolding s(3) by auto
  have "canonical base ds'"
  proof (cases "rest = 0")
    case True
    then have e: "ds' = es" using p(4) by simp
    have ne: "es \<noteq> []" using s(1) ds(1) by auto
    show ?thesis
    proof (rule ccontr)
      assume "\<not> canonical base ds'"
      then have z: "es \<noteq> [0]" "last es = 0" using e ne s(2) by (auto simp: canonical_def)
      then have l: "length es \<noteq> 1" by (cases es) auto
      have "es = butlast es @ [0]" using ne z(2) by (metis append_butlast_last_id)
      then have "dval base es = dval base (butlast es)" using dval_append[of base "butlast es" "[0]"] by simp
      also have "\<dots> < base ^ (length es - 1)"
        using dval_less[of base "butlast es"] s(2) by (simp add: list_all_iff in_set_butlastD)
      finally have "dval base ds * mult < base ^ (length ds - 1)" using p(3) s(1) e by simp
      then have "dval base ds < base ^ (length ds - 1)" using assms(3) by (metis le_less_trans mult_le_mono2 nat_mult_1_right Suc_leI One_nat_def)
      moreover have "dval base ds \<noteq> 0 \<Longrightarrow> base ^ (length ds - 1) \<le> dval base ds"
        by (rule canonical_length(1)[OF assms(5)])
      ultimately have "dval base ds = 0" by linarith
      then have "ds = [0]" using canonical_unique[OF assms(5), of "[0]"] assms(1) by (simp add: canonical_def)
      then show False using l s(1) by simp
    qed
  qed (use p in \<open>simp add: canonical_def\<close>)
  then show ?thesis using p m by (auto simp: mul_add_def)
qed

subsection \<open>Decoding inverts encoding\<close>

lemma mul_add_all:
  assumes "1 < base" "base \<le> 256" "0 < mult" "mult \<le> 256" "canonical base ds"
    and "list_all (\<lambda>x. g x < mult) xs"
    and "mult ^ length xs * dval base ds + dval mult (rev (map g xs)) < base ^ cap"
  shows "\<exists>ds'. foldE (\<lambda>x ds. mul_add base mult cap (g x) ds) xs ds = Inr ds' \<and> canonical base ds' \<and>
    dval base ds' = mult ^ length xs * dval base ds + dval mult (rev (map g xs))"
  using assms(5-)
proof (induction xs arbitrary: ds)
  case (Cons x xs)
  have total: "mult ^ length (x # xs) * dval base ds + dval mult (rev (map g (x # xs))) =
      mult ^ length xs * (dval base ds * mult + g x) + dval mult (rev (map g xs))"
    by (simp add: dval_append algebra_simps)
  have "dval base ds * mult + g x \<le> mult ^ length xs * (dval base ds * mult + g x)" using assms(3) by simp
  then have "dval base ds * mult + g x < base ^ cap" using Cons.prems(3) unfolding total by linarith
  from mul_add_spec[OF assms(1-4) Cons.prems(1) _ this] Cons.prems(2) obtain es where es:
      "mul_add base mult cap (g x) ds = Inr es" "canonical base es" "dval base es = dval base ds * mult + g x"
    by auto
  with Cons.IH[of es] Cons.prems(2,3) show ?case unfolding total by simp
qed simp

lemma leading_all: "list_all P xs \<Longrightarrow> leading P xs = length xs - 1"
  by (induction P xs rule: leading.induct) auto

lemma leading_prefix: "list_all P xs \<Longrightarrow> \<not> P y \<Longrightarrow> leading P (xs @ y # ys) = length xs"
proof (induction xs)
  case Nil
  then show ?case by (cases ys) auto
next
  case (Cons x xs)
  then show ?case by (cases xs) auto
qed

lemma base58_buffer: "256 ^ n \<le> (58 :: nat) ^ (n * 138 div 100 + 1)"
proof -
  define k where "k = n * 138 div 100 + 1"
  have "n * 138 \<le> 100 * k"
    using mult_div_mod_eq[of 100 "n * 138"] mod_less_divisor[of 100 "n * 138"] unfolding k_def distrib_left by linarith
  then have k: "(58 :: nat) ^ (138 * n) \<le> 58 ^ (100 * k)" by (intro power_increasing) (simp_all add: mult.commute)
  have "(256 :: nat) ^ 100 \<le> 58 ^ 138" by simp
  then have "((256 :: nat) ^ 100) ^ n \<le> (58 ^ 138) ^ n" by (rule power_mono) (rule zero_le)
  also have "\<dots> \<le> 58 ^ (100 * k)" using k by (simp only: power_mult)
  finally have "((256 :: nat) ^ n) ^ 100 \<le> (58 ^ k) ^ 100"
    by (simp only: power_mult[symmetric] mult.commute[of n 100] mult.commute[of k 100])
  then have "(256 :: nat) ^ n \<le> 58 ^ k" by (subst (asm) power_mono_iff) simp_all
  then show ?thesis by (simp add: k_def)
qed

lemma base58_values: "map base58_value base58Map = [0..<58]"
  unfolding base58Map_def base58_value_def alphaMap_def
  by (simp add: upt_rec nth_append nth_Cons_numeral del: replicate.simps)

lemma base58_value_map: "d < 58 \<Longrightarrow> base58_value (base58Map ! d) = d"
proof -
  assume d: "d < 58"
  have "length base58Map = 58" by (simp add: base58Map_def)
  then have "base58_value (base58Map ! d) = map base58_value base58Map ! d" using d by simp
  also have "\<dots> = d" unfolding base58_values using d by simp
  finally show "base58_value (base58Map ! d) = d" .
qed

lemma base58_map_zero: "d < 58 \<Longrightarrow> base58Map ! d = base58Map ! 0 \<longleftrightarrow> d = 0"
  using base58_value_map[of d] base58_value_map[of 0] by auto

abbreviation byte_digits :: "u8 list \<Rightarrow> nat list" where
  "byte_digits data \<equiv> rev (map unat data)"

lemma unat_byte: "unat (b :: u8) < 256"
  using unsigned_less[of b, where ?'a = nat] by simp

lemma byte_digits_less: "list_all (\<lambda>d. d < 256) (byte_digits data)"
  using unat_byte by (auto simp: list_all_iff)

lemma base58_encode_ok:
  assumes "data \<noteq> []"
  shows "\<exists>ds. base58_encode data = Inr (replicate (leading (\<lambda>b. b = 0) data) (base58Map ! 0) @ map (\<lambda>d. base58Map ! d) (rev ds)) \<and>
    canonical 58 ds \<and> dval 58 ds = dval 256 (byte_digits data)"
proof -
  have "dval 256 (byte_digits data) < 256 ^ length data" using dval_less[OF byte_digits_less[of data]] by simp
  also have "\<dots> \<le> 58 ^ (length data * 138 div 100 + 1)" by (rule base58_buffer)
  finally have "256 ^ length data * dval 58 [0] + dval 256 (rev (map unat data)) < 58 ^ (length data * 138 div 100 + 1)" by simp
  from mul_add_all[OF _ _ _ _ _ _ this] show ?thesis
    using assms unat_byte by (fastforce simp: base58_encode_def canonical_def list_all_iff)
qed

lemma split_leading:
  assumes "data \<noteq> []"
  shows "(\<exists>y ys. data = replicate (leading (\<lambda>b. b = 0) data) 0 @ y # ys \<and> y \<noteq> 0) \<or> data = replicate (length data) (0 :: u8)"
proof (cases "list_all (\<lambda>b. b = 0) data")
  case True
  then have "data = replicate (length data) 0" by (induction data) auto
  then show ?thesis by (rule disjI2)
next
  case False
  define zs where "zs = takeWhile (\<lambda>b. b = 0) data"
  have "dropWhile (\<lambda>b. b = 0) data \<noteq> []" using False by (auto simp: dropWhile_eq_Nil_conv list_all_iff)
  then obtain y ys where d: "dropWhile (\<lambda>b. b = 0) data = y # ys" by (meson list.exhaust)
  then have y: "y \<noteq> 0" using hd_dropWhile[of "\<lambda>b. b = 0" data] by simp
  have e: "data = zs @ y # ys" unfolding zs_def by (metis d takeWhile_dropWhile_id)
  have z: "list_all (\<lambda>b. b = 0) zs" unfolding zs_def by (auto simp: list_all_iff dest: set_takeWhileD)
  have l: "leading (\<lambda>b. b = 0) data = length zs" unfolding e by (rule leading_prefix[OF z]) (use y in simp)
  have "zs = replicate (length zs) 0" using z by (induction zs) auto
  then have "data = replicate (leading (\<lambda>b. b = 0) data) 0 @ y # ys" unfolding l using e by simp
  then show ?thesis using y by blast
qed

lemma base58_decode_encode:
  assumes "data \<noteq> []"
  shows "bindE (base58_encode data) base58_decode = Inr data"
proof -
  define z where "z = leading (\<lambda>b. b = 0) data"
  obtain ds where e: "base58_encode data = Inr (replicate z (base58Map ! 0) @ map (\<lambda>d. base58Map ! d) (rev ds))"
      and ds: "canonical 58 ds" "dval 58 ds = dval 256 (byte_digits data)"
    using base58_encode_ok[OF assms] by (auto simp: z_def)
  define s where "s = replicate z (base58Map ! 0) @ map (\<lambda>d. base58Map ! d) (rev ds)"
  have dl: "list_all (\<lambda>d. d < 58) ds" "ds \<noteq> []" using ds(1) by (simp_all add: canonical_def)
  have v0: "base58_value (base58Map ! 0) = 0" by (rule base58_value_map) simp
  have mv: "map (base58_value \<circ> (!) base58Map) ds = ds"
    using dl(1) base58_value_map by (induction ds) auto
  have sv: "rev (map base58_value s) = ds @ replicate z 0" by (simp add: s_def v0 mv rev_map)
  have val: "dval 58 (rev (map base58_value s)) = dval 58 ds" by (simp add: sv dval_append dval_zeros)
  have "dval 58 ds < 58 ^ length ds" by (rule dval_less[OF dl(1)])
  also have "\<dots> \<le> (256 :: nat) ^ length ds" by (rule power_mono) simp_all
  also have "\<dots> \<le> 256 ^ (length s * 138 div 100 + 1)"
  proof (rule power_increasing)
    have "length ds \<le> length s" by (simp add: s_def)
    also have "\<dots> \<le> length s * 138 div 100 + 1" by (simp add: less_eq_div_iff_mult_less_eq trans_le_add1)
    finally show "length ds \<le> length s * 138 div 100 + 1" .
  qed simp
  finally have bound: "58 ^ length s * dval 256 [0] + dval 58 (rev (map base58_value s)) < 256 ^ (length s * 138 div 100 + 1)"
    by (simp add: val)
  have sd: "list_all (\<lambda>c. base58_value c < 58) s"
    using dl(1) base58_value_map v0 by (auto simp: s_def list_all_iff)
  obtain es where es: "foldE (\<lambda>x ds. mul_add 256 58 (length s * 138 div 100 + 1) (base58_value x) ds) s [0] = Inr es"
      "canonical 256 es" "dval 256 es = dval 256 (byte_digits data)"
    using mul_add_all[OF _ _ _ _ _ sd bound] val ds(2) by (auto simp: canonical_def)
  have sne: "s \<noteq> []" using dl(2) by (simp add: s_def)
  have dec: "base58_decode s = Inr (map of_nat (rev (es @ replicate (leading (\<lambda>c. c = base58Map ! 0) s) 0)))"
    using es(1) sne by (simp add: base58_decode_def)
  have byt: "map (of_nat :: nat \<Rightarrow> u8) (map unat xs) = xs" for xs by (simp add: o_def)
  have can0: "canonical 256 [0]" "canonical 58 [0]" by (simp_all add: canonical_def)
  from split_leading[OF assms] show ?thesis
  proof
    assume "\<exists>y ys. data = replicate (leading (\<lambda>b. b = 0) data) 0 @ y # ys \<and> y \<noteq> 0"
    then obtain y ys where d: "data = replicate z 0 @ y # ys" "y \<noteq> 0" by (auto simp: z_def)
    have "canonical 256 (rev (map unat (y # ys)))"
      using d(2) byte_digits_less[of "y # ys"] by (auto simp: canonical_def unat_eq_0)
    moreover have "dval 256 (byte_digits data) = dval 256 (rev (map unat (y # ys)))"
      unfolding d(1) by (simp add: dval_append dval_zeros map_replicate_const[symmetric])
    ultimately have e1: "es = rev (map unat (y # ys))" using canonical_unique es(2,3) by metis
    have "dval 58 ds \<noteq> 0"
    proof
      assume v: "dval 58 ds = 0"
      have "es = [0]" by (rule canonical_unique[OF es(2) can0(1)]) (simp add: es(3) ds(2)[symmetric] v)
      then have "map unat (y # ys) = [0]" using e1 by (metis rev_rev_ident rev_singleton_conv)
      then show False using d(2) by (simp add: unat_eq_0)
    qed
    then have top: "last ds \<noteq> 0" using ds(1) by (auto simp: canonical_def)
    have "last ds < 58" using dl by (simp add: list_all_iff)
    then have "base58Map ! last ds \<noteq> base58Map ! 0" using top by (simp add: base58_map_zero)
    moreover have "s = replicate z (base58Map ! 0) @ (base58Map ! last ds) # map (\<lambda>d. base58Map ! d) (rev (butlast ds))"
    proof -
      have "rev (butlast ds @ [last ds]) = last ds # rev (butlast ds)" by simp
      then have "rev ds = last ds # rev (butlast ds)" unfolding append_butlast_last_id[OF dl(2)] .
      then show ?thesis unfolding s_def by (simp only: list.map)
    qed
    ultimately have "leading (\<lambda>c. c = base58Map ! 0) s = z"
      using leading_prefix[of "\<lambda>c. c = base58Map ! 0" "replicate z (base58Map ! 0)"] by (simp add: list_all_iff)
    then show ?thesis using e dec byt[of "y # ys"] d(1) by (simp add: s_def[symmetric] e1 map_replicate_const[symmetric])
  next
    assume d: "data = replicate (length data) 0"
    have "dval 256 (byte_digits (replicate n 0)) = 0" for n by (induction n) (simp_all add: dval_append)
    then have v: "dval 256 (byte_digits data) = 0" using d by metis
    have e0: "es = [0]" by (rule canonical_unique[OF es(2) can0(1)]) (simp add: es(3) v)
    have d0: "ds = [0]" by (rule canonical_unique[OF ds(1) can0(2)]) (simp add: ds(2) v)
    have "leading (\<lambda>b. b = 0) (replicate (length data) (0 :: u8)) = length data - 1"
      using leading_all[of "\<lambda>b. b = 0" "replicate (length data) (0 :: u8)"] by (simp add: list_all_iff)
    then have z: "z = length data - 1" unfolding z_def using d by simp
    have "list_all (\<lambda>c. c = base58Map ! 0) s" by (simp add: s_def d0 list_all_iff)
    from leading_all[OF this] have "leading (\<lambda>c. c = base58Map ! 0) s = length data - 1" by (simp add: s_def d0 z)
    moreover have "Suc (length data - 1) = length data" using assms by (cases data) auto
    moreover have "rev ([0] @ replicate k 0) = replicate (Suc k) (0 :: nat)" for k by (simp add: replicate_append_same)
    ultimately have "base58_decode s = Inr (replicate (length data) 0)" 
      unfolding dec e0 by (simp only: map_replicate) simp
    then show ?thesis using e unfolding s_def[symmetric] d[symmetric] by simp
  qed
qed

subsection \<open>Blobs\<close>

lemma hexmap_char2int: "h < 16 \<Longrightarrow> char2int (hexmap ! h) = Inr h"
proof -
  have "map char2int hexmap = map Inr [0..<16]"
    by (simp add: hexmap_def char2int_def upt_rec)
  then have "map char2int hexmap ! h = map Inr [0..<16] ! h" by simp
  moreover have "length hexmap = 16" by (simp add: hexmap_def)
  ultimately show "h < 16 \<Longrightarrow> char2int (hexmap ! h) = Inr h" by simp
qed

lemma nibbles:
  "unat (drop_bit 4 (b :: u8) AND 15) = unat b div 16" "unat ((b :: u8) AND 15) = unat b mod 16"
proof -
  have low: "unat (w AND 15) = unat w mod 16" for w :: u8
  proof -
    have "w AND 15 = take_bit 4 w" by (simp add: take_bit_eq_mask mask_eq_exp_minus_1)
    then show ?thesis by (simp add: unsigned_take_bit_eq take_bit_eq_mod unat_mod_distrib)
  qed
  show "unat (b AND 15) = unat b mod 16" by (rule low)
  have "unat (drop_bit 4 b) = unat b div 16" by (simp add: unat_div_distrib drop_bit_eq_div)
  then show "unat (drop_bit 4 b AND 15) = unat b div 16" using unat_byte[of b] by (simp only: low) simp
qed

lemma Blob_of_hex_toHex: "Blob_of_hex (Blob_toHex d) = Inr d"
proof -
  have "hex_bytes (Blob_toHex d) = Inr d"
  proof (induction d)
    case (Cons b d)
    have q: "unat b div 16 < 16" using unat_byte[of b] by simp
    have "unat (drop_bit 4 b) mod 16 = unat b div 16" using q by (simp add: unat_div_distrib drop_bit_eq_div)
    then have "hex_bytes (Blob_toHex (b # d)) = Inr (of_nat (unat b div 16 * 16 + unat b mod 16) # d)"
      using Cons by (simp add: Blob_toHex_def nibbles hexmap_char2int del: of_nat_add of_nat_mult)
    also have "unat b div 16 * 16 + unat b mod 16 = unat b" by (rule div_mult_mod_eq)
    finally show ?case by simp
  qed (simp add: Blob_toHex_def)
  moreover have "length (Blob_toHex d) mod 2 = 0" by (induction d) (simp_all add: Blob_toHex_def)
  ultimately show ?thesis by (simp add: Blob_of_hex_def)
qed

end
