(* ===== verification/Doubles.thy ===== *)
theory Doubles
  imports BitNumbers
begin

text \<open>
  Reading a floating-point number, \<^verbatim>\<open>BitIO::getDouble\<close> in \<^verbatim>\<open>src/src/BitIO.cpp\<close>. A value is kept as the
  code has it just before the last multiplication: \<open>Finite s m e\<close> stands for the number
  \<open>(-1)\<^sup>s * m * 2 ^ (e - 52)\<close>, which a C++ \<^verbatim>\<open>double\<close> represents exactly.
\<close>

unbundle bit_operations_syntax

datatype double = NotANumber | Infinite bool | Finite bool u64 int

text \<open>The bytes, most significant first.\<close>

definition double_of_bytes :: "u8 list \<Rightarrow> double" where
  "double_of_bytes b =
     (let e = unat (b ! 0 AND 0x7f) * 256 + unat (b ! 1);
          m = foldl (\<lambda>m x. m * 256 + ucast x) (of_nat (e mod 16)) (take 6 (drop 2 b)) :: u64;
          e = e div 16;
          s = (drop_bit 7 (b ! 0) \<noteq> 0)
      in if e = 0 then Finite s m (1 - 1023)
         else if e = 2047 then (if m \<noteq> 0 then NotANumber else Infinite s)
         else Finite s (m + 2 ^ 52) (int e - 1023))"

definition getDouble :: "bool \<Rightarrow> BitIO \<Rightarrow> (double \<times> BitIO) result" where
  "getDouble isLE s =
     bindE (getBytes 8 s) (\<lambda>(buffer, s). Inr (double_of_bytes (if isLE then rev buffer else buffer), s))"

subsection \<open>The IEEE-754 layout\<close>

definition word_byte :: "u64 \<Rightarrow> nat \<Rightarrow> u8" where
  "word_byte w k = ucast (drop_bit (8 * k) w)"

definition ieee_double :: "u64 \<Rightarrow> double" where
  "ieee_double w =
     (let s = bit w 63; e = unat (take_bit 11 (drop_bit 52 w)); f = take_bit 52 w
      in if e = 0 then Finite s f (- 1022)
         else if e = 2047 then (if f = 0 then Infinite s else NotANumber)
         else Finite s (f + 2 ^ 52) (int e - 1023))"

lemma word_byte_nat: "unat (word_byte w k) = unat w div 2 ^ (8 * k) mod 256"
proof -
  have "unat (word_byte w k) = take_bit 8 (drop_bit (8 * k) (unat w))"
    unfolding word_byte_def unat_drop_bit_eq[symmetric] by (simp add: unsigned_ucast_eq)
  then show ?thesis by (simp add: take_bit_eq_mod drop_bit_eq_div)
qed

lemma digits_split: "(m::nat) div 256 mod a * 256 + m mod 256 = m mod (256 * a)"
  by (simp add: mod_mult2_eq)

lemma digits_top: "(m::nat) mod (16 * a) div 16 = m div 16 mod a"
  by (simp add: mod_mult2_eq[of m 16 a])

lemma byte_shift: "(n::nat) div 2 ^ (8 * Suc k) = n div 2 ^ (8 * k) div 256"
  by (simp add: div_mult2_eq[symmetric] power_add mult.commute)

lemma double_of_bytes_ieee: "double_of_bytes (map (word_byte w) [7, 6, 5, 4, 3, 2, 1, 0]) = ieee_double w"
proof -
  let ?n = "unat w"
  have lt: "?n < 2 ^ 64" using unsigned_less[of w] by simp
  let ?b = "map (word_byte w) [7, 6, 5, 4, 3, 2, 1, 0]"
  have b0: "unat (?b ! 0 AND 0x7f) = ?n div 2 ^ 56 mod 128"
  proof -
    have "unat (?b ! 0 AND 0x7f) = unat (word_byte w 7) mod 2 ^ 7"
      unfolding take_bit_eq_mod[symmetric] unsigned_take_bit_eq[symmetric] by (simp add: take_bit_eq_mask mask_eq_exp_minus_1)
    then show ?thesis by (simp add: word_byte_nat mod_mod_cancel)
  qed
  have e: "unat (?b ! 0 AND 0x7f) * 256 + unat (?b ! 1) = ?n div 2 ^ 48 mod 2 ^ 15"
    unfolding b0 using digits_split[of "?n div 2 ^ 48" 128] byte_shift[of ?n 6] by (simp add: word_byte_nat)
  have ed: "?n div 2 ^ 48 mod 2 ^ 15 div 16 = unat (take_bit 11 (drop_bit 52 w))"
  proof -
    have "unat (take_bit 11 (drop_bit 52 w)) = ?n div 2 ^ 52 mod 2 ^ 11"
      unfolding unsigned_take_bit_eq unat_drop_bit_eq by (simp only: take_bit_eq_mod drop_bit_eq_div)
    then show ?thesis using digits_top[of "?n div 2 ^ 48" "2 ^ 11"] by (simp add: div_mult2_eq[symmetric])
  qed
  have em: "?n div 2 ^ 48 mod 2 ^ 15 mod 16 = ?n div 2 ^ 48 mod 16" by (simp add: mod_mod_cancel)
  define f :: u64 where "f = foldl (\<lambda>m x. m * 256 + ucast x) (of_nat (?n div 2 ^ 48 mod 16)) (map (word_byte w) [5, 4, 3, 2, 1, 0])"
  have step: "of_nat (n div 2 ^ (8 * Suc k) mod 2 ^ j) * 256 + ucast (word_byte w k) =
      (of_nat (n div 2 ^ (8 * k) mod 2 ^ (j + 8)) :: u64)" if "n = ?n" for n k j
  proof -
    let ?a = "n div 2 ^ (8 * Suc k) mod 2 ^ j" and ?d = "n div 2 ^ (8 * k) mod 256"
    have "?a * 256 + ?d = n div 2 ^ (8 * k) mod 2 ^ (j + 8)"
      using digits_split[of "n div 2 ^ (8 * k)" "2 ^ j"] byte_shift[of n k] by (simp add: power_add mult.commute)
    moreover have "(ucast (word_byte w k) :: u64) = of_nat (n div 2 ^ (8 * k) mod 256)"
      using word_byte_nat[of w k] that by (metis of_nat_unat)
    moreover have "of_nat ?a * 256 + of_nat ?d = (of_nat (?a * 256 + ?d) :: u64)" by simp
    ultimately show ?thesis by (simp only:)
  qed
  define g where "g k j = (of_nat (?n div 2 ^ (8 * k) mod 2 ^ j) :: u64)" for k j
  have st: "g 6 4 * 256 + ucast (word_byte w 5) = g 5 12" "g 5 12 * 256 + ucast (word_byte w 4) = g 4 20"
    "g 4 20 * 256 + ucast (word_byte w 3) = g 3 28" "g 3 28 * 256 + ucast (word_byte w 2) = g 2 36"
    "g 2 36 * 256 + ucast (word_byte w 1) = g 1 44" "g 1 44 * 256 + ucast (word_byte w 0) = g 0 52"
    using step[OF refl, of 5 4] step[OF refl, of 4 12] step[OF refl, of 3 20] step[OF refl, of 2 28] step[OF refl, of 1 36]
      step[OF refl, of 0 44]
    by (simp_all add: g_def)
  have "of_nat (?n div 2 ^ 48 mod 16) = g 6 4" by (simp add: g_def)
  then have "f = g 0 52" by (simp only: f_def list.map foldl.simps st)
  then have "f = of_nat (?n mod 2 ^ 52)" by (simp add: g_def)
  also have "\<dots> = take_bit 52 w"
  proof -
    have "unat (take_bit 52 w) = ?n mod 2 ^ 52" unfolding unsigned_take_bit_eq by (simp only: take_bit_eq_mod)
    then show ?thesis by (metis of_nat_unat ucast_id)
  qed
  finally have f: "f = take_bit 52 w" .
  have s: "(drop_bit 7 (?b ! 0) \<noteq> 0) = bit w 63"
  proof -
    have "(drop_bit 7 (?b ! 0) \<noteq> 0) = (?n div 2 ^ 56 mod 256 div 128 \<noteq> 0)"
    proof -
      have "unat (drop_bit 7 (word_byte w 7)) = ?n div 2 ^ 56 mod 256 div 128"
        unfolding unat_drop_bit_eq by (simp add: drop_bit_eq_div word_byte_nat)
      then show ?thesis unfolding word_unat_eq_iff[of "drop_bit 7 (?b ! 0)"] by simp
    qed
    also have "\<dots> = odd (?n div 2 ^ 63)"
    proof -
      define m where "m = ?n div 2 ^ 56"
      have m: "m < 256" unfolding m_def using lt by (simp add: less_mult_imp_div_less)
      have q: "?n div 2 ^ 63 = m div 128" unfolding m_def by (simp add: div_mult2_eq[symmetric])
      have "m div 128 < 2" using m by (simp add: less_mult_imp_div_less)
      then have "(m div 128 \<noteq> 0) = odd (m div 128)" by (cases "m div 128 = 0") (auto simp: less_2_cases_iff)
      then show ?thesis unfolding q m_def[symmetric] using m by (simp only: mod_less)
    qed
    also have "\<dots> = bit w 63" unfolding bit_iff_odd[symmetric] by (simp add: bit_unsigned_iff)
    finally show ?thesis .
  qed
  show ?thesis
    unfolding double_of_bytes_def ieee_double_def Let_def e ed em s
    using f by (simp add: f_def)
qed

end
