(* ===== verification/KYC.thy ===== *)
theory KYC
  imports Rules_Store
begin

text \<open>
  The identity records of \<^verbatim>\<open>src/src/KYC.cpp\<close>: decoding a verification or a revocation from a
  transaction, the getters, and the validity of a record at a height. Which address created an
  output is asked of the node through a function the caller passes in; the model takes the same
  function as an argument.
\<close>

unbundle bit_operations_syntax

subsection \<open>The record\<close>

text \<open>Heights are \<^verbatim>\<open>int\<close> members with -1 for none; the \<^verbatim>\<open>unsigned int\<close> heights of the callers are converted.\<close>

record KYC =
  kyc_address :: string
  kyc_name :: string
  kyc_country :: string
  kyc_hash :: string
  heightCreated :: int
  heightRevoked :: int

definition KYC_default :: KYC where
  "KYC_default = \<lparr>kyc_address = [], kyc_name = [], kyc_country = [], kyc_hash = [], heightCreated = -1, heightRevoked = -1\<rparr>"

definition KYC_of_address :: "string \<Rightarrow> KYC" where
  "KYC_of_address address = KYC_default\<lparr>kyc_address := address\<rparr>"

definition KYC_of_fields :: "string \<Rightarrow> string \<Rightarrow> string \<Rightarrow> string \<Rightarrow> u32 \<Rightarrow> int \<Rightarrow> KYC" where
  "KYC_of_fields address country name hash created revoked =
     \<lparr>kyc_address = address, kyc_name = name, kyc_country = country, kyc_hash = hash,
      heightCreated = sint created, heightRevoked = (if revoked > 0 then revoked else -1)\<rparr>"

subsection \<open>Decoding\<close>

definition KYC_NA :: nat where "KYC_NA = 0"
definition KYC_VERIFY :: nat where "KYC_VERIFY = 1"
definition KYC_REVOKE :: nat where "KYC_REVOKE = 2"

type_synonym address_getter = "string \<Rightarrow> nat \<Rightarrow> string result"

definition isKYCVerifier :: "string \<Rightarrow> u32 \<Rightarrow> bool" where
  "isKYCVerifier address height =
     (if height \<ge> 21500000 \<and> address = ''DB4hfzeshsuDDrxdmsQq4WPzpQ9Y4TDp99'' then True
      else address = ''dgb1qm3wmsga7tmwlxnphjue2569z05dcj8uxjx69p6'')"

text \<open>
  The part both decoders share: output 1 is an OP_RETURN with data, and its payload, positioned at
  the start, is returned.
\<close>

definition kyc_payload :: "vout_t \<Rightarrow> BitIO option result" where
  "kyc_payload v =
     (if spk_type v \<noteq> ''nulldata'' then Inr None
      else
        bindE (makeHexString (spk_hex v)) (\<lambda>s.
        bindE (checkIsBitcoinOpReturn s) (\<lambda>(isOp, s).
        if \<not> isOp then Inr None
        else
          bindE (getBitcoinDataHeader s) (\<lambda>(h, s).
          if h \<noteq> BITIO_BITCOIN_TYPE_DATA then Inr None
          else bindE (copyBitcoinData s) (\<lambda>(d, _). Inr (Some d))))))"

text \<open>\<^verbatim>\<open>catch (const out_of_range&)\<close>.\<close>

definition catch_out_of_range :: "'a result \<Rightarrow> 'a result \<Rightarrow> 'a result" where
  "catch_out_of_range m h = (case m of Inl (OutOfRange _) \<Rightarrow> h | _ \<Rightarrow> m)"

text \<open>The country, and a name of the announced number of characters or else a 32-byte hash.\<close>

definition kyc_fields :: "BitIO \<Rightarrow> ((string \<times> string \<times> string) \<times> BitIO) result" where
  "kyc_fields s =
     bindE (get3B40String 3 s) (\<lambda>(c, s).
     let countryCode = map toupper c in
     bindE (getFixedPrecision s) (\<lambda>(v, s).
     let len = (ucast v :: u32) in
     if len = 0 then bindE (getHexString 64 s) (\<lambda>(hash, s). Inr ((countryCode, [], hash), s))
     else bindE (getUTF8String (unat len) s) (\<lambda>(name, s). Inr ((countryCode, name, []), s))))"

definition last_input :: "vin_t list \<Rightarrow> vin_t result" where
  "last_input vin = (if vin = [] then Inl UndefinedBehaviour else Inr (last vin))"

definition kyc_record_verify :: "string \<Rightarrow> string \<times> string \<times> string \<Rightarrow> u32 \<Rightarrow> KYC \<Rightarrow> KYC" where
  "kyc_record_verify validatedAddress = (\<lambda>(country, name, hash) height k.
     let k = (if kyc_address k \<noteq> [] \<and> kyc_address k \<noteq> validatedAddress then k\<lparr>heightRevoked := -1\<rparr> else k)
     in k\<lparr>kyc_address := validatedAddress, kyc_country := country, kyc_name := name, kyc_hash := hash,
          heightCreated := sint height\<rparr>)"

definition processKYCVerify :: "getrawtransaction_t \<Rightarrow> u32 \<Rightarrow> address_getter \<Rightarrow> KYC \<Rightarrow> (bool \<times> KYC) result" where
  "processKYCVerify tx height addressGetter k =
     (if length (tx_vout tx) \<noteq> 3 \<and> length (tx_vout tx) \<noteq> 4 then Inr (False, k)
      else if valueS (tx_vout tx ! 0) \<noteq> 600 then Inr (False, k)
      else if valueS (tx_vout tx ! 1) \<noteq> 0 then Inr (False, k)
      else if length (spk_addresses (tx_vout tx ! 0)) \<noteq> 1 then Inr (False, k)
      else if length (spk_addresses (tx_vout tx ! 2)) \<noteq> 1 then Inr (False, k)
      else
        bindE (kyc_payload (tx_vout tx ! 1)) (\<lambda>d.
        case d of None \<Rightarrow> Inr (False, k)
        | Some s \<Rightarrow>
          if getNumberOfBitLeft s \<le> 40 then Inr (False, k)
          else
            bindE (get3B40String 3 s) (\<lambda>(h, s).
            if h \<noteq> ''kyc'' then Inr (False, k)
            else
              bindE (last_input (tx_vin tx)) (\<lambda>i.
              bindE (addressGetter (vin_txid i) (vin_n i)) (\<lambda>validatorAddress.
              if \<not> isKYCVerifier validatorAddress height then Inr (False, k)
              else
                bindE (vec_get (spk_addresses (tx_vout tx ! 0)) 0) (\<lambda>validatedAddress.
                bindE (catch_out_of_range (bindE (kyc_fields s) (\<lambda>r. Inr (Some r))) (Inr None)) (\<lambda>r.
                case r of None \<Rightarrow> Inr (False, k)
                | Some (flds, s) \<Rightarrow>
                  if getNumberOfBitLeft s \<noteq> 0 then Inr (False, k)
                  else Inr (True, kyc_record_verify validatedAddress flds height k))))))))"

definition kyc_record_revoke :: "string \<Rightarrow> u32 \<Rightarrow> KYC \<Rightarrow> KYC" where
  "kyc_record_revoke revokedAddress height k =
     (let k = (if kyc_address k \<noteq> [] \<and> kyc_address k \<noteq> revokedAddress
               then k\<lparr>kyc_name := [], kyc_hash := [], kyc_country := [], heightCreated := -1\<rparr> else k)
      in k\<lparr>kyc_address := revokedAddress, heightRevoked := sint height\<rparr>)"

definition processKYCRevoke :: "getrawtransaction_t \<Rightarrow> u32 \<Rightarrow> address_getter \<Rightarrow> KYC \<Rightarrow> (bool \<times> KYC) result" where
  "processKYCRevoke tx height addressGetter k =
     (if length (tx_vout tx) < 2 then Inr (False, k)
      else if valueS (tx_vout tx ! 0) \<noteq> 601 then Inr (False, k)
      else if valueS (tx_vout tx ! 1) \<noteq> 0 then Inr (False, k)
      else if length (spk_addresses (tx_vout tx ! 0)) \<noteq> 1 then Inr (False, k)
      else
        bindE (kyc_payload (tx_vout tx ! 1)) (\<lambda>d.
        case d of None \<Rightarrow> Inr (False, k)
        | Some s \<Rightarrow>
          if getNumberOfBitLeft s = 16 then Inr (False, k)
          else
            bindE (get3B40String 3 s) (\<lambda>(h, s).
            if h \<noteq> ''kyc'' then Inr (False, k)
            else
              bindE (vec_get (spk_addresses (tx_vout tx ! 0)) 0) (\<lambda>a.
              if \<not> isKYCVerifier a height then Inr (False, k)
              else
                bindE (addressGetter (tx_txid tx) 0) (\<lambda>revokedAddress.
                Inr (True, kyc_record_revoke revokedAddress height k))))))"

definition processTX :: "getrawtransaction_t \<Rightarrow> u32 \<Rightarrow> address_getter \<Rightarrow> KYC \<Rightarrow> (nat \<times> KYC) result" where
  "processTX tx height addressGetter k =
     bindE (processKYCVerify tx height addressGetter k) (\<lambda>(ok, k).
     if ok then Inr (KYC_VERIFY, k)
     else bindE (processKYCRevoke tx height addressGetter k) (\<lambda>(ok, k).
          if ok then Inr (KYC_REVOKE, k) else Inr (KYC_NA, k)))"

definition KYC_of_tx :: "getrawtransaction_t \<Rightarrow> u32 \<Rightarrow> address_getter \<Rightarrow> KYC result" where
  "KYC_of_tx tx height addressGetter = bindE (processTX tx height addressGetter KYC_default) (\<lambda>(_, k). Inr k)"

subsection \<open>Reading a record\<close>

definition KYC_getName :: "KYC \<Rightarrow> string result" where
  "KYC_getName k = (if heightCreated k = -1 then Inl UnknownValue else Inr (kyc_name k))"

definition KYC_getHash :: "KYC \<Rightarrow> string result" where
  "KYC_getHash k = (if heightCreated k = -1 then Inl UnknownValue else Inr (kyc_hash k))"

definition KYC_getCountry :: "KYC \<Rightarrow> string result" where
  "KYC_getCountry k = (if heightCreated k = -1 then Inl UnknownValue else Inr (kyc_country k))"

definition KYC_getHeightCreated :: "KYC \<Rightarrow> u32 result" where
  "KYC_getHeightCreated k = (if heightCreated k = -1 then Inl UnknownValue else Inr (word_of_int (heightCreated k)))"

definition KYC_valid :: "int \<Rightarrow> KYC \<Rightarrow> bool" where
  "KYC_valid height k =
     (if heightCreated k = -1 then False
      else if height > -1 \<and> height < heightCreated k then False
      else if heightRevoked k = -1 then True
      else if height = -1 then False
      else height < heightRevoked k)"

definition KYC_empty :: "KYC \<Rightarrow> bool" where
  "KYC_empty k \<longleftrightarrow> heightCreated k = -1"

subsection \<open>Who can change a record, and how\<close>

lemma kyc_verify_changes:
  "processKYCVerify tx height g k = Inr (ok, k') \<Longrightarrow>
     (\<not> ok \<and> k' = k) \<or>
     (ok \<and> tx_vin tx \<noteq> [] \<and> (\<exists>a. g (vin_txid (last (tx_vin tx))) (vin_n (last (tx_vin tx))) = Inr a \<and> isKYCVerifier a height) \<and>
      (\<exists>f. k' = kyc_record_verify (spk_addresses (tx_vout tx ! 0) ! 0) f height k))"
  unfolding processKYCVerify_def last_input_def vec_get_def
  by (auto elim!: bindE_E split: if_split_asm option.split_asm simp del: split_paired_Ex) (rule exI, rule refl)+

lemma kyc_revoke_changes:
  "processKYCRevoke tx height g k = Inr (ok, k') \<Longrightarrow>
     (\<not> ok \<and> k' = k) \<or>
     (ok \<and> isKYCVerifier (spk_addresses (tx_vout tx ! 0) ! 0) height \<and>
      (\<exists>a. g (tx_txid tx) 0 = Inr a \<and> k' = kyc_record_revoke a height k))"
  unfolding processKYCRevoke_def vec_get_def
  by (auto elim!: bindE_E split: if_split_asm option.split_asm)

lemma processTX_changes:
  assumes "processTX tx height g k = Inr (code, k')"
  shows "code = KYC_NA \<and> k' = k \<or>
    code = KYC_VERIFY \<and> (\<exists>a. g (vin_txid (last (tx_vin tx))) (vin_n (last (tx_vin tx))) = Inr a \<and> isKYCVerifier a height) \<and>
      (\<exists>f. k' = kyc_record_verify (spk_addresses (tx_vout tx ! 0) ! 0) f height k) \<or>
    code = KYC_REVOKE \<and> isKYCVerifier (spk_addresses (tx_vout tx ! 0) ! 0) height \<and>
      (\<exists>a. g (tx_txid tx) 0 = Inr a \<and> k' = kyc_record_revoke a height k)"
proof -
  obtain ok k1 where v: "processKYCVerify tx height g k = Inr (ok, k1)"
    using assms by (auto simp: processTX_def bindE_Inr_iff)
  show ?thesis
  proof (cases ok)
    case True
    then show ?thesis using assms v kyc_verify_changes[OF v] by (auto simp: processTX_def)
  next
    case False
    then obtain ok2 k2 where r: "processKYCRevoke tx height g k1 = Inr (ok2, k2)"
      using assms v by (auto simp: processTX_def bindE_Inr_iff)
    show ?thesis
      using False assms v r kyc_verify_changes[OF v] kyc_revoke_changes[OF r]
      by (auto simp: processTX_def split: if_splits)
  qed
qed

subsection \<open>A record over time\<close>

lemma KYC_valid_between:
  assumes "heightCreated k = c" "heightRevoked k = r" "0 \<le> c" "c \<le> r" "0 \<le> h"
  shows "KYC_valid h k \<longleftrightarrow> c \<le> h \<and> h < r"
  using assms by (auto simp: KYC_valid_def)

subsection \<open>Reading what an issuer of identities writes\<close>

text \<open>An OP_RETURN output that carries the bits \<open>bl\<close>, a whole number of bytes.\<close>

definition carries :: "vout_t \<Rightarrow> bool list \<Rightarrow> bool" where
  "carries v bl \<longleftrightarrow> spk_type v = ''nulldata'' \<and> hex_chars (spk_hex v) \<and> length bl mod 8 = 0 \<and> 0 < length bl \<and>
     length bl div 8 < 2 ^ 32 \<and>
     hex_image (spk_hex v) = val_bits 8 106 @ fields_image (push_header (length bl div 8)) @ bl"

lemma push_header_first:
  assumes "0 < n" "n < 2 ^ 32"
  shows "\<exists>w fs. push_header n = (8, w) # fs \<and> field_ok 8 w \<and> 1 \<le> w \<and> w \<le> 78"
proof -
  have u: "unat (of_nat n :: u64) = n" using assms by (simp add: unat_of_nat)
  then show ?thesis using push_header_ok[OF assms(2)] assms(1)
    by (auto simp: push_header_def word_le_nat_alt)
qed

lemma getBitcoinDataHeader_data:
  assumes "0 < n" "n < 2 ^ 32" "ahead s (fields_image (push_header n))"
  shows "getBitcoinDataHeader s = Inr (BITIO_BITCOIN_TYPE_DATA, s)"
proof -
  obtain w fs where h: "push_header n = (8, w) # fs" "field_ok 8 w" "1 \<le> w" "w \<le> 78"
    using push_header_first[OF assms(1,2)] by blast
  have g: "getBits 8 s = Inr (w, skip_bits 8 s)"
    using ahead_get_append(1)[OF _ h(2), of s "fields_image fs"] assms(3) h(1) by simp
  have "position s + 8 \<le> blength s" using assms(3) h(1) by (auto simp: ahead_def rest_bits_def dest: arg_cong[of _ _ length])
  then have m: "movePositionBy (skip_bits 8 s) (-8) = Inr s"
    by (simp add: movePositionBy_def movePositionTo_def checkPosition_def skip_bits_def)
  have "w \<noteq> 0" "w \<noteq> 80" "\<not> 79 \<le> w" using h(3,4) by (auto simp: word_le_nat_alt)
  then show ?thesis using g m h(3,4) by (simp add: getBitcoinDataHeader_def)
qed

lemma kyc_payload_carries:
  assumes "carries v bl"
  shows "\<exists>d. kyc_payload v = Inr (Some d) \<and> holds d bl"
proof -
  define n where "n = length bl div 8"
  have l: "length bl = 8 * n" "0 < length bl" using assms by (auto simp: carries_def n_def)
  have n: "0 < n" "n < 2 ^ 32" "length bl = 8 * n" using l assms by (simp_all add: carries_def)
  obtain s where s: "makeHexString (spk_hex v) = Inr s" "holds s (hex_image (spk_hex v))"
    using makeHexString_holds[of "spk_hex v"] assms unfolding carries_def by blast
  have a: "ahead s (val_bits 8 106)" "ahead (skip_bits 8 s) (fields_image (push_header n) @ bl)"
    using holds_ahead[OF s(2)] assms by (simp_all add: carries_def ahead_append_iff[of s "val_bits 8 106"] n_def)
  have hd: "ahead (skip_bits 8 s) (fields_image (push_header n))" using a(2) by (simp add: ahead_append_iff)
  obtain d s' where "copyBitcoinData (skip_bits 8 s) = Inr (d, s')" "holds d bl"
    using copyBitcoinData_image[OF n(1,2) a(2) n(3)] by auto
  then show ?thesis
    using s(1) checkIsBitcoinOpReturn_found[OF a(1)] getBitcoinDataHeader_data[OF n(1,2) hd] assms
    by (auto simp: kyc_payload_def carries_def)
qed

text \<open>The two layouts of a verification: a name, or 64 hex digits of a hash.\<close>

definition kyc_name_bits :: "string \<Rightarrow> string list \<Rightarrow> bool list" where
  "kyc_name_bits country cs =
     tb40_image ''kyc'' @ tb40_image country @ fp_bits (of_nat (length cs)) @ utf8_image cs"

definition kyc_hash_bits :: "string \<Rightarrow> string \<Rightarrow> bool list" where
  "kyc_hash_bits country hash = tb40_image ''kyc'' @ tb40_image country @ fp_bits 0 @ hex_image hash"

text \<open>The outputs and the signature of a verification transaction.\<close>

definition kyc_verify_tx :: "getrawtransaction_t \<Rightarrow> u32 \<Rightarrow> address_getter \<Rightarrow> string \<Rightarrow> bool list \<Rightarrow> bool" where
  "kyc_verify_tx tx height g address bl \<longleftrightarrow>
     (length (tx_vout tx) = 3 \<or> length (tx_vout tx) = 4) \<and> valueS (tx_vout tx ! 0) = 600 \<and>
     valueS (tx_vout tx ! 1) = 0 \<and> spk_addresses (tx_vout tx ! 0) = [address] \<and>
     length (spk_addresses (tx_vout tx ! 2)) = 1 \<and> carries (tx_vout tx ! 1) bl \<and> tx_vin tx \<noteq> [] \<and>
     (case g (vin_txid (last (tx_vin tx))) (vin_n (last (tx_vin tx))) of
        Inl _ \<Rightarrow> False | Inr a \<Rightarrow> isKYCVerifier a height)"

lemma reads_fields_name:
  assumes "tb40_chars country" "length country = 3" "list_all utf8_char cs" "0 < length cs" "length cs < 2 ^ 32"
  shows "reads kyc_fields (tb40_image country @ fp_bits (of_nat (length cs)) @ utf8_image cs) (map toupper country, concat cs, [])"
proof -
  have u: "unat (of_nat (length cs) :: u64) = length cs" using assms(5) by (simp add: unat_of_nat)
  have v: "fp_valid (of_nat (length cs))" by (rule fp_valid_small) (use u assms(5) in simp)
  have c: "unat (ucast (of_nat (length cs) :: u64) :: u32) = length cs"
    using assms(5) by (simp add: ucast_to32 unat_of_nat32)
  then have nz: "(ucast (of_nat (length cs) :: u64) :: u32) \<noteq> 0" using assms(4) by auto
  show ?thesis
    unfolding reads_def kyc_fields_def
    using readsD[OF reads_3b40[OF assms(1)]] readsD[OF reads_fp[OF v]] getUTF8String_image[OF assms(3)] assms(2) c nz
    by (auto simp: ahead_append_iff Let_def)
qed

lemma reads_fields_hash:
  assumes "tb40_chars country" "length country = 3" "hex_chars hash" "length hash = 64"
  shows "reads kyc_fields (tb40_image country @ fp_bits 0 @ hex_image hash) (map toupper country, [], map tolower hash)"
proof -
  have v: "fp_valid 0" by (rule fp_valid_small) simp
  show ?thesis
    unfolding reads_def kyc_fields_def
    using readsD[OF reads_3b40[OF assms(1)]] readsD[OF reads_fp[OF v]] getHexString_image[OF assms(3)] assms(2,4)
    by (auto simp: ahead_append_iff Let_def)
qed

lemma kyc_name_length:
  assumes "length country = 3" "list_all utf8_char cs" "0 < length cs" "length cs < 2 ^ 32"
  shows "24 < length (tb40_image country @ fp_bits (of_nat (length cs)) @ utf8_image cs)"
proof -
  have "unat (of_nat (length cs) :: u64) = length cs" using assms(4) by (simp add: unat_of_nat)
  then have "fp_valid (of_nat (length cs))" by (intro fp_valid_small) (use assms(4) in simp)
  then have "8 \<le> length (fp_bits (of_nat (length cs)))" using fp_bits_length by fastforce
  moreover have "length (tb40_image country) = 16"
    using assms(1) by (auto simp: tb40_image_def length_fields_image numeral_3_eq_3 length_Suc_conv)
  moreover have "0 < length (utf8_image cs)" using utf8_image_pos[OF assms(2)] assms(3) by blast
  ultimately show ?thesis by (simp only: length_append)
qed

lemma kyc_chars: "tb40_chars ''kyc''"
  by (simp add: tb40_chars_def BITIO_CHARSET_3B40_def)

lemma processTX_verify:
  assumes tx: "kyc_verify_tx tx height g address (tb40_image ''kyc'' @ bl)" and r: "reads kyc_fields bl flds"
    and l: "24 < length bl"
  shows "processTX tx height g k = Inr (KYC_VERIFY, kyc_record_verify address flds height k)"
proof -
  have kl: "length (tb40_image ''kyc'') = 16" by (simp add: tb40_image_def length_fields_image)
  obtain d where d: "kyc_payload (tx_vout tx ! 1) = Inr (Some d)" "holds d (tb40_image ''kyc'' @ bl)"
    using kyc_payload_carries tx by (auto simp: kyc_verify_tx_def)
  have a: "ahead d (tb40_image ''kyc'')" "ahead (skip_bits 16 d) bl"
    using holds_ahead[OF d(2)] by (simp_all add: ahead_append_iff kl)
  have n: "blength d = 16 + length bl" "position d = 0"
    using d(2) kl by (auto simp: holds_def dest: arg_cong[of _ _ length])
  have h: "get3B40String 3 d = Inr (''kyc'', skip_bits 16 d)"
    using readsD[OF reads_3b40[OF kyc_chars] a(1)] kl by (simp add: numeral_3_eq_3)
  have f: "kyc_fields (skip_bits 16 d) = Inr (flds, skip_bits (length bl) (skip_bits 16 d))" by (rule readsD[OF r a(2)])
  obtain v where "g (vin_txid (last (tx_vin tx))) (vin_n (last (tx_vin tx))) = Inr v" "isKYCVerifier v height"
    using tx by (auto simp: kyc_verify_tx_def split: sum.splits)
  then have "processKYCVerify tx height g k = Inr (True, kyc_record_verify address flds height k)"
    using tx d(1) h f n l
    by (auto simp: processKYCVerify_def kyc_verify_tx_def last_input_def vec_get_def catch_out_of_range_def
        getNumberOfBitLeft_def skip_bits_def split: sum.splits)
  then show ?thesis by (simp add: processTX_def)
qed

end
