(* ===== verification/DigiDollar.thy ===== *)
theory DigiDollar
  imports AssetConstants Sha256 Base58 BitStrings
begin

text \<open>
  The DigiDollar layer of \<^verbatim>\<open>src/src/DigiDollar.cpp\<close>: recognising a DigiDollar transaction by its
  version, reading the amounts it declares, mapping them onto its outputs, the oracle price
  commitment of a block, and the two forms of an address (bech32m and base-58).
\<close>

unbundle bit_operations_syntax

subsection \<open>Scripts\<close>

definition OP_RETURN_BYTE :: u8 where "OP_RETURN_BYTE = 0x6a"
definition OP_ORACLE_BYTE :: u8 where "OP_ORACLE_BYTE = 0xbf"
definition OP_PUSHDATA1 :: u8 where "OP_PUSHDATA1 = 0x4c"
definition OP_PUSHDATA2 :: u8 where "OP_PUSHDATA2 = 0x4d"
definition OP_PUSHDATA4 :: u8 where "OP_PUSHDATA4 = 0x4e"
definition OP_0 :: u8 where "OP_0 = 0x00"
definition OP_1NEGATE :: u8 where "OP_1NEGATE = 0x4f"
definition OP_1 :: u8 where "OP_1 = 0x51"
definition OP_16 :: u8 where "OP_16 = 0x60"

record ScriptChunk =
  sc_data :: "u8 list"
  sc_number :: int
  sc_isNumber :: bool

definition data_chunk :: "u8 list \<Rightarrow> ScriptChunk" where
  "data_chunk d = \<lparr>sc_data = d, sc_number = 0, sc_isNumber = False\<rparr>"

definition number_chunk :: "int \<Rightarrow> ScriptChunk" where
  "number_chunk n = \<lparr>sc_data = [], sc_number = n, sc_isNumber = True\<rparr>"

text \<open>
  What the op code at the cursor announces: a push of so many bytes behind a header of so many
  bytes, a compact number, or something that is not data. The branches are in the order of the code.
\<close>

datatype script_item = Push nat nat | Number int | Malformed

definition script_item_at :: "u8 list \<Rightarrow> nat \<Rightarrow> script_item" where
  "script_item_at script i =
     (let op = script ! i in
      if op < OP_PUSHDATA1 then Push (unat op) 1
      else if op = OP_PUSHDATA1 then
        (if i + 1 \<ge> length script then Malformed else Push (unat (script ! (i + 1))) 2)
      else if op = OP_PUSHDATA2 then
        (if i + 2 \<ge> length script then Malformed
         else Push (unat (script ! (i + 1)) + unat (script ! (i + 2)) * 2 ^ 8) 3)
      else if op = OP_PUSHDATA4 then
        (if i + 4 \<ge> length script then Malformed
         else Push (unat (script ! (i + 1)) + unat (script ! (i + 2)) * 2 ^ 8 +
                    unat (script ! (i + 3)) * 2 ^ 16 + unat (script ! (i + 4)) * 2 ^ 24) 5)
      else if op = OP_0 then Number 0
      else if op = OP_1NEGATE then Number (- 1)
      else if OP_1 \<le> op \<and> op \<le> OP_16 then Number (uint op - (uint OP_1 - 1))
      else Malformed)"

lemma script_item_header: "script_item_at script i = Push len hl \<Longrightarrow> 0 < hl"
  by (auto simp: script_item_at_def Let_def split: if_splits)

function splitScript :: "u8 list \<Rightarrow> nat \<Rightarrow> ScriptChunk list \<Rightarrow> ScriptChunk list option" where
  "splitScript script i chunks =
     (if i < length script then
        (case script_item_at script i of
           Malformed \<Rightarrow> None
         | Number n \<Rightarrow> splitScript script (i + 1) (chunks @ [number_chunk n])
         | Push len hl \<Rightarrow>
             if i + hl + len > length script then None
             else splitScript script (i + hl + len) (chunks @ [data_chunk (take len (drop (i + hl) script))]))
      else Some chunks)"
  by pat_completeness auto
termination
  by (relation "measure (\<lambda>(script, i, chunks). length script - i)") (auto dest: script_item_header)

declare splitScript.simps [simp del]

text \<open>
  \<^verbatim>\<open>CScriptNum\<close>: little endian with the sign in the top bit of the last byte; the code works in
  \<^verbatim>\<open>int64_t\<close>, here on 64-bit words read as signed numbers.
\<close>

definition le_word :: "u8 list \<Rightarrow> u64" where
  "le_word d = foldl (\<lambda>r i. r OR push_bit (8 * i) (ucast (d ! i))) 0 [0..<length d]"

definition chunkToInt :: "ScriptChunk \<Rightarrow> int option" where
  "chunkToInt c =
     (if sc_isNumber c then Some (sc_number c)
      else if sc_data c = [] then Some 0
      else if length (sc_data c) > 8 then None
      else
        let result = le_word (sc_data c) in
        if last (sc_data c) AND 0x80 \<noteq> 0
        then Some (sint (- (result AND NOT (push_bit (8 * (length (sc_data c) - 1)) 0x80))))
        else Some (sint result))"

definition readLE32 :: "u8 list \<Rightarrow> nat \<Rightarrow> u32" where
  "readLE32 d i =
     ucast (d ! i) OR push_bit 8 (ucast (d ! (i + 1))) OR push_bit 16 (ucast (d ! (i + 2))) OR
     push_bit 24 (ucast (d ! (i + 3)))"

definition readLE64 :: "u8 list \<Rightarrow> nat \<Rightarrow> u64" where
  "readLE64 d i = le_word (take 8 (drop i d))"

definition hexToBytes :: "string \<Rightarrow> u8 list" where
  "hexToBytes hex =
     (if hex = [] \<or> length hex mod 2 \<noteq> 0 then []
      else case Blob_of_hex hex of Inr b \<Rightarrow> b | Inl _ \<Rightarrow> [])"

definition isTaprootScript :: "u8 list \<Rightarrow> bool" where
  "isTaprootScript script \<longleftrightarrow> length script = 34 \<and> script ! 0 = OP_1 \<and> script ! 1 = 32"

definition isTaprootOutput :: "vout_t \<Rightarrow> bool" where
  "isTaprootOutput out =
     (if spk_type out = ''witness_v1_taproot'' then True
      else if spk_type out \<noteq> [] \<and> spk_type out \<noteq> ''nonstandard'' then False
      else isTaprootScript (hexToBytes (spk_hex out)))"

subsection \<open>Transactions\<close>

datatype TxType = TX_NONE | TX_MINT | TX_TRANSFER | TX_REDEEM

fun TxType_code :: "TxType \<Rightarrow> int" where
  "TxType_code TX_NONE = 0"
| "TxType_code TX_MINT = 1"
| "TxType_code TX_TRANSFER = 2"
| "TxType_code TX_REDEEM = 3"

record Metadata =
  md_type :: TxType
  md_amounts :: "u64 list"
  md_lockHeight :: u64
  md_lockTier :: u8
  md_ownerKey :: string

definition Metadata_default :: Metadata where
  "Metadata_default = \<lparr>md_type = TX_NONE, md_amounts = [], md_lockHeight = 0, md_lockTier = 0, md_ownerKey = []\<rparr>"

text \<open>The version field is a 32-bit \<^verbatim>\<open>int\<close>.\<close>

definition DIGIDOLLAR_VERSION_MASK :: u32 where "DIGIDOLLAR_VERSION_MASK = 0x0000FFFF"
definition DIGIDOLLAR_VERSION_MARKER :: u32 where "DIGIDOLLAR_VERSION_MARKER = 0x0770"

definition isDigiDollarVersion :: "int \<Rightarrow> bool" where
  "isDigiDollarVersion version \<longleftrightarrow> (word_of_int version :: u32) AND DIGIDOLLAR_VERSION_MASK = DIGIDOLLAR_VERSION_MARKER"

definition typeFromVersion :: "int \<Rightarrow> TxType" where
  "typeFromVersion version =
     (if \<not> isDigiDollarVersion version then TX_NONE
      else
        let type = drop_bit 24 (word_of_int version :: u32) AND 0xFF in
        if type = 1 then TX_MINT else if type = 2 then TX_TRANSFER else if type = 3 then TX_REDEEM else TX_NONE)"

text \<open>The amounts of a transfer or redemption: none may be negative.\<close>

fun chunk_amounts :: "ScriptChunk list \<Rightarrow> u64 list option" where
  "chunk_amounts [] = Some []"
| "chunk_amounts (c # cs) =
     (case chunkToInt c of None \<Rightarrow> None
      | Some amount \<Rightarrow> if amount < 0 then None
          else case chunk_amounts cs of None \<Rightarrow> None | Some as \<Rightarrow> Some (word_of_int amount # as))"

definition decode_mint :: "ScriptChunk list \<Rightarrow> Metadata option" where
  "decode_mint chunks =
     (if length chunks < 6 then None
      else case chunkToInt (chunks ! 2) of None \<Rightarrow> None | Some amount \<Rightarrow>
        if amount \<le> 0 then None
        else case chunkToInt (chunks ! 3) of None \<Rightarrow> None | Some lockHeight \<Rightarrow>
        if lockHeight < 0 then None
        else case chunkToInt (chunks ! 4) of None \<Rightarrow> None | Some lockTier \<Rightarrow>
        if lockTier < 0 \<or> lockTier > 9 then None
        else if sc_isNumber (chunks ! 5) \<or> length (sc_data (chunks ! 5)) \<noteq> 32 then None
        else Some \<lparr>md_type = TX_MINT, md_amounts = [word_of_int amount], md_lockHeight = word_of_int lockHeight,
                   md_lockTier = word_of_int lockTier, md_ownerKey = Blob_toHex (sc_data (chunks ! 5))\<rparr>)"

definition decode_amounts :: "TxType \<Rightarrow> ScriptChunk list \<Rightarrow> Metadata option" where
  "decode_amounts versionType chunks =
     (case chunk_amounts (drop 2 chunks) of None \<Rightarrow> None
      | Some as \<Rightarrow> if as = [] \<and> versionType = TX_TRANSFER then None
                  else Some (Metadata_default\<lparr>md_type := versionType, md_amounts := as\<rparr>))"

text \<open>The chunks of an output that carries the marker and a readable type; the loop skips the others.\<close>

definition dd_chunks :: "vout_t \<Rightarrow> (ScriptChunk list \<times> int) option" where
  "dd_chunks out =
     (if spk_type out \<noteq> ''nulldata'' then None
      else
        let script = hexToBytes (spk_hex out) in
        if length script < 4 then None
        else if script ! 0 \<noteq> OP_RETURN_BYTE then None
        else case splitScript script 1 [] of None \<Rightarrow> None
        | Some chunks \<Rightarrow>
          if length chunks < 2 then None
          else if sc_isNumber (chunks ! 0) \<or> length (sc_data (chunks ! 0)) \<noteq> 2 then None
          else if sc_data (chunks ! 0) ! 0 \<noteq> 0x44 \<or> sc_data (chunks ! 0) ! 1 \<noteq> 0x44 then None
          else map_option (Pair chunks) (chunkToInt (chunks ! 1)))"

fun decodeMetadata_outputs :: "TxType \<Rightarrow> vout_t list \<Rightarrow> Metadata option" where
  "decodeMetadata_outputs versionType [] =
     (if versionType = TX_REDEEM then Some (Metadata_default\<lparr>md_type := TX_REDEEM\<rparr>) else None)"
| "decodeMetadata_outputs versionType (out # vout) =
     (case dd_chunks out of None \<Rightarrow> decodeMetadata_outputs versionType vout
      | Some (chunks, rawType) \<Rightarrow>
          if rawType \<noteq> TxType_code versionType then None
          else if versionType = TX_MINT then decode_mint chunks
          else decode_amounts versionType chunks)"

definition decodeMetadata :: "getrawtransaction_t \<Rightarrow> nat \<Rightarrow> Metadata option" where
  "decodeMetadata tx height =
     (if height < DIGIDOLLAR_ACTIVATION_HEIGHT then None
      else if typeFromVersion (tx_version tx) = TX_NONE then None
      else decodeMetadata_outputs (typeFromVersion (tx_version tx)) (tx_vout tx))"

subsection \<open>Oracle commitments\<close>

record OracleCommitment =
  oc_epoch :: u32
  oc_price :: u64
  oc_timestamp :: int
  oc_participants :: u8
  oc_version :: u8

definition isOracleCommitmentScript :: "string \<Rightarrow> bool" where
  "isOracleCommitmentScript scriptHex \<longleftrightarrow>
     (let script = hexToBytes scriptHex
      in length script \<ge> 4 \<and> script ! 0 = OP_RETURN_BYTE \<and> script ! 1 = OP_ORACLE_BYTE)"

definition count_bits :: "u8 \<Rightarrow> nat" where
  "count_bits b = length (filter (bit b) [0..<8])"

definition decodeOracleCommitment :: "string \<Rightarrow> OracleCommitment option" where
  "decodeOracleCommitment scriptHex =
     (let script = hexToBytes scriptHex in
      if length script < 4 then None
      else if script ! 0 \<noteq> OP_RETURN_BYTE \<or> script ! 1 \<noteq> OP_ORACLE_BYTE then None
      else case splitScript script 2 [] of None \<Rightarrow> None
      | Some chunks \<Rightarrow>
        if list_ex sc_isNumber chunks then None
        else
          let d = concat (map sc_data chunks) in
          if length d < 87 then None
          else if d ! 0 \<noteq> 0x03 then None
          else
            let bitmapLength = unat (d ! 1) in
            if bitmapLength = 0 then None
            else if length d \<noteq> 1 + 1 + bitmapLength + 4 + 8 + 8 + 64 then None
            else
              let participants = of_nat (sum_list (map count_bits (take bitmapLength (drop 2 d))));
                  off = 2 + bitmapLength;
                  price = readLE64 d (off + 4)
              in if price = 0 then None
                 else Some \<lparr>oc_epoch = readLE32 d off, oc_price = price, oc_timestamp = sint (readLE64 d (off + 12)),
                            oc_participants = participants, oc_version = d ! 0\<rparr>)"

fun findOracleCommitment :: "vout_t list \<Rightarrow> OracleCommitment option" where
  "findOracleCommitment [] = None"
| "findOracleCommitment (out # vout) =
     (if \<not> isOracleCommitmentScript (spk_hex out) then findOracleCommitment vout
      else case decodeOracleCommitment (spk_hex out) of
        Some c \<Rightarrow> Some c
      | None \<Rightarrow> findOracleCommitment vout)"

subsection \<open>Outputs\<close>

definition dd_output :: "vout_t \<Rightarrow> bool" where
  "dd_output out \<longleftrightarrow> valueS out = 0 \<and> isTaprootOutput out"

definition mapAmountsToOutputs :: "getrawtransaction_t \<Rightarrow> Metadata \<Rightarrow> (u16 \<times> u64) list" where
  "mapAmountsToOutputs tx md =
     (if md_amounts md = [] then []
      else
        let ddOutputs = map (\<lambda>out. of_nat (out_n out)) (filter dd_output (tx_vout tx)) in
        if length ddOutputs \<noteq> length (md_amounts md) then []
        else filter (\<lambda>(n, a). a \<noteq> 0) (zip ddOutputs (md_amounts md)))"

fun findVaultOutput_from :: "int \<Rightarrow> vout_t list \<Rightarrow> int" where
  "findVaultOutput_from found [] = found"
| "findVaultOutput_from found (out # vout) =
     (if valueS out = 0 then findVaultOutput_from found vout
      else if \<not> isTaprootOutput out then findVaultOutput_from found vout
      else if found \<noteq> -1 then -1
      else findVaultOutput_from (int (out_n out)) vout)"

definition findVaultOutput :: "getrawtransaction_t \<Rightarrow> int" where
  "findVaultOutput tx = findVaultOutput_from (- 1) (tx_vout tx)"

subsection \<open>Addresses\<close>

definition BECH32_CHARSET :: string where
  "BECH32_CHARSET = ''qpzry9x8gf2tvdw0s3jn54khce6mua7l''"

definition BECH32M_CONST :: u32 where
  "BECH32M_CONST = 0x2bc830a3"

definition DD_NETWORKS :: "(string \<times> u8 list) list" where
  "DD_NETWORKS = [(''dgb'', [0x52, 0x85]), (''dgbt'', [0xb1, 0x29]), (''dgbrt'', [0xa3, 0xa4])]"

definition bech32_GEN :: "u32 list" where
  "bech32_GEN = [0x3b6a57b2, 0x26508e6d, 0x1ea119fa, 0x3d4233dd, 0x2a1462b3]"

definition polymod_step :: "u32 \<Rightarrow> u8 \<Rightarrow> u32" where
  "polymod_step chk v =
     (let top = drop_bit 25 chk;
          chk = push_bit 5 (chk AND 0x1ffffff) XOR ucast v
      in foldl (\<lambda>chk i. if bit top i then chk XOR bech32_GEN ! i else chk) chk [0..<5])"

definition bech32Polymod :: "u8 list \<Rightarrow> u32" where
  "bech32Polymod values = foldl polymod_step 1 values"

definition bech32HrpExpand :: "string \<Rightarrow> u8 list" where
  "bech32HrpExpand hrp =
     map (\<lambda>c. drop_bit 5 (of_char c)) hrp @ [0] @ map (\<lambda>c. of_char c AND 31) hrp"

text \<open>The inner loop of \<open>convertBits\<close>: whole groups leave the accumulator.\<close>

fun emit_groups :: "nat \<Rightarrow> u32 \<Rightarrow> nat \<Rightarrow> u8 list \<times> nat" where
  "emit_groups toBits acc nbits =
     (if 0 < toBits \<and> nbits \<ge> toBits then
        (let nbits = nbits - toBits;
             (out, rest) = emit_groups toBits acc nbits
         in (ucast (drop_bit nbits acc AND (push_bit toBits 1 - 1)) # out, rest))
      else ([], nbits))"

declare emit_groups.simps [simp del]

fun convertBits_loop :: "nat \<Rightarrow> nat \<Rightarrow> u8 list \<Rightarrow> u32 \<Rightarrow> nat \<Rightarrow> (u8 list \<times> u32 \<times> nat) option" where
  "convertBits_loop fromBits toBits [] acc nbits = Some ([], acc, nbits)"
| "convertBits_loop fromBits toBits (value # vs) acc nbits =
     (if drop_bit fromBits value \<noteq> 0 then None
      else
        let acc = push_bit fromBits acc OR ucast value;
            (out, nbits) = emit_groups toBits acc (nbits + fromBits)
        in map_option (apfst ((@) out)) (convertBits_loop fromBits toBits vs acc nbits))"

definition convertBits :: "u8 list \<Rightarrow> nat \<Rightarrow> nat \<Rightarrow> bool \<Rightarrow> u8 list option" where
  "convertBits vs fromBits toBits padding =
     (case convertBits_loop fromBits toBits vs 0 0 of None \<Rightarrow> None
      | Some (out, acc, nbits) \<Rightarrow>
          let last_group = push_bit (toBits - nbits) acc AND (push_bit toBits 1 - 1) in
          if padding then Some (if nbits > 0 then out @ [ucast last_group] else out)
          else if nbits \<ge> fromBits \<or> last_group \<noteq> 0 then None
          else Some out)"

definition bech32_pos :: "char \<Rightarrow> nat option" where
  "bech32_pos c = (if c \<in> set BECH32_CHARSET then Some (length (takeWhile (\<lambda>x. x \<noteq> c) BECH32_CHARSET)) else None)"

text \<open>\<^verbatim>\<open>s.rfind('1')\<close>: what is before and behind the last separator.\<close>

definition split_last :: "char \<Rightarrow> string \<Rightarrow> (string \<times> string) option" where
  "split_last x s =
     (if x \<in> set s
      then let behind = rev (takeWhile (\<lambda>c. c \<noteq> x) (rev s)) in Some (take (length s - length behind - 1) s, behind)
      else None)"

definition char_between :: "nat \<Rightarrow> nat \<Rightarrow> char \<Rightarrow> bool" where
  "char_between lo hi c \<longleftrightarrow> lo \<le> (of_char c :: nat) \<and> (of_char c :: nat) \<le> hi"

definition decodeTaproot :: "string \<Rightarrow> (string \<times> u8 list) option" where
  "decodeTaproot addr =
     (if length addr < 8 \<or> length addr > 90 then None
      else if list_ex (\<lambda>c. \<not> char_between 33 126 c) addr then None
      else if list_ex (char_between 97 122) addr \<and> list_ex (char_between 65 90) addr then None
      else
        let s = map tolower addr in
        case split_last (CHR ''1'') s of None \<Rightarrow> None
        | Some (hrp, symbols) \<Rightarrow>
          if hrp = [] \<or> length symbols < 6 then None
          else if list_ex (\<lambda>c. bech32_pos c = None) symbols then None
          else
            let d = map (\<lambda>c. of_nat (the (bech32_pos c))) symbols in
            if bech32Polymod (bech32HrpExpand hrp @ d) \<noteq> BECH32M_CONST then None
            else
              let d = take (length d - 6) d in
              if d = [] \<or> d ! 0 \<noteq> 1 then None
              else case convertBits (tl d) 5 8 False of None \<Rightarrow> None
              | Some program \<Rightarrow> if length program = 32 then Some (hrp, program) else None)"

definition encodeTaproot :: "string \<Rightarrow> u8 list \<Rightarrow> string" where
  "encodeTaproot hrp program =
     (let d = [1] @ (case convertBits program 8 5 True of Some ds \<Rightarrow> ds | None \<Rightarrow> []);
          chk = bech32Polymod (bech32HrpExpand hrp @ d @ replicate 6 0) XOR BECH32M_CONST
      in hrp @ ''1'' @ map (\<lambda>v. BECH32_CHARSET ! unat v) d @
         map (\<lambda>i. BECH32_CHARSET ! unat (drop_bit (5 * (5 - i)) chk AND 31)) [0..<6])"

definition doubleSha256 :: "u8 list \<Rightarrow> u8 list" where
  "doubleSha256 d = sha256 (sha256 d)"

text \<open>The empty string stands for no address, as in the code.\<close>

definition toDigiDollarAddress :: "string \<Rightarrow> string result" where
  "toDigiDollarAddress taprootAddress =
     (case decodeTaproot taprootAddress of None \<Rightarrow> Inr []
      | Some (hrp, program) \<Rightarrow>
          case List.find (\<lambda>net. hrp = fst net) DD_NETWORKS of None \<Rightarrow> Inr []
          | Some net \<Rightarrow>
              let payload = snd net @ program
              in base58_encode (payload @ take 4 (doubleSha256 payload)))"

definition fromDigiDollarAddress :: "string \<Rightarrow> string result" where
  "fromDigiDollarAddress ddAddress =
     (if ddAddress = [] \<or> length ddAddress > 64 then Inr []
      else if list_ex (\<lambda>c. c \<notin> set base58Map) ddAddress then Inr []
      else
        bindE (base58_decode ddAddress) (\<lambda>raw.
        if length raw \<noteq> 38 then Inr []
        else
          let payload = take 34 raw in
          if take 4 (doubleSha256 payload) \<noteq> drop 34 raw then Inr []
          else case List.find (\<lambda>net. payload ! 0 = snd net ! 0 \<and> payload ! 1 = snd net ! 1) DD_NETWORKS of
            None \<Rightarrow> Inr []
          | Some net \<Rightarrow> Inr (encodeTaproot (fst net) (drop 2 payload))))"

definition normalizeAddress :: "string \<Rightarrow> string result" where
  "normalizeAddress address =
     bindE (fromDigiDollarAddress address) (\<lambda>taproot. Inr (if taproot = [] then address else taproot))"

subsection \<open>What the amount map records\<close>

lemma sum_nonzero: "sum_list (map (\<lambda>p. unat (snd p)) (filter (\<lambda>(n, a). a \<noteq> 0) ps)) = sum_list (map (\<lambda>p. unat (snd p)) ps)"
  by (induction ps) auto

lemma sum_zip_snd: "length xs = length ys \<Longrightarrow> sum_list (map (\<lambda>p. f (snd p)) (zip xs ys)) = sum_list (map f ys)"
  by (induction xs ys rule: list_induct2) auto

lemma mapAmounts_outputs:
  "(n, a) \<in> set (mapAmountsToOutputs tx md) \<Longrightarrow>
     a \<noteq> 0 \<and> (\<exists>out \<in> set (tx_vout tx). dd_output out \<and> n = of_nat (out_n out))"
  by (auto simp: mapAmountsToOutputs_def Let_def dest!: set_zip_leftD split: if_splits)

lemma mapAmounts_total:
  "mapAmountsToOutputs tx md \<noteq> [] \<Longrightarrow>
     sum_list (map (\<lambda>p. unat (snd p)) (mapAmountsToOutputs tx md)) = sum_list (map unat (md_amounts md))"
  by (auto simp: mapAmountsToOutputs_def Let_def sum_nonzero sum_zip_snd split: if_splits)

end
