(* ===== verification/DigiDollar_Address.thy ===== *)
theory DigiDollar_Address
  imports DigiDollar
begin

text \<open>
  The two address forms of \<^verbatim>\<open>src/src/DigiDollar.cpp\<close> convert without loss. The bech32m side needs two
  facts: regrouping bits between bytes and five-bit symbols is invertible, and the checksum of the
  code determines its six symbols, because the polynomial step is linear and the last six symbols
  never reach its feedback.
\<close>

unbundle bit_operations_syntax

subsection \<open>Regrouping bits\<close>

definition word_bits :: "nat \<Rightarrow> 'a::len word \<Rightarrow> bool list" where
  "word_bits n w = map (\<lambda>i. bit w (n - 1 - i)) [0..<n]"

lemma length_word_bits [simp]: "length (word_bits n w) = n"
  by (simp add: word_bits_def)

lemma word_bits_0 [simp]: "word_bits 0 w = []"
  by (simp add: word_bits_def)

lemma word_bits_nth [simp]: "i < n \<Longrightarrow> word_bits n w ! i = bit w (n - 1 - i)"
  by (simp add: word_bits_def)

lemma word_bits_eq_iff: "word_bits n v = word_bits n w \<longleftrightarrow> (\<forall>k<n. bit v k = bit w k)"
proof
  assume e: "word_bits n v = word_bits n w"
  show "\<forall>k<n. bit v k = bit w k"
  proof (intro allI impI)
    fix k assume k: "k < n"
    then have "word_bits n v ! (n - 1 - k) = word_bits n w ! (n - 1 - k)" using e by simp
    then show "bit v k = bit w k" using k by simp
  qed
next
  assume a: "\<forall>k<n. bit v k = bit w k"
  show "word_bits n v = word_bits n w"
  proof (rule nth_equalityI)
    fix i assume "i < length (word_bits n v)"
    then show "word_bits n v ! i = word_bits n w ! i" using a by simp
  qed simp
qed

lemma word_bits_split: "word_bits (m + n) w = word_bits m (drop_bit n w) @ word_bits n w"
  by (rule nth_equalityI) (auto simp: nth_append bit_drop_bit_eq add.commute)

text \<open>A word below \<open>2 ^ n\<close> has no bit at \<open>n\<close> or above.\<close>

lemma drop_bit_0_iff: "drop_bit n (w :: 'a::len word) = 0 \<longleftrightarrow> (\<forall>k\<ge>n. \<not> bit w k)"
proof
  assume a: "drop_bit n w = 0"
  show "\<forall>k\<ge>n. \<not> bit w k"
  proof (intro allI impI)
    fix k assume "n \<le> k"
    then have "bit w k = bit (drop_bit n w) (k - n)" by (simp add: bit_drop_bit_eq)
    then show "\<not> bit w k" using a by simp
  qed
next
  assume "\<forall>k\<ge>n. \<not> bit w k"
  then show "drop_bit n w = 0" by (intro bit_eqI) (simp add: bit_drop_bit_eq)
qed

lemma word_bits_inj:
  assumes "word_bits n v = word_bits n w" "drop_bit n v = 0" "drop_bit n w = 0"
  shows "v = (w :: 'a::len word)"
proof (rule bit_word_eqI)
  fix k show "bit v k = bit w k"
    using assms word_bits_eq_iff[of n v w] by (cases "k < n") (auto simp: drop_bit_0_iff)
qed

lemma word_bits_push:
  fixes acc :: u32 and v :: u8
  assumes "drop_bit f v = 0" "b + f \<le> 32"
  shows "word_bits (b + f) (push_bit f acc OR ucast v) = word_bits b acc @ word_bits f v"
proof (rule nth_equalityI)
  fix i assume i: "i < length (word_bits (b + f) (push_bit f acc OR ucast v))"
  have nb: "\<And>k. f \<le> k \<Longrightarrow> \<not> bit v k" using assms(1) by (simp add: drop_bit_0_iff)
  show "word_bits (b + f) (push_bit f acc OR ucast v) ! i = (word_bits b acc @ word_bits f v) ! i"
  proof (cases "i < b")
    case True
    then have "b + f - 1 - i = (b - 1 - i) + f" "f \<le> b + f - Suc i" "b + f - Suc i < 32" using assms(2) by linarith+
    then show ?thesis using True assms(2) nb by (simp add: nth_append bit_or_iff bit_push_bit_iff bit_unsigned_iff)
  next
    case False
    define k where "k = b + f - 1 - i"
    have "k < f" "f - 1 - (i - b) = k" "b + f - Suc i = k" "k < 32" using False i assms(2) by (auto simp: k_def)
    then show ?thesis
      using False i assms(2) by (simp add: nth_append bit_or_iff bit_push_bit_iff bit_unsigned_iff flip: k_def)
  qed
qed simp

text \<open>A list of groups is determined by its bits.\<close>

abbreviation group_bits :: "nat \<Rightarrow> u8 list \<Rightarrow> bool list" where
  "group_bits n vs \<equiv> concat (map (word_bits n) vs)"

lemma length_group_bits [simp]: "length (group_bits n vs) = n * length vs"
  by (induction vs) auto

lemma group_bits_inj:
  "0 < n \<Longrightarrow> group_bits n vs = group_bits n ws \<Longrightarrow> list_all (\<lambda>v. drop_bit n v = 0) vs \<Longrightarrow>
     list_all (\<lambda>v. drop_bit n v = 0) ws \<Longrightarrow> vs = ws"
proof (induction vs arbitrary: ws)
  case Nil
  then have "length (group_bits n ws) = 0" by (metis list.map(1) concat.simps(1) list.size(3))
  then show ?case using Nil by simp
next
  case (Cons v vs)
  then have "length (group_bits n ws) = n * length (v # vs)" by (metis length_group_bits)
  then obtain w ws' where w: "ws = w # ws'" using Cons.prems(1) by (cases ws) auto
  then have "word_bits n v = word_bits n w" "group_bits n vs = group_bits n ws'" using Cons.prems(2) by auto
  then show ?case using Cons w word_bits_inj[of n v w] by simp
qed

lemma emit_groups_bits:
  assumes "0 < t" "t \<le> 8" "emit_groups t acc b = (out, b')"
  shows "word_bits b acc = group_bits t out @ word_bits b' acc \<and> b' < t \<and> list_all (\<lambda>v. drop_bit t v = 0) out"
  using assms(3)
proof (induction b arbitrary: out rule: less_induct)
  case (less b)
  show ?case
  proof (cases "t \<le> b")
    case True
    obtain os where o: "emit_groups t acc (b - t) = (os, b')"
        "out = ucast (drop_bit (b - t) acc AND (push_bit t 1 - 1)) # os"
      using less.prems True assms(1) by (subst (asm) emit_groups.simps) (auto simp: Let_def split: prod.splits)
    define v :: u8 where "v = ucast (drop_bit (b - t) acc AND (push_bit t 1 - 1))"
    have ov: "out = v # os" by (simp only: o(2) v_def)
    have m: "push_bit t 1 - 1 = (mask t :: u32)" by (simp add: mask_eq_exp_minus_1 push_bit_eq_mult)
    have bv: "bit v k \<longleftrightarrow> k < t \<and> bit acc (b - t + k)" for k
      using assms(2) unfolding v_def m by (auto simp: bit_unsigned_iff bit_and_iff bit_mask_iff bit_drop_bit_eq)
    have "word_bits b acc = word_bits t (drop_bit (b - t) acc) @ word_bits (b - t) acc"
      using word_bits_split[of t "b - t" acc] True by simp
    also have "word_bits t (drop_bit (b - t) acc) = word_bits t v"
      by (rule nth_equalityI) (auto simp: bv bit_drop_bit_eq)
    finally have w: "word_bits b acc = word_bits t v @ word_bits (b - t) acc" .
    have "drop_bit t v = 0" by (simp add: drop_bit_0_iff bv)
    then show ?thesis using less.IH[OF _ o(1)] assms(1) True w ov by simp
  next
    case False
    then show ?thesis using less.prems by (subst (asm) emit_groups.simps) auto
  qed
qed

lemma convertBits_loop_bits:
  assumes "0 < t" "t \<le> 8" "f \<le> 8"
  shows "b < t \<Longrightarrow> list_all (\<lambda>v. drop_bit f v = 0) vs \<Longrightarrow>
    \<exists>out acc' b'. convertBits_loop f t vs acc b = Some (out, acc', b') \<and> b' < t \<and>
      word_bits b acc @ group_bits f vs = group_bits t out @ word_bits b' acc' \<and> list_all (\<lambda>v. drop_bit t v = 0) out"
proof (induction vs arbitrary: acc b)
  case (Cons v vs)
  let ?a = "push_bit f acc OR ucast v"
  obtain o1 b1 where e: "emit_groups t ?a (b + f) = (o1, b1)" by fastforce
  note eb = emit_groups_bits[OF assms(1,2) e]
  from Cons.IH[of b1 ?a] eb Cons.prems obtain out acc' b' where r: "convertBits_loop f t vs ?a b1 = Some (out, acc', b')"
      "b' < t" "word_bits b1 ?a @ group_bits f vs = group_bits t out @ word_bits b' acc'" "list_all (\<lambda>v. drop_bit t v = 0) out"
    by auto
  have "word_bits b acc @ group_bits f (v # vs) = word_bits (b + f) ?a @ group_bits f vs"
    using word_bits_push[of f v b acc] Cons.prems assms by simp
  also have "\<dots> = group_bits t (o1 @ out) @ word_bits b' acc'" using eb r(3) by simp
  finally show ?case using Cons.prems e eb r by (intro exI[of _ "o1 @ out"]) (simp add: Let_def)
qed simp

lemma convertBits_loop_valid:
  "convertBits_loop f t vs acc b = Some r \<Longrightarrow> list_all (\<lambda>v. drop_bit f v = 0) vs"
  by (induction vs arbitrary: acc b r) (auto simp: Let_def split: if_splits prod.splits)

text \<open>The zero-padded rest of the accumulator.\<close>

lemma last_group_bits:
  fixes acc :: u32
  assumes "b < t" "t \<le> 8"
  defines "g \<equiv> push_bit (t - b) acc AND (push_bit t 1 - 1)"
  shows "word_bits t (ucast g :: u8) = word_bits b acc @ replicate (t - b) False" "drop_bit t (ucast g :: u8) = 0"
    "g = 0 \<longleftrightarrow> word_bits b acc = replicate b False"
proof -
  have m: "push_bit t 1 - 1 = (mask t :: u32)" by (simp add: mask_eq_exp_minus_1 push_bit_eq_mult)
  have bg: "bit g k \<longleftrightarrow> k < t \<and> t - b \<le> k \<and> bit acc (k - (t - b))" for k
    using assms(1,2) unfolding g_def m by (auto simp: bit_and_iff bit_mask_iff bit_push_bit_iff)
  have bu: "bit (ucast g :: u8) k \<longleftrightarrow> k < t \<and> t - b \<le> k \<and> bit acc (k - (t - b))" for k
    using assms(2) by (simp add: bit_unsigned_iff bg) linarith
  show "word_bits t (ucast g :: u8) = word_bits b acc @ replicate (t - b) False"
    using assms(1) by (intro nth_equalityI) (auto simp: bu nth_append)
  show "drop_bit t (ucast g :: u8) = 0" by (simp add: drop_bit_0_iff bu)
  show "g = 0 \<longleftrightarrow> word_bits b acc = replicate b False"
  proof
    assume "g = 0"
    then have z: "\<not> bit g k" for k by simp
    show "word_bits b acc = replicate b False"
    proof (rule nth_equalityI)
      fix i assume "i < length (word_bits b acc)"
      then show "word_bits b acc ! i = replicate b False ! i" using z[of "b - 1 - i + (t - b)"] assms(1) by (auto simp: bg)
    qed simp
  next
    assume w: "word_bits b acc = replicate b False"
    show "g = 0"
    proof (rule bit_eqI)
      fix k
      have "\<not> bit acc j" if "j < b" for j
        using arg_cong[OF w, of "\<lambda>l. l ! (b - 1 - j)"] that by simp
      then show "bit g k \<longleftrightarrow> bit 0 k" using assms(1) by (auto simp: bg)
    qed
  qed
qed

lemma convertBits_8_5:
  assumes "length p = 32"
  shows "\<exists>ds. convertBits p 8 5 True = Some ds \<and> group_bits 5 ds = group_bits 8 p @ replicate 4 False \<and>
    list_all (\<lambda>v. drop_bit 5 v = 0) ds"
proof -
  have ok: "list_all (\<lambda>v :: u8. drop_bit 8 v = 0) p" by (simp add: list_all_iff drop_bit_0_iff bit_imp_le_length)
  obtain out acc b where r: "convertBits_loop 8 5 p 0 0 = Some (out, acc, b)" "b < 5"
      "group_bits 8 p = group_bits 5 out @ word_bits b acc" "list_all (\<lambda>v. drop_bit 5 v = 0) out"
    using convertBits_loop_bits[of 5 8 0 p 0] ok by auto
  have "5 * length out + b = 256" using arg_cong[OF r(3), of length] assms by simp
  then have b: "b = 1" using r(2) by presburger
  show ?thesis using r b last_group_bits[of b 5 acc] by (simp add: convertBits_def Let_def)
qed

lemma convertBits_5_8:
  assumes "list_all (\<lambda>v. drop_bit 5 v = 0) ds" "group_bits 5 ds = group_bits 8 p @ replicate 4 False" "length p = 32"
  shows "convertBits ds 5 8 False = Some p"
proof -
  obtain out acc b where r: "convertBits_loop 5 8 ds 0 0 = Some (out, acc, b)" "b < 8"
      "group_bits 5 ds = group_bits 8 out @ word_bits b acc" "list_all (\<lambda>v. drop_bit 8 v = 0) out"
    using convertBits_loop_bits[of 8 5 0 ds 0] assms(1) by auto
  have e: "group_bits 8 out @ word_bits b acc = group_bits 8 p @ replicate 4 False" using assms(2) r(3) by simp
  have l: "8 * length out + b = 260" using arg_cong[OF e, of length] assms(3) by simp
  then have lb: "length out = 32" "b = 4" using r(2) by presburger+
  then have "length (group_bits 8 out) = length (group_bits 8 p)" using assms(3) by simp
  with e have g: "group_bits 8 out = group_bits 8 p" "word_bits b acc = replicate 4 False" by simp_all
  have "out = p" by (rule group_bits_inj[OF _ g(1)]) (simp_all add: list_all_iff drop_bit_0_iff bit_imp_le_length)
  then show ?thesis using r(1) g(2) lb last_group_bits(3)[of b 8 acc] by (simp add: convertBits_def Let_def)
qed

lemma convertBits_inverse:
  assumes "convertBits ds 5 8 False = Some p" "length p = 32"
  shows "convertBits p 8 5 True = Some ds"
proof -
  obtain r0 where r0: "convertBits_loop 5 8 ds 0 0 = Some r0" using assms(1) by (auto simp: convertBits_def split: option.splits)
  note valid = convertBits_loop_valid[OF r0]
  obtain out acc b where r: "convertBits_loop 5 8 ds 0 0 = Some (out, acc, b)" "b < 8"
      "group_bits 5 ds = group_bits 8 out @ word_bits b acc"
    using convertBits_loop_bits[of 8 5 0 ds 0] valid by auto
  have c: "b < 5" "push_bit (8 - b) acc AND (push_bit 8 1 - 1) = 0" "out = p"
    using assms(1) r(1) by (auto simp: convertBits_def Let_def split: if_splits)
  have "5 * length ds = 256 + b" using arg_cong[OF r(3), of length] c(3) assms(2) by simp
  then have b: "b = 4" using c(1) by presburger
  have w: "word_bits b acc = replicate 4 False" using last_group_bits(3)[of b 8 acc] c(2) b by simp
  obtain es where es: "convertBits p 8 5 True = Some es" "group_bits 5 es = group_bits 8 p @ replicate 4 False"
      "list_all (\<lambda>v. drop_bit 5 v = 0) es"
    using convertBits_8_5[OF assms(2)] by blast
  have "es = ds" by (rule group_bits_inj[of 5]) (use es r(3) c(3) w valid in auto)
  then show ?thesis using es(1) by simp
qed

subsection \<open>The checksum\<close>

lemma foldl_gen_xor:
  "foldl (\<lambda>chk i. if P i then chk XOR g i else chk) (x XOR d) is = foldl (\<lambda>chk i. if P i then chk XOR g i else chk) x is XOR (d :: u32)"
proof (induction "is" arbitrary: x)
  case (Cons i "is")
  have "(x XOR d) XOR g i = (x XOR g i) XOR d" by (simp add: ac_simps)
  then show ?case using Cons[of "x XOR g i"] Cons[of x] by simp
qed simp

text \<open>A symbol enters the state linearly, and a difference below the feedback bits moves up five bits.\<close>

lemma polymod_step_symbol: "polymod_step a v = polymod_step a 0 XOR ucast v"
proof -
  have z: "ucast (0 :: u8) = (0 :: u32)" by simp
  show ?thesis unfolding polymod_step_def Let_def z xor.right_neutral by (rule foldl_gen_xor)
qed

lemma polymod_step_low:
  assumes "drop_bit 25 d = 0"
  shows "polymod_step (a XOR d) v = polymod_step a v XOR push_bit 5 d"
proof -
  have t: "drop_bit 25 (a XOR d) = drop_bit 25 a" by (simp add: drop_bit_xor assms)
  have m: "(0x1ffffff :: u32) = mask 25" by (simp add: mask_eq_exp_minus_1)
  have l: "push_bit 5 (d AND 0x1ffffff) = push_bit 5 d"
    using assms unfolding m by (intro bit_eqI) (auto simp: bit_push_bit_iff bit_and_iff bit_mask_iff drop_bit_0_iff not_le[symmetric])
  have d: "(a XOR d) AND 0x1ffffff = (a AND 0x1ffffff) XOR (d AND 0x1ffffff)" by (simp add: bit.conj_xor_distrib2)
  have "push_bit 5 ((a XOR d) AND 0x1ffffff) XOR ucast v = push_bit 5 (a AND 0x1ffffff) XOR ucast v XOR push_bit 5 d"
    unfolding d push_bit_xor l by (simp add: ac_simps)
  then show ?thesis unfolding polymod_step_def Let_def t by (subst foldl_gen_xor[symmetric]) (simp only: xor.assoc)
qed

lemma polymod_low:
  "drop_bit (30 - 5 * length vs) d = 0 \<Longrightarrow> length vs \<le> 5 \<Longrightarrow>
     foldl polymod_step (a XOR d) vs = foldl polymod_step a vs XOR push_bit (5 * length vs) d"
proof (induction vs arbitrary: a d)
  case (Cons v vs)
  have nb: "\<not> bit d k" if "30 - 5 * length (v # vs) \<le> k" for k
    using Cons.prems(1) that by (simp add: drop_bit_0_iff)
  have d: "drop_bit 25 d = 0" using nb by (simp add: drop_bit_0_iff)
  have d': "drop_bit (30 - 5 * length vs) (push_bit 5 d) = 0"
    using nb Cons.prems(2) by (auto simp: drop_bit_0_iff bit_push_bit_iff)
  have "foldl polymod_step (a XOR d) (v # vs) = foldl polymod_step (polymod_step a v XOR push_bit 5 d) vs"
    by (simp add: polymod_step_low[OF d])
  also have "\<dots> = foldl polymod_step (polymod_step a v) vs XOR push_bit (5 * length vs) (push_bit 5 d)"
    using Cons.IH[OF d'] Cons.prems(2) by simp
  finally show ?case by (simp add: push_bit_push_bit add.commute)
qed simp

text \<open>The last six symbols, packed into 30 bits.\<close>

fun packed :: "u8 list \<Rightarrow> u32" where
  "packed [] = 0"
| "packed (c # cs) = push_bit (5 * length cs) (ucast c) XOR packed cs"

lemma polymod_tail:
  "length cs \<le> 6 \<Longrightarrow> list_all (\<lambda>v. drop_bit 5 v = 0) cs \<Longrightarrow>
     foldl polymod_step a cs = foldl polymod_step a (replicate (length cs) 0) XOR packed cs"
proof (induction cs arbitrary: a)
  case (Cons c cs)
  have low: "drop_bit (30 - 5 * length (replicate (length cs) (0 :: u8))) (ucast c :: u32) = 0"
    using Cons.prems by (auto simp: drop_bit_0_iff bit_unsigned_iff)
  have "foldl polymod_step a (c # cs) = foldl polymod_step (polymod_step a c) (replicate (length cs) 0) XOR packed cs"
    using Cons by simp
  also have "foldl polymod_step (polymod_step a c) (replicate (length cs) 0) =
      foldl polymod_step (polymod_step a 0) (replicate (length cs) 0) XOR push_bit (5 * length cs) (ucast c)"
    using polymod_low[OF low] Cons.prems(1) by (subst polymod_step_symbol) simp
  finally show ?case by (simp add: ac_simps)
qed simp

lemma bit_packed:
  "list_all (\<lambda>v. drop_bit 5 v = 0) cs \<Longrightarrow> length cs \<le> 6 \<Longrightarrow>
     word_bits (5 * length cs) (packed cs) = group_bits 5 cs \<and> drop_bit (5 * length cs) (packed cs) = 0"
proof (induction cs)
  case (Cons c cs)
  let ?n = "5 * length cs"
  have c: "\<not> bit c k" if "5 \<le> k" for k using Cons.prems(1) that by (simp add: drop_bit_0_iff)
  have IH: "word_bits ?n (packed cs) = group_bits 5 cs" "\<And>k. ?n \<le> k \<Longrightarrow> \<not> bit (packed cs) k"
    using Cons by (auto simp: drop_bit_0_iff)
  have n: "?n \<le> 25" using Cons.prems(2) by simp
  have b: "bit (packed (c # cs)) k \<longleftrightarrow> (if k < ?n then bit (packed cs) k else bit c (k - ?n))" for k
  proof (cases "bit c (k - ?n)")
    case True
    then have "k - ?n < 5" using c not_le by blast
    then have "k < 32" "k - ?n < 32" using n by linarith+
    then show ?thesis using IH(2)[of k] True by (auto simp: bit_xor_iff bit_push_bit_iff bit_unsigned_iff)
  next
    case False
    then show ?thesis using IH(2)[of k] by (auto simp: bit_xor_iff bit_push_bit_iff bit_unsigned_iff)
  qed
  have "word_bits (5 + ?n) (packed (c # cs)) = word_bits 5 (drop_bit ?n (packed (c # cs))) @ word_bits ?n (packed (c # cs))"
    by (rule word_bits_split)
  also have "word_bits 5 (drop_bit ?n (packed (c # cs))) = word_bits 5 c"
    by (rule nth_equalityI) (auto simp: bit_drop_bit_eq b simp del: packed.simps)
  also have "word_bits ?n (packed (c # cs)) = word_bits ?n (packed cs)"
    by (rule nth_equalityI) (auto simp: b simp del: packed.simps)
  finally have "word_bits (5 * length (c # cs)) (packed (c # cs)) = group_bits 5 (c # cs)" using IH(1) by simp
  moreover have "drop_bit (5 * length (c # cs)) (packed (c # cs)) = 0"
    unfolding drop_bit_0_iff b using c by auto
  ultimately show ?case by blast
qed simp

lemma polymod_step_small: "drop_bit 30 (polymod_step a v) = 0"
proof -
  have g: "drop_bit 30 x = 0 \<Longrightarrow> set is \<subseteq> {0..<5} \<Longrightarrow>
      drop_bit 30 (foldl (\<lambda>chk i. if bit t i then chk XOR bech32_GEN ! i else chk) x is) = 0" for x t and "is" :: "nat list"
  proof (induction "is" arbitrary: x)
    case (Cons i "is")
    have "i \<in> {0, 1, 2, 3, 4}" using Cons.prems(2) by auto
    then have "drop_bit 30 (bech32_GEN ! i) = 0" by (auto simp: bech32_GEN_def)
    then show ?case using Cons by (simp add: drop_bit_xor)
  qed simp
  have "drop_bit 30 (push_bit 5 (a AND 0x1ffffff) XOR ucast v) = 0"
  proof -
    have m: "(0x1ffffff :: u32) = mask 25" by (simp add: mask_eq_exp_minus_1)
    show ?thesis unfolding m drop_bit_0_iff
      by (auto simp: bit_xor_iff bit_push_bit_iff bit_and_iff bit_mask_iff bit_unsigned_iff dest: bit_imp_le_length)
  qed
  then show ?thesis unfolding polymod_step_def Let_def by (rule g) simp
qed

lemma polymod_small: "vs \<noteq> [] \<Longrightarrow> drop_bit 30 (foldl polymod_step a vs) = 0"
  by (induction vs rule: rev_induct) (simp_all add: polymod_step_small)

definition checksum :: "u8 list \<Rightarrow> u8 list" where
  "checksum pre =
     (let chk = bech32Polymod (pre @ replicate 6 0) XOR BECH32M_CONST
      in map (\<lambda>i. ucast (drop_bit (5 * (5 - i)) chk AND 31)) [0..<6])"

lemma checksum_groups:
  "length (checksum pre) = 6" "list_all (\<lambda>v. drop_bit 5 v = 0) (checksum pre)"
  "group_bits 5 (checksum pre) = word_bits 30 (bech32Polymod (pre @ replicate 6 0) XOR BECH32M_CONST)"
proof -
  define w where "w = bech32Polymod (pre @ replicate 6 0) XOR BECH32M_CONST"
  have m: "(31 :: u32) = mask 5" by (simp add: mask_eq_exp_minus_1)
  have s: "checksum pre = map (\<lambda>i. ucast (drop_bit (5 * (5 - i)) w AND 31)) [0..<6]" by (simp add: checksum_def w_def Let_def)
  have bu: "bit (ucast (drop_bit n w AND 31) :: u8) k \<longleftrightarrow> k < 5 \<and> bit w (n + k)" for n k
    unfolding m by (auto simp: bit_unsigned_iff bit_and_iff bit_mask_iff bit_drop_bit_eq)
  show "length (checksum pre) = 6" by (simp add: s)
  show "list_all (\<lambda>v. drop_bit 5 v = 0) (checksum pre)" by (simp add: s list_all_iff drop_bit_0_iff bu)
  have g: "word_bits 5 (ucast (drop_bit n w AND 31) :: u8) = word_bits 5 (drop_bit n w)" for n
    by (rule nth_equalityI) (simp_all add: bu bit_drop_bit_eq less_imp_diff_less)
  have "word_bits 30 w = word_bits 5 (drop_bit 25 w) @ word_bits 5 (drop_bit 20 w) @ word_bits 5 (drop_bit 15 w) @
      word_bits 5 (drop_bit 10 w) @ word_bits 5 (drop_bit 5 w) @ word_bits 5 (drop_bit 0 w)"
    using word_bits_split[of 5 25 w] word_bits_split[of 5 20 w] word_bits_split[of 5 15 w] word_bits_split[of 5 10 w]
      word_bits_split[of 5 5 w] by simp
  then show "group_bits 5 (checksum pre) = word_bits 30 (bech32Polymod (pre @ replicate 6 0) XOR BECH32M_CONST)"
    unfolding w_def[symmetric] using g[of 0] by (simp add: s g upt_rec)
qed

lemma xor_move: "(a XOR p = k) = (p = a XOR (k :: u32))"
proof
  assume "a XOR p = k"
  then have "a XOR k = a XOR (a XOR p)" by simp
  then show "p = a XOR k" by (simp add: xor.assoc[symmetric])
qed (simp add: xor.assoc[symmetric])

lemma checksum_iff:
  assumes "length cs = 6" "list_all (\<lambda>v. drop_bit 5 v = 0) cs"
  shows "bech32Polymod (pre @ cs) = BECH32M_CONST \<longleftrightarrow> cs = checksum pre"
proof -
  define w where "w = bech32Polymod (pre @ replicate 6 0) XOR BECH32M_CONST"
  have "bech32Polymod (pre @ cs) = bech32Polymod (pre @ replicate 6 0) XOR packed cs"
    using polymod_tail[of cs] assms by (simp add: bech32Polymod_def)
  then have e: "bech32Polymod (pre @ cs) = BECH32M_CONST \<longleftrightarrow> packed cs = w"
    unfolding w_def by (simp only: xor_move)
  have wl: "drop_bit 30 w = 0"
    using polymod_small[of "pre @ replicate 6 0" 1] by (simp add: w_def drop_bit_xor bech32Polymod_def BECH32M_CONST_def)
  have p: "word_bits 30 (packed cs) = group_bits 5 cs" "drop_bit 30 (packed cs) = 0" using bit_packed[of cs] assms by simp_all
  have "packed cs = w \<longleftrightarrow> group_bits 5 cs = group_bits 5 (checksum pre)"
    using word_bits_inj[of 30 "packed cs" w] p wl checksum_groups(3)[of pre, folded w_def] by auto
  also have "\<dots> \<longleftrightarrow> cs = checksum pre"
    using group_bits_inj[of 5 cs "checksum pre"] assms checksum_groups(2) by auto
  finally show ?thesis using e by simp
qed

subsection \<open>Addresses as text\<close>

lemma charset_facts:
  "distinct BECH32_CHARSET" "length BECH32_CHARSET = 32" "CHR ''1'' \<notin> set BECH32_CHARSET"
  by (simp_all add: BECH32_CHARSET_def)

lemma index_nth: "distinct xs \<Longrightarrow> i < length xs \<Longrightarrow> length (takeWhile (\<lambda>x. x \<noteq> xs ! i) xs) = i"
proof (induction xs arbitrary: i)
  case (Cons a xs)
  then show ?case by (cases i) auto
qed simp

lemma nth_index: "x \<in> set xs \<Longrightarrow> length (takeWhile (\<lambda>y. y \<noteq> x) xs) < length xs \<and> xs ! length (takeWhile (\<lambda>y. y \<noteq> x) xs) = x"
  by (induction xs) auto

abbreviation symbol :: "u8 \<Rightarrow> char" where
  "symbol v \<equiv> BECH32_CHARSET ! unat v"

abbreviation symbol_value :: "char \<Rightarrow> u8" where
  "symbol_value c \<equiv> of_nat (the (bech32_pos c))"

lemma five_bits: "drop_bit 5 (v :: u8) = 0 \<longleftrightarrow> unat v < 32"
proof -
  have "drop_bit 5 v = 0 \<longleftrightarrow> unat (drop_bit 5 v) = 0" by (simp add: unat_eq_0)
  also have "unat (drop_bit 5 v) = unat v div 32" by (simp add: unat_div_distrib drop_bit_eq_div)
  also have "unat v div 32 = 0 \<longleftrightarrow> unat v < 32" by (simp add: div_eq_0_iff)
  finally show ?thesis .
qed

lemma symbol_back:
  assumes "drop_bit 5 v = 0"
  shows "bech32_pos (symbol v) = Some (unat v)" "symbol_value (symbol v) = v" "symbol v \<in> set BECH32_CHARSET"
proof -
  have v: "unat v < length BECH32_CHARSET" using assms by (simp add: five_bits charset_facts)
  then show "bech32_pos (symbol v) = Some (unat v)"
    using index_nth[OF charset_facts(1) v] by (simp add: bech32_pos_def)
  then show "symbol_value (symbol v) = v" by simp
  show "symbol v \<in> set BECH32_CHARSET" using v by simp
qed

lemma symbol_of_value:
  assumes "c \<in> set BECH32_CHARSET"
  shows "drop_bit 5 (symbol_value c) = 0" "symbol (symbol_value c) = c"
proof -
  define n where "n = length (takeWhile (\<lambda>x. x \<noteq> c) BECH32_CHARSET)"
  have n: "n < 32" "BECH32_CHARSET ! n = c" using nth_index[OF assms] by (simp_all add: n_def charset_facts)
  have "symbol_value c = of_nat n" using assms by (simp add: bech32_pos_def n_def)
  moreover have "unat (of_nat n :: u8) = n" using n(1) by (simp add: unat_of_nat take_bit_nat_eq_self)
  ultimately show "drop_bit 5 (symbol_value c) = 0" "symbol (symbol_value c) = c" using n by (simp_all add: five_bits)
qed

lemma split_last_iff:
  "split_last x s = Some (a, b) \<longleftrightarrow> s = a @ x # b \<and> x \<notin> set b"
proof
  assume l: "split_last x s = Some (a, b)"
  then have x: "x \<in> set s" and b: "b = rev (takeWhile (\<lambda>c. c \<noteq> x) (rev s))" and a: "a = take (length s - length b - 1) s"
    by (auto simp: split_last_def Let_def split: if_splits)
  have "dropWhile (\<lambda>c. c \<noteq> x) (rev s) \<noteq> []" using x by (auto simp: dropWhile_eq_Nil_conv)
  then obtain r where r: "dropWhile (\<lambda>c. c \<noteq> x) (rev s) = x # r"
    by (metis (mono_tags, lifting) hd_dropWhile list.collapse)
  have "rev s = takeWhile (\<lambda>c. c \<noteq> x) (rev s) @ x # r" by (metis r takeWhile_dropWhile_id)
  then have s: "s = rev r @ x # b" by (metis b rev.simps(2) rev_append rev_rev_ident append.assoc append_Cons append_Nil)
  have "x \<notin> set b" using b by (auto dest: set_takeWhileD)
  then show "s = a @ x # b \<and> x \<notin> set b" using a s by simp
next
  assume a: "s = a @ x # b \<and> x \<notin> set b"
  then have "\<forall>y\<in>set b. y \<noteq> x" by auto
  then have "takeWhile (\<lambda>c. c \<noteq> x) (rev s) = rev b" using a by (simp add: takeWhile_append2 takeWhile_tail)
  then show "split_last x s = Some (a, b)" using a by (simp add: split_last_def Let_def)
qed

text \<open>The layout of an address: prefix, separator, version, program, checksum.\<close>

definition taproot_text :: "string \<Rightarrow> u8 list \<Rightarrow> string" where
  "taproot_text hrp ds = hrp @ ''1'' @ map symbol (ds @ checksum (bech32HrpExpand hrp @ ds))"

lemma encodeTaproot_text:
  assumes "convertBits p 8 5 True = Some ds"
  shows "encodeTaproot hrp p = taproot_text hrp (1 # ds)"
proof -
  have "unat (drop_bit n w AND 31 :: u32) = unat (ucast (drop_bit n w AND 31) :: u8)" for n w
  proof -
    have "drop_bit n w AND 31 \<le> 31" by (rule word_and_le1)
    then have "unat (drop_bit n w AND 31) < 256" by (simp add: word_le_nat_alt)
    then show ?thesis by (simp add: unsigned_ucast_eq take_bit_nat_eq_self)
  qed
  then show ?thesis using assms by (simp add: encodeTaproot_def taproot_text_def checksum_def Let_def)
qed

lemma decodeTaproot_text:
  assumes "decodeTaproot a = Some (hrp, p)"
  shows "\<exists>ds. map tolower a = taproot_text hrp (1 # ds) \<and> convertBits ds 5 8 False = Some p \<and> length p = 32 \<and> hrp \<noteq> []"
proof -
  obtain symbols where l: "split_last (CHR ''1'') (map tolower a) = Some (hrp, symbols)"
    using assms by (auto simp: decodeTaproot_def Let_def split: if_splits option.splits)
  define d where "d = map (\<lambda>c. symbol_value c) symbols"
  have f: "length symbols \<ge> 6" "hrp \<noteq> []" "\<not> list_ex (\<lambda>c. bech32_pos c = None) symbols"
      "bech32Polymod (bech32HrpExpand hrp @ d) = BECH32M_CONST"
      "take (length d - 6) d \<noteq> []" "take (length d - 6) d ! 0 = 1"
      "convertBits (tl (take (length d - 6) d)) 5 8 False = Some p" "length p = 32"
    using assms l unfolding decodeTaproot_def Let_def
    by (auto simp flip: d_def split: if_split_asm option.split_asm)
  have syms: "set symbols \<subseteq> set BECH32_CHARSET" using f(3) by (auto simp: list_ex_iff bech32_pos_def split: if_splits)
  have d5: "list_all (\<lambda>v. drop_bit 5 v = 0) d" using syms symbol_of_value(1) by (auto simp: d_def list_all_iff)
  have chars: "map symbol d = symbols"
    unfolding d_def using syms symbol_of_value(2) by (induction symbols) auto
  define ds cs where "ds = tl (take (length d - 6) d)" and "cs = drop (length d - 6) d"
  have "length cs = 6" using f(1) by (simp add: cs_def d_def)
  have "take (length d - 6) d = 1 # ds" unfolding ds_def using f(5,6) by (cases "take (length d - 6) d") auto
  then have dd: "d = (1 # ds) @ cs" using append_take_drop_id[of "length d - 6" d] by (simp add: cs_def)
  have "bech32Polymod ((bech32HrpExpand hrp @ 1 # ds) @ cs) = BECH32M_CONST" using f(4) dd by simp
  moreover have "list_all (\<lambda>v. drop_bit 5 v = 0) cs" using d5 dd by simp
  ultimately have "cs = checksum (bech32HrpExpand hrp @ 1 # ds)"
    using checksum_iff[OF \<open>length cs = 6\<close>, of "bech32HrpExpand hrp @ 1 # ds"] by blast
  then have "map tolower a = taproot_text hrp (1 # ds)"
    using l[unfolded split_last_iff] dd chars by (simp add: taproot_text_def)
  then show ?thesis using f(2,7,8) unfolding ds_def by blast
qed

lemma encode_decode_taproot:
  "decodeTaproot a = Some (hrp, p) \<Longrightarrow> encodeTaproot hrp p = map tolower a \<and> length p = 32"
  using decodeTaproot_text[of a hrp p] convertBits_inverse encodeTaproot_text by fastforce

subsection \<open>DigiDollar addresses\<close>

lemma base58_encode_text:
  assumes "base58_encode data = Inr s" "data \<noteq> []" "data ! 0 \<noteq> 0" "length data = 38"
  shows "set s \<subseteq> set base58Map" "length s \<le> 64" "s \<noteq> []"
proof -
  obtain ds where ds: "s = replicate (leading (\<lambda>b. b = 0) data) (base58Map ! 0) @ map (\<lambda>d. base58Map ! d) (rev ds)"
      "canonical 58 ds" "dval 58 ds = dval 256 (byte_digits data)"
    using base58_encode_ok[OF assms(2)] assms(1) by auto
  have "leading (\<lambda>b. b = 0) data = 0" using assms(2,3) by (cases "(\<lambda>b. b = (0::u8), data)" rule: leading.cases) auto
  then have s: "s = map (\<lambda>d. base58Map ! d) (rev ds)" using ds(1) by simp
  have can: "list_all (\<lambda>d. d < 58) ds" "ds \<noteq> []" using ds(2) by (simp_all add: canonical_def)
  have "length base58Map = 58" by (simp add: base58Map_def)
  then show "set s \<subseteq> set base58Map" using can(1) by (auto simp: s list_all_iff)
  show "s \<noteq> []" using can(2) by (simp add: s)
  show "length s \<le> 64"
  proof (cases "dval 58 ds = 0")
    case True
    then have "ds = [0]" using canonical_unique[OF ds(2), of "[0]"] by (simp add: canonical_def)
    then show ?thesis by (simp add: s)
  next
    case False
    have "(58 :: nat) ^ (length ds - 1) \<le> dval 58 ds" by (rule canonical_length(1)[OF ds(2) False])
    also have "\<dots> < 256 ^ length data" unfolding ds(3) using dval_less[OF byte_digits_less[of data]] by simp
    also have "\<dots> \<le> 58 ^ (length data * 138 div 100 + 1)" by (rule base58_buffer)
    finally have "length ds - 1 < length data * 138 div 100 + 1" by (rule power_less_imp_less_exp[of "58::nat", rotated]) simp
    then show ?thesis using assms(4) by (simp add: s)
  qed
qed

lemma networks: "net \<in> set DD_NETWORKS \<Longrightarrow> length (snd net) = 2 \<and> snd net ! 0 \<noteq> 0 \<and>
    List.find (\<lambda>n. (snd net @ p) ! 0 = snd n ! 0 \<and> (snd net @ p) ! 1 = snd n ! 1) DD_NETWORKS = Some net"
  by (auto simp: DD_NETWORKS_def)

lemma dd_address_back:
  assumes "toDigiDollarAddress a = Inr x" "x \<noteq> []"
  shows "fromDigiDollarAddress x = Inr (map tolower a)"
proof -
  obtain hrp p where d: "decodeTaproot a = Some (hrp, p)"
    using assms by (auto simp: toDigiDollarAddress_def split: option.splits)
  then obtain net where net: "List.find (\<lambda>net. hrp = fst net) DD_NETWORKS = Some net"
    using assms by (auto simp: toDigiDollarAddress_def split: option.splits)
  have n: "net \<in> set DD_NETWORKS" "fst net = hrp" using net by (auto simp: find_Some_iff)
  note nw = networks[OF n(1)]
  note same = encode_decode_taproot[OF d]
  define payload where "payload = snd net @ p"
  define raw where "raw = payload @ take 4 (doubleSha256 payload)"
  have l: "length payload = 34" "length raw = 38" using nw[of p] same by (simp_all add: payload_def raw_def doubleSha256_def)
  have e: "base58_encode raw = Inr x" using assms(1) d net by (simp add: toDigiDollarAddress_def Let_def raw_def payload_def)
  have r0: "raw \<noteq> []" "raw ! 0 \<noteq> 0" using nw[of p] l by (auto simp: raw_def payload_def nth_append)
  note shape = base58_encode_text[OF e r0 l(2)]
  have dec: "base58_decode x = Inr raw" using base58_decode_encode[OF r0(1)] e by simp
  have "take 34 raw = payload" "drop 34 raw = take 4 (doubleSha256 payload)" using l(1) by (simp_all add: raw_def)
  then show ?thesis
    using shape dec l nw[of p] n(2) same
    by (auto simp: fromDigiDollarAddress_def Let_def list_ex_iff payload_def)
qed

lemma symbol_chars:
  "list_all (\<lambda>c. char_between 33 126 c \<and> \<not> char_between 65 90 c \<and> tolower c = c) BECH32_CHARSET"
  by code_simp

lemma decode_encode_taproot:
  assumes hrp: "hrp \<in> fst ` set DD_NETWORKS" and p: "length p = 32"
  shows "decodeTaproot (encodeTaproot hrp p) = Some (hrp, p)"
proof -
  obtain ds where ds: "convertBits p 8 5 True = Some ds" "group_bits 5 ds = group_bits 8 p @ replicate 4 False"
    "list_all (\<lambda>v. drop_bit 5 v = 0) ds" using convertBits_8_5[OF p] by blast
  have len: "length ds = 52" using arg_cong[OF ds(2), of length] p by simp
  define d where "d = 1 # ds @ checksum (bech32HrpExpand hrp @ 1 # ds)"
  have t: "encodeTaproot hrp p = hrp @ ''1'' @ map symbol d"
    using encodeTaproot_text[OF ds(1)] by (simp add: taproot_text_def d_def)
  have one: "drop_bit 5 (1 :: u8) = 0" by simp
  have d5: "list_all (\<lambda>v. drop_bit 5 v = 0) d"
    using ds(3) checksum_groups(2) one by (simp add: d_def)
  have syms: "symbol v \<in> set BECH32_CHARSET" "bech32_pos (symbol v) = Some (unat v)" if "v \<in> set d" for v
    using symbol_back d5 that by (auto simp: list_all_iff)
  have low: "list_all (\<lambda>c. char_between 33 126 c \<and> \<not> char_between 65 90 c \<and> tolower c = c) (map symbol d)"
    using symbol_chars syms(1) by (auto simp: list_all_iff)
  have h: "hrp = ''dgb'' \<or> hrp = ''dgbt'' \<or> hrp = ''dgbrt''" using hrp by (auto simp: DD_NETWORKS_def)
  have hlow: "list_all (\<lambda>c. char_between 33 126 c \<and> \<not> char_between 65 90 c \<and> tolower c = c) (hrp @ ''1'')"
  proof -
    have "list_all (list_all (\<lambda>c. char_between 33 126 c \<and> \<not> char_between 65 90 c \<and> tolower c = c))
      [''dgb1'', ''dgbt1'', ''dgbrt1'']" by code_simp
    then show ?thesis using h by auto
  qed
  have all: "list_all (\<lambda>c. char_between 33 126 c \<and> \<not> char_between 65 90 c \<and> tolower c = c) (hrp @ ''1'' @ map symbol d)"
    using low hlow by simp
  have s1: "length (encodeTaproot hrp p) = length hrp + 60" using len checksum_groups(1) by (simp add: t d_def)
  have hl: "3 \<le> length hrp" "length hrp \<le> 5" using h by auto
  have s2: "map tolower (encodeTaproot hrp p) = hrp @ CHR ''1'' # map symbol d"
    unfolding t using all by (intro trans[OF map_idI]) (auto simp: list_all_iff)
  have no1: "CHR ''1'' \<notin> set (map symbol d)" using syms(1) charset_facts(3) by auto
  have sl: "split_last (CHR ''1'') (hrp @ CHR ''1'' # map symbol d) = Some (hrp, map symbol d)"
    using no1 by (simp add: split_last_iff)
  have vals: "map (\<lambda>c. of_nat (the (bech32_pos c))) (map symbol d) = d"
    using syms(2) by (simp add: o_def map_idI)
  have chk: "bech32Polymod (bech32HrpExpand hrp @ d) = BECH32M_CONST"
    using checksum_iff[of "checksum (bech32HrpExpand hrp @ 1 # ds)" "bech32HrpExpand hrp @ 1 # ds"] checksum_groups
    by (simp add: d_def)
  have dl: "length d = 59" "take (length d - 6) d = 1 # ds" using len checksum_groups(1) by (simp_all add: d_def)
  have no_upper: "\<not> list_ex (char_between 65 90) (encodeTaproot hrp p)" "\<not> list_ex (\<lambda>c. \<not> char_between 33 126 c) (encodeTaproot hrp p)"
    unfolding t using all by (auto simp: list_all_iff list_ex_iff)
  have known: "\<not> list_ex (\<lambda>c. bech32_pos c = None) (map symbol d)" using syms(2) by (auto simp: list_ex_iff)
  have conv: "convertBits ds 5 8 False = Some p" by (rule convertBits_5_8[OF ds(3,2) p])
  show ?thesis
    unfolding decodeTaproot_def Let_def s1 s2 sl
    using no_upper known hl dl chk conv p by (auto simp: vals simp del: map_map)
qed

lemma dd_address_made:
  assumes "hrp \<in> fst ` set DD_NETWORKS" "length p = 32"
  shows "\<exists>x. toDigiDollarAddress (encodeTaproot hrp p) = Inr x \<and> x \<noteq> []"
proof -
  obtain net where net: "List.find (\<lambda>net. hrp = fst net) DD_NETWORKS = Some net" "net \<in> set DD_NETWORKS"
    using assms(1) by (auto simp: DD_NETWORKS_def)
  define raw where "raw = (snd net @ p) @ take 4 (doubleSha256 (snd net @ p))"
  have r: "raw \<noteq> []" "raw ! 0 \<noteq> 0" "length raw = 38"
    using networks[OF net(2)] assms(2) by (auto simp: raw_def nth_append doubleSha256_def)
  obtain x where x: "base58_encode raw = Inr x" using base58_encode_ok[OF r(1)] by blast
  then show ?thesis
    using base58_encode_text(3)[OF x r] decode_encode_taproot[OF assms] net(1)
    by (simp add: toDigiDollarAddress_def Let_def raw_def)
qed

end
