(* ===== verification/AssetId.thy ===== *)
theory AssetId
  imports StreamMoves AssetConstants Sha256 Ripemd160 Base58
begin

text \<open>
  How an asset gets its public names: the metadata CID (\<^verbatim>\<open>IPFS::sha256ToCID\<close> and its inverse in
  \<^verbatim>\<open>src/src/IPFS.cpp\<close>) and the asset id (\<^verbatim>\<open>DigiAsset::calculateAssetId\<close> in
  \<^verbatim>\<open>src/src/DigiAsset.cpp\<close>), built from the hash functions and the base-58 codec. The theory shows
  that the CID conversion loses nothing and that the first two letters of an asset id are determined
  by the lock status and the aggregation of the asset.
\<close>

unbundle bit_operations_syntax

subsection \<open>Metadata CIDs\<close>

definition base32_chars :: string where
  "base32_chars = ''abcdefghijklmnopqrstuvwxyz234567''"

fun base32_out :: "nat \<Rightarrow> BitIO \<Rightarrow> string result" where
  "base32_out 0 s = Inr []"
| "base32_out (Suc k) s =
     bindE (getBits 5 s) (\<lambda>(v, s).
     bindE (str_get base32_chars (unat v)) (\<lambda>c.
     bindE (base32_out k s) (\<lambda>cs. Inr (c # cs))))"

definition sha256ToCID :: "BitIO \<Rightarrow> string result" where
  "sha256ToCID hash =
     (if getLength hash \<noteq> 256 then Inl (OutOfRange ''Invalid Hash Size'')
      else
        bindE (appendBits 0x01551220 32 BitIO_empty) (\<lambda>d.
        bindE (appendBits_stream hash d) (\<lambda>d.
        bindE (base32_out 58 (movePositionToBeginning (appendZeros 2 d))) (\<lambda>cs. Inr (CHR ''b'' # cs)))))"

definition sha256ToCID_hex :: "string \<Rightarrow> string result" where
  "sha256ToCID_hex hash = bindE (makeHexString hash) sha256ToCID"

definition find_char :: "string \<Rightarrow> char \<Rightarrow> nat option" where
  "find_char cs c = (if c \<in> set cs then Some (length (takeWhile (\<lambda>x. x \<noteq> c) cs)) else None)"

definition cidToSha256 :: "string \<Rightarrow> string result" where
  "cidToSha256 cid =
     (if length cid \<noteq> 59 \<or> hd cid \<noteq> CHR ''b'' then Inl (InvalidCID cid)
      else
        bindE (foldE (\<lambda>c d. case find_char base32_chars c of
                 None \<Rightarrow> Inl (InvalidCID cid)
               | Some pos \<Rightarrow> appendBits (of_nat pos) 5 d) (tl cid) BitIO_empty) (\<lambda>d.
        bindE (getBits 32 (movePositionToBeginning d)) (\<lambda>(h, d).
        if h \<noteq> 0x01551220 then Inl (InvalidCID cid)
        else bindE (getHexString 64 d) (\<lambda>(s, _). Inr s))))"

subsection \<open>Script hashes\<close>

text \<open>\<^verbatim>\<open>std::to_string\<close> of an unsigned number.\<close>

fun to_string :: "nat \<Rightarrow> string" where
  "to_string n = (if n < 10 then [char_of (48 + n)] else to_string (n div 10) @ [char_of (48 + n mod 10)])"

declare to_string.simps [simp del]

definition insertSRHash :: "u8 list \<Rightarrow> u8 list \<Rightarrow> nat \<Rightarrow> u8 list result" where
  "insertSRHash dataToHash result startIndex =
     (let digest = ripemd160 (sha256 dataToHash)
      in foldE (\<lambda>i result. vec_set result (i + startIndex) (digest ! i)) [0..<20] result)"

definition insertSRHash_string :: "string \<Rightarrow> u8 list \<Rightarrow> nat \<Rightarrow> u8 list result" where
  "insertSRHash_string dataToHash result startIndex = insertSRHash (map char_to_u8 dataToHash) result startIndex"

lemma getBitcoinDataHeader_uses:
  "getBitcoinDataHeader s = Inr (h, s') \<Longrightarrow> uses (if h = BITIO_BITCOIN_TYPE_DATA then 0 else 8) s s'"
  by (auto simp: getBitcoinDataHeader_def bindE_Inr_iff invalidOpCode_def uses_def getNumberOfBitLeft_def word_le_def
      split: if_splits dest!: getBits_moves movePositionBy_moves)

lemma getBytes_uses: "getBytes n s = Inr (v, s') \<Longrightarrow> position s \<le> blength s \<Longrightarrow> uses (8 * n) s s'"
proof (induction n arbitrary: s v)
  case (Suc n)
  then obtain b s1 bs where g: "getBits 8 s = Inr (b, s1)" "getBytes n s1 = Inr (bs, s')"
    by (auto simp: bindE_Inr_iff)
  then have u: "uses 8 s s1" using getBits_uses by blast
  then show ?case using Suc.IH[OF g(2)] uses_trans[OF u, of "8 * n" s'] by (auto simp: uses_def)
qed (simp add: uses_def)

lemma getBitcoinData_uses: "getBitcoinData s = Inr (v, s') \<Longrightarrow> uses 8 s s'"
proof -
  assume a: "getBitcoinData s = Inr (v, s')"
  then obtain n s1 where n: "bitcoinDataLength s = Inr (n, s1)" "getBytes n s1 = Inr (v, s')"
    by (auto simp: getBitcoinData_def bindE_Inr_iff)
  have u: "uses 8 s s1"
    using n(1) by (auto simp: bitcoinDataLength_def bindE_Inr_iff invalidOpCode_def uses_def getNumberOfBitLeft_def
      split: if_splits dest!: getBits_moves)
  then show ?thesis using getBytes_uses[OF n(2)] uses_trans[OF u, of "8 * n" s'] by (auto simp: uses_def)
qed

text \<open>The last push of the input script, and the number of pushes.\<close>

function scriptSig_parts :: "nat \<Rightarrow> u8 list \<Rightarrow> BitIO \<Rightarrow> (nat \<times> u8 list) result" where
  "scriptSig_parts parts lastPart s =
     (if getNumberOfBitLeft s > 0 then
        bindE (getBitcoinDataHeader s) (\<lambda>(h, s1).
        if h = BITIO_BITCOIN_TYPE_DATA
        then bindE (getBitcoinData s1) (\<lambda>(d, s2). scriptSig_parts (parts + 1) d s2)
        else scriptSig_parts parts lastPart s1)
      else Inr (parts, lastPart))"
  by pat_completeness auto
termination
  by (relation "measure (\<lambda>(parts, lastPart, s). getNumberOfBitLeft s)")
    (auto simp: uses_def dest!: getBitcoinDataHeader_uses getBitcoinData_uses)

declare scriptSig_parts.simps [simp del]

definition calcSimpleScriptPubKey :: "vin_t \<Rightarrow> u8 list result" where
  "calcSimpleScriptPubKey vinData =
     (if scriptSig_hex vinData = [] then
        (if txinwitness vinData = [] then Inl UndefinedBehaviour
         else bindE (Blob_of_hex (last (txinwitness vinData))) (\<lambda>lastPart.
              insertSRHash lastPart ([0x00, 0x14] @ replicate 20 0) 2))
      else
        bindE (makeHexString (scriptSig_hex vinData)) (\<lambda>scriptSig.
        bindE (scriptSig_parts 0 [] scriptSig) (\<lambda>(parts, lastPart).
        if txinwitness vinData = [] \<and> parts < 3
        then insertSRHash lastPart ([0x76, 0xa9, 0x14] @ replicate 20 0 @ [0x88, 0xac]) 3
        else insertSRHash lastPart ([0xa9, 0x14] @ replicate 20 0 @ [0x87]) 2)))"

subsection \<open>Asset ids\<close>

definition headerOptions :: "u16 list" where
  "headerOptions = [0x2e37, 0x2e6b, 0x2e4e, 0, 0x20ce, 0x2102, 0x20e4, 0]"

text \<open>The checksum that closes the binary form: four bytes of the double hash of the first 24.\<close>

definition assetIdCheck :: "u8 list \<Rightarrow> u8 list result" where
  "assetIdCheck assetIdBinary =
     (let secondHash = sha256 (sha256 (take 24 assetIdBinary))
      in foldE (\<lambda>i b. vec_set b (24 + i) (secondHash ! i)) [0..<4] assetIdBinary)"

definition calculateAssetId :: "bool \<Rightarrow> vin_t \<Rightarrow> u8 \<Rightarrow> string result" where
  "calculateAssetId is_locked firstVin issuanceFlags =
     (let assetIdBinary = replicate 28 0;
          header = headerOptions ! unat (drop_bit 2 (issuanceFlags AND 0x1c));
          assetIdBinary = assetIdBinary[0 := ucast (drop_bit 8 header), 1 := ucast (header AND 0xff)]
      in bindE (if is_locked
                then insertSRHash_string (vin_txid firstVin @ '':'' @ to_string (vin_n firstVin)) assetIdBinary 2
                else bindE (calcSimpleScriptPubKey firstVin) (\<lambda>spk. insertSRHash spk assetIdBinary 2)) (\<lambda>assetIdBinary.
         let assetIdBinary = assetIdBinary[22 := 0, 23 := drop_bit 5 issuanceFlags]
         in bindE (assetIdCheck assetIdBinary) base58_encode))"

subsection \<open>The CID conversion loses nothing\<close>

lemma find_char_nth: "distinct cs \<Longrightarrow> i < length cs \<Longrightarrow> find_char cs (cs ! i) = Some i"
proof (induction cs arbitrary: i)
  case (Cons a cs)
  then show ?case by (cases i) (auto simp: find_char_def nth_Cons split: if_splits)
qed simp

lemma base32_chars_facts: "distinct base32_chars" "length base32_chars = 32"
  by (simp_all add: base32_chars_def)

lemma base32_out_back:
  assumes "ahead s bl" "length bl = 5 * k" "bitio_inv d"
  shows "\<exists>cs d'. base32_out k s = Inr cs \<and> length cs = k \<and>
    (\<forall>e. foldE (\<lambda>c d. case find_char base32_chars c of None \<Rightarrow> Inl e | Some pos \<Rightarrow> appendBits (of_nat pos) 5 d) cs d = Inr d') \<and>
    bitio_inv d' \<and> position d' = position d \<and> to_bits d' = to_bits d @ bl"
  using assms
proof (induction k arbitrary: s bl d)
  case (Suc k)
  define a b where "a = take 5 bl" "b = drop 5 bl"
  have ab: "bl = a @ b" "length a = 5" "length b = 5 * k" using Suc.prems(2) by (simp_all add: a_b_def)
  have sa: "ahead s a" "ahead (skip_bits 5 s) b" using Suc.prems(1) ab by (auto simp: ahead_append_iff)
  then have inv: "bitio_inv s" "take 5 (rest_bits s) = a" using ab(2) by (auto simp: ahead_def)
  then have av: "position s + 5 \<le> blength s" using ab(2) by (auto simp: rest_bits_def dest: arg_cong[of _ _ length])
  obtain v where v: "getBits 5 s = Inr (v, skip_bits 5 s)" "fits 5 v" "val_bits 5 v = a"
    using getBits_spec[OF inv(1) _ _ av] inv(2) by (auto simp: skip_bits_def)
  have u: "unat v < 32" using v(2) by (simp add: fits_def)
  then have c: "str_get base32_chars (unat v) = Inr (base32_chars ! unat v)"
      "find_char base32_chars (base32_chars ! unat v) = Some (unat v)"
    using base32_chars_facts find_char_nth by (simp_all add: str_get_def)
  obtain d1 where d1: "appendBits v 5 d = Inr d1" "bitio_inv d1" "position d1 = position d" "to_bits d1 = to_bits d @ a"
    using appendBits_spec[OF Suc.prems(3), of 5 v] v by auto
  from Suc.IH[OF sa(2) ab(3) d1(2)] obtain cs d2 where "base32_out k (skip_bits 5 s) = Inr cs" "length cs = k"
      "\<And>e. foldE (\<lambda>c d. case find_char base32_chars c of None \<Rightarrow> Inl e | Some pos \<Rightarrow> appendBits (of_nat pos) 5 d) cs d1 = Inr d2"
      "bitio_inv d2" "position d2 = position d1" "to_bits d2 = to_bits d1 @ b" by blast
  then show ?case using v(1) c d1 ab(1) by (intro exI[of _ "base32_chars ! unat v # cs"] exI[of _ d2]) simp
qed simp

lemma cid_round_trip:
  assumes "hex_chars m" "length m = 64"
  shows "bindE (sha256ToCID_hex m) cidToSha256 = Inr (map tolower m)"
proof -
  obtain h where h: "makeHexString m = Inr h" "holds h (hex_image m)" using makeHexString_holds[OF assms(1)] by blast
  have l: "length (hex_image m) = 256" using assms(2) by (simp add: hex_image_def length_fields_image o_def sum_list_triv)
  then have hl: "getLength h = 256" using h(2) by (auto simp: holds_def getLength_def dest: arg_cong[of _ _ length])
  have ok: "field_ok 32 0x01551220" by (rule field_okI) simp_all
  obtain d1 where d1: "appendBits 0x01551220 32 BitIO_empty = Inr d1" "holds d1 (val_bits 32 0x01551220)"
    using append_holds[OF holds_empty ok] by auto
  obtain d2 where d2: "appendBits_stream h d1 = Inr d2" "holds d2 (val_bits 32 0x01551220 @ hex_image m)"
    using appendBits_stream_spec[of h d1] h(2) d1(2) by (auto simp: holds_def)
  define s where "s = movePositionToBeginning (appendZeros 2 d2)"
  have s: "holds s (val_bits 32 0x01551220 @ hex_image m @ replicate 2 False)"
    using appendZeros_spec[of d2 2] d2(2) by (auto simp: holds_def s_def movePositionToBeginning_def)
  have "length (val_bits 32 0x01551220 @ hex_image m @ replicate 2 False) = 5 * 58" using l by simp
  from base32_out_back[OF holds_ahead[OF s] this, of BitIO_empty] obtain cs d where
      o: "base32_out 58 s = Inr cs" "length cs = 58"
        "\<And>e. foldE (\<lambda>c d. case find_char base32_chars c of None \<Rightarrow> Inl e | Some pos \<Rightarrow> appendBits (of_nat pos) 5 d) cs BitIO_empty = Inr d"
        "holds d (val_bits 32 0x01551220 @ hex_image m @ replicate 2 False)"
    unfolding holds_def BitIO_empty_def by (force simp: bitio_inv_def to_bits_def)
  have b: "movePositionToBeginning d = d" using o(4) by (simp add: holds_def movePositionToBeginning_def)
  have g: "getBits 32 d = Inr (0x01551220, skip_bits 32 d)" "ahead (skip_bits 32 d) (hex_image m)"
    using ahead_get_append[OF holds_ahead[OF o(4)] ok] by (auto simp: ahead_append_iff)
  have "cidToSha256 (CHR ''b'' # cs) = Inr (map tolower m)"
    using o(2,3) b g getHexString_image[OF assms(1) g(2)] assms(2) by (simp add: cidToSha256_def)
  then show ?thesis using h(1) hl d1(1) d2(1) o(1)
    by (simp add: sha256ToCID_hex_def sha256ToCID_def flip: s_def)
qed

subsection \<open>What an asset id tells\<close>

lemma foldE_vec_set:
  "k + n \<le> length r \<Longrightarrow>
     foldE (\<lambda>i r. vec_set r (i + k) (f i)) [0..<n] r = Inr (take k r @ map f [0..<n] @ drop (k + n) r)"
proof (induction n)
  case (Suc n)
  then have "k + n < length r" by simp
  then have "(take k r @ map f [0..<n] @ drop (k + n) r)[n + k := f n] = take k r @ map f [0..<Suc n] @ drop (k + Suc n) r"
    by (simp add: list_update_append min_def Cons_nth_drop_Suc[symmetric])
  moreover have "n + k < length (take k r @ map f [0..<n] @ drop (k + n) r)" using Suc.prems by simp
  ultimately show ?case using Suc by (simp add: foldE_append vec_set_def)
qed simp

lemma insertSRHash_ok:
  assumes "k + 20 \<le> length r"
  shows "insertSRHash d r k = Inr (take k r @ ripemd160 (sha256 d) @ drop (k + 20) r)"
proof -
  have "map ((!) (ripemd160 (sha256 d))) [0..<20] = ripemd160 (sha256 d)"
    using map_nth[of "ripemd160 (sha256 d)"] by simp
  then show ?thesis using foldE_vec_set[OF assms, of "(!) (ripemd160 (sha256 d))"] by (simp add: insertSRHash_def Let_def)
qed

text \<open>The shape of the binary form: header, hash, footer, checksum.\<close>

lemma calculateAssetId_shape:
  assumes "calculateAssetId is_locked vin f = Inr s"
  shows "\<exists>h c. length h = 20 \<and> length c = 4 \<and>
    base58_encode ([ucast (drop_bit 8 (headerOptions ! unat (drop_bit 2 (f AND 0x1c)))),
      ucast (headerOptions ! unat (drop_bit 2 (f AND 0x1c)) AND 0xff)] @ h @ [0, drop_bit 5 f] @ c) = Inr s"
proof -
  define hd1 hd2 :: u8 where "hd1 = ucast (drop_bit 8 (headerOptions ! unat (drop_bit 2 (f AND 0x1c))))"
    and "hd2 = ucast (headerOptions ! unat (drop_bit 2 (f AND 0x1c)) AND 0xff)"
  define b0 :: "u8 list" where "b0 = (replicate 28 0)[0 := hd1, 1 := hd2]"
  have b0: "b0 = [hd1, hd2] @ replicate 26 0" by (simp add: b0_def numeral_eq_Suc)
  have ins: "insertSRHash d b0 2 = Inr ([hd1, hd2] @ ripemd160 (sha256 d) @ replicate 6 0)" for d
    by (subst insertSRHash_ok) (simp_all add: b0 numeral_eq_Suc)
  have chk: "assetIdCheck ([hd1, hd2] @ h @ [0, drop_bit 5 f] @ replicate 4 0) =
      Inr ([hd1, hd2] @ h @ [0, drop_bit 5 f] @ take 4 (sha256 (sha256 ([hd1, hd2] @ h @ [0, drop_bit 5 f]))))"
    if "length h = 20" for h
  proof -
    let ?b = "[hd1, hd2] @ h @ [0, drop_bit 5 f] @ replicate 4 0"
    have t: "take 24 ?b = [hd1, hd2] @ h @ [0, drop_bit 5 f]" using that by simp
    define c where "c = sha256 (sha256 (take 24 ?b))"
    have "map ((!) c) [0..<4] = take 4 c" by (rule nth_equalityI) (simp_all add: c_def)
    then show ?thesis using foldE_vec_set[of 24 4 ?b "(!) c"] that t
      by (simp add: assetIdCheck_def Let_def c_def add.commute[of _ "24::nat"])
  qed
  obtain h where h: "length h = 20" "bindE (assetIdCheck (([hd1, hd2] @ h @ replicate 6 0)[22 := 0, 23 := drop_bit 5 f])) base58_encode = Inr s"
  proof -
    define K where "K = (\<lambda>b :: u8 list. bindE (assetIdCheck (b[22 := 0, 23 := drop_bit 5 f])) base58_encode)"
    have "\<exists>d. bindE (insertSRHash d b0 2) K = Inr s"
    proof (cases is_locked)
      case True
      then show ?thesis using assms
        unfolding calculateAssetId_def Let_def hd1_def[symmetric] hd2_def[symmetric] b0_def[symmetric] insertSRHash_string_def
          K_def[symmetric] by auto
    next
      case False
      then show ?thesis using assms
        unfolding calculateAssetId_def Let_def hd1_def[symmetric] hd2_def[symmetric] b0_def[symmetric] K_def[symmetric]
        by (cases "calcSimpleScriptPubKey vin") auto
    qed
    then have "\<exists>d. K ([hd1, hd2] @ ripemd160 (sha256 d) @ replicate 6 0) = Inr s" unfolding ins by simp
    then have "\<exists>d. bindE (assetIdCheck (([hd1, hd2] @ ripemd160 (sha256 d) @ replicate 6 0)[22 := 0, 23 := drop_bit 5 f])) base58_encode = Inr s"
      unfolding K_def .
    then show ?thesis using that length_ripemd160 by blast
  qed
  have e: "([hd1, hd2] @ h @ replicate 6 0)[22 := 0, 23 := drop_bit 5 f] = [hd1, hd2] @ h @ [0, drop_bit 5 f] @ replicate 4 0"
    using h(1) by (simp add: list_update_append numeral_eq_Suc)
  define c where "c = take 4 (sha256 (sha256 ([hd1, hd2] @ h @ [0, drop_bit 5 f])))"
  have "base58_encode ([hd1, hd2] @ h @ [0, drop_bit 5 f] @ c) = Inr s"
    using h(2) unfolding e chk[OF h(1)] c_def by (simp only: bindE_simps)
  moreover have "length c = 4" by (simp add: c_def)
  ultimately show ?thesis using h(1) unfolding hd1_def hd2_def by blast
qed

text \<open>A number between two bounds with the same two leading base-58 digits has these digits.\<close>

lemma one_less_58: "1 < (58 :: nat)"
  by simp

lemma leading_digits:
  assumes "canonical 58 ds" "dval 58 ds div 58 ^ 36 = q" "58 \<le> q" "q < 58 * 58"
  shows "length ds = 38 \<and> ds ! 37 = q div 58 \<and> ds ! 36 = q mod 58"
proof -
  define v where "v = dval 58 ds"
  have all: "list_all (\<lambda>d. d < 58) ds" using assms(1) by (simp add: canonical_def)
  have v: "58 ^ 36 * q \<le> v" "v < 58 ^ 36 * (q + 1)"
    using assms(2) by (auto simp: v_def dividend_less_times_div algebra_simps)
  have "(58 :: nat) ^ 36 * 58 \<le> 58 ^ 36 * q" "(58 :: nat) ^ 36 * (q + 1) \<le> 58 ^ 36 * (58 * 58)"
    using assms(3,4) by (intro mult_le_mono2; simp)+
  then have b: "58 ^ 37 \<le> v" "v < 58 ^ 38" using v by simp_all
  have "v \<noteq> 0" using b(1) by auto
  then have "58 ^ (length ds - 1) \<le> v" "v < 58 ^ length ds"
    using canonical_length(1)[OF assms(1)] dval_less[OF all] by (simp_all add: v_def)
  then have pw: "(58 :: nat) ^ (length ds - 1) < 58 ^ 38" "(58 :: nat) ^ 37 < 58 ^ length ds" using b by linarith+
  have "length ds - 1 < 38" "37 < length ds"
    using power_less_imp_less_exp[OF one_less_58 pw(1)] power_less_imp_less_exp[OF one_less_58 pw(2)] by blast+
  then have l: "length ds = 38" by simp
  have e: "ds = take 36 ds @ [ds ! 36, ds ! 37]"
    using l id_take_nth_drop[of 36 ds] Cons_nth_drop_Suc[of 37 ds] by simp
  have "v = dval 58 (take 36 ds) + 58 ^ 36 * (ds ! 36 + 58 * ds ! 37)"
    unfolding v_def by (subst e, subst dval_append) (simp add: l)
  moreover have "dval 58 (take 36 ds) < 58 ^ 36"
    using dval_less[of 58 "take 36 ds"] all l by (auto simp: list_all_iff dest: in_set_takeD)
  ultimately have "v div 58 ^ 36 = ds ! 36 + 58 * ds ! 37" by simp
  then have "q = ds ! 36 + 58 * ds ! 37" using assms(2) by (simp only: v_def)
  moreover have "ds ! 36 < 58" using all l by (simp add: list_all_length)
  ultimately show ?thesis using l by simp
qed

lemma encoded_prefix:
  assumes "base58_encode ([h1, h2] @ rest) = Inr s" "length rest = 26" "h1 \<noteq> 0" "h = 256 * unat h1 + unat h2"
    and "h * 256 ^ 26 div 58 ^ 36 = q" "((h + 1) * 256 ^ 26 - 1) div 58 ^ 36 = q" "58 \<le> q" "q < 58 * 58"
  shows "length s = 38 \<and> s ! 0 = base58Map ! (q div 58) \<and> s ! 1 = base58Map ! (q mod 58)"
proof -
  let ?d = "[h1, h2] @ rest"
  have z: "leading (\<lambda>b. b = 0) ?d = 0" using assms(3) by (cases rest) auto
  obtain ds where e: "s = map (\<lambda>d. base58Map ! d) (rev ds)" "canonical 58 ds" "dval 58 ds = dval 256 (byte_digits ?d)"
    using base58_encode_ok[of ?d] assms(1) unfolding z by auto
  define r where "r = dval 256 (byte_digits rest)"
  have r: "r < 256 ^ 26" using dval_less[OF byte_digits_less[of rest]] assms(2) by (simp add: r_def)
  have v: "dval 58 ds = h * 256 ^ 26 + r"
    unfolding e(3) by (simp add: dval_append assms(2,4) r_def algebra_simps)
  have "q \<le> dval 58 ds div 58 ^ 36" unfolding v assms(5)[symmetric] by (rule div_le_mono) simp
  moreover have "dval 58 ds \<le> (h + 1) * 256 ^ 26 - 1" using r unfolding v by simp
  then have "dval 58 ds div 58 ^ 36 \<le> q" unfolding assms(6)[symmetric] by (rule div_le_mono)
  ultimately have "dval 58 ds div 58 ^ 36 = q" by simp
  from leading_digits[OF e(2) this assms(7,8)] have l: "length ds = 38" "ds ! 37 = q div 58" "ds ! 36 = q mod 58" by simp_all
  then show ?thesis by (simp add: e(1) rev_nth)
qed

lemma flag_fields_all:
  "list_all (\<lambda>g :: u8. let k = unat (drop_bit 2 (g AND 0x1c)) in (g AND 0x10 \<noteq> 0) = (4 \<le> k) \<and>
     unat (drop_bit 2 (g AND 0x0c)) = k mod 4 \<and> k < 8) (map of_nat [0..<32])"
  by code_simp

lemma flag_fields:
  fixes f :: u8
  defines "k \<equiv> unat (drop_bit 2 (f AND 0x1c))"
  shows "(f AND 0x10 \<noteq> 0) = (4 \<le> k)" "unat (drop_bit 2 (f AND 0x0c)) = k mod 4" "k < 8"
proof -
  define g where "g = f AND 0x1c"
  have masks: "g AND 0x1c = f AND 0x1c" "g AND 0x10 = f AND 0x10" "g AND 0x0c = f AND 0x0c"
    by (simp_all add: g_def ac_simps)
  have "g \<le> 0x1c" unfolding g_def by (simp add: word_and_le1)
  then have l: "unat g < 32" by (simp add: word_le_nat_alt)
  then have "unat g \<in> set [0..<32]" by simp
  then have "of_nat (unat g) \<in> set (map of_nat [0..<32] :: u8 list)" by (metis image_eqI list.set_map)
  then have "g \<in> set (map of_nat [0..<32] :: u8 list)" by simp
  with flag_fields_all have "let k = unat (drop_bit 2 (g AND 0x1c)) in (g AND 0x10 \<noteq> 0) = (4 \<le> k) \<and>
     unat (drop_bit 2 (g AND 0x0c)) = k mod 4 \<and> k < 8" unfolding list_all_iff by blast
  then show "(f AND 0x10 \<noteq> 0) = (4 \<le> k)" "unat (drop_bit 2 (f AND 0x0c)) = k mod 4" "k < 8"
    unfolding masks k_def by (simp_all only: Let_def)
qed

lemma asset_id_letters:
  assumes "calculateAssetId is_locked vin f = Inr s" and agg: "unat (drop_bit 2 (f AND 0x0c)) \<noteq> 3"
  shows "length s = 38 \<and> s ! 0 = (if f AND 0x10 \<noteq> 0 then CHR ''L'' else CHR ''U'') \<and>
    s ! 1 = ''ahd'' ! unat (drop_bit 2 (f AND 0x0c)) \<and>
    (\<exists>bin. base58_decode s = Inr bin \<and> length bin = 28 \<and> bin ! 23 = drop_bit 5 f)"
proof -
  define k where "k = unat (drop_bit 2 (f AND 0x1c))"
  define h1 h2 :: u8 where "h1 = ucast (drop_bit 8 (headerOptions ! k))" and "h2 = ucast (headerOptions ! k AND 0xff)"
  obtain h c where hc: "length h = 20" "length c = 4" "base58_encode ([h1, h2] @ h @ [0, drop_bit 5 f] @ c) = Inr s"
    using calculateAssetId_shape[OF assms(1)] unfolding h1_def h2_def k_def by blast
  note fl = flag_fields[of f, folded k_def]
  have "base58_decode s = Inr ([h1, h2] @ h @ [0, drop_bit 5 f] @ c)"
    using base58_decode_encode[of "[h1, h2] @ h @ [0, drop_bit 5 f] @ c"] hc(3) by simp
  moreover have "length ([h1, h2] @ h @ [0, drop_bit 5 f] @ c) = 28" "([h1, h2] @ h @ [0, drop_bit 5 f] @ c) ! 23 = drop_bit 5 f"
    using hc(1,2) by (simp_all add: nth_append)
  moreover have "length s = 38 \<and> s ! 0 = (if 4 \<le> k then CHR ''L'' else CHR ''U'') \<and> s ! 1 = ''ahd'' ! (k mod 4)"
  proof -
    have "length (h @ [0, drop_bit 5 f] @ c) = 26" using hc(1,2) by simp
    note pre = encoded_prefix[OF hc(3) this _ refl]
    have "k mod 4 \<noteq> 3" using fl(2) agg by simp
    then have "k = 0 \<or> k = 1 \<or> k = 2 \<or> k = 4 \<or> k = 5 \<or> k = 6" using fl(3) by presburger
    then consider "k = 0" | "k = 1" | "k = 2" | "k = 4" | "k = 5" | "k = 6" by blast
    then show ?thesis
    proof cases
      case 1
      then show ?thesis using pre[of 1599] by (simp add: h1_def h2_def headerOptions_def base58Map_def)
    next
      case 2
      then show ?thesis using pre[of 1606] by (simp add: h1_def h2_def headerOptions_def base58Map_def)
    next
      case 3
      then show ?thesis using pre[of 1602] by (simp add: h1_def h2_def headerOptions_def base58Map_def)
    next
      case 4
      then show ?thesis using pre[of 1135] by (simp add: h1_def h2_def headerOptions_def base58Map_def)
    next
      case 5
      then show ?thesis using pre[of 1142] by (simp add: h1_def h2_def headerOptions_def base58Map_def)
    next
      case 6
      then show ?thesis using pre[of 1138] by (simp add: h1_def h2_def headerOptions_def base58Map_def)
    qed
  qed
  ultimately show ?thesis using fl by auto
qed

end
