(* ===== verification/Asset.thy ===== *)
theory Asset
  imports KYC AssetId DigiDollar
begin

text \<open>
  The asset class of \<^verbatim>\<open>src/src/DigiAsset.cpp\<close>: the object and its constructors, the counters, the
  header of an asset transaction, the decoding of an issuance, the choice between new and old rules,
  and the check that a transfer obeys the rules.

  The answers of the node's database, of the DigiByte wallet it is connected to and of the storage
  pools are data outside the program. They are the fields of the record \<open>Node\<close>, an argument of every
  definition that asks for one.
\<close>

unbundle bit_operations_syntax

subsection \<open>The node\<close>

record Node =
  getAssetHeightCreated :: "string \<Rightarrow> u32 \<Rightarrow> u64 \<Rightarrow> (u32 \<times> u64) result"
  getRules :: "string \<Rightarrow> DigiAssetRules result"
  getSendingAddress :: "string \<Rightarrow> nat \<Rightarrow> string result"
  getAddressKYC :: "string \<Rightarrow> KYC result"
  acceptedExchangeRate :: "ExchangeRate \<Rightarrow> u32 \<Rightarrow> u64 result"  \<comment> \<open>\<^verbatim>\<open>floor(getAcceptedExchangeRate(...))\<close>\<close>
  coreRawTransaction :: "(string \<Rightarrow> getrawtransaction_t result) option"  \<comment> \<open>\<open>None\<close>: not connected\<close>
  lookupIndex :: "string \<Rightarrow> string \<Rightarrow> nat \<Rightarrow> u64 result"
  originalAssetCount :: "u64 \<Rightarrow> u64 result"
  poolsAssetIsIn :: "u64 \<Rightarrow> int list result"
  badInPool :: "(string \<Rightarrow> bool) list"

subsection \<open>The object\<close>

definition AGGREGABLE :: u8 where "AGGREGABLE = 0"
definition HYBRID :: u8 where "HYBRID = 1"
definition DISPERSED :: u8 where "DISPERSED = 2"

record DigiAsset =
  existingAsset :: bool
  enableWrite :: bool
  assetId :: string
  da_cid :: string
  da_rules :: DigiAssetRules
  divisibility :: u8
  da_locked :: bool
  aggregation :: u8
  da_heightCreated :: u32
  heightUpdated :: u32
  assetIndex :: u64
  issuer :: KYC
  da_count :: u64
  initialCount :: int
  pspMembership :: "int list"

text \<open>
  \<^verbatim>\<open>DigiAsset() = default\<close>. The members without an initialiser (divisibility, locked,
  aggregation and the heights) start as arbitrary values in C++; every constructor sets them before
  it reads them.
\<close>

definition DigiAsset_default :: DigiAsset where
  "DigiAsset_default =
     \<lparr>existingAsset = False, enableWrite = True, assetId = [], da_cid = [], da_rules = DigiAssetRules_default,
      divisibility = 0, da_locked = False, aggregation = 0, da_heightCreated = 0, heightUpdated = 0, assetIndex = 0,
      issuer = KYC_default, da_count = 0, initialCount = -1, pspMembership = [-1]\<rparr>"

definition DigiAsset_new :: "string \<Rightarrow> u64 \<Rightarrow> u8 \<Rightarrow> bool \<Rightarrow> u8 \<Rightarrow> DigiAssetRules \<Rightarrow> DigiAsset result" where
  "DigiAsset_new cid count divi is_locked aggr rules =
     (if divi > 7 then Inl (OutOfRange ''divisibility must be 0 to 7'')
      else if aggr > DISPERSED then Inl (OutOfRange ''invalid aggregation type'')
      else if count = 0 then Inl (OutOfRange ''count must be at least 1'')
      else if count > 18014398509481983 then Inl (OutOfRange ''count too large'')
      else Inr (DigiAsset_default\<lparr>da_cid := cid, da_count := count, divisibility := divi, da_locked := is_locked,
             aggregation := aggr, da_heightCreated := 0, heightUpdated := 0, existingAsset := False, enableWrite := True,
             da_rules := (if is_locked then lock rules else rules)\<rparr>))"

definition getIssuanceFlags :: "DigiAsset \<Rightarrow> u8" where
  "getIssuanceFlags a =
     push_bit 5 (divisibility a) OR (if da_locked a then 0x10 else 0x00) OR push_bit 2 (aggregation a)"

text \<open>\<^verbatim>\<open>c_str()[i]\<close>: the terminator is readable, what is behind it is not.\<close>

definition c_str_at :: "string \<Rightarrow> nat \<Rightarrow> char result" where
  "c_str_at s i = (if i < length s then Inr (s ! i) else if i = length s then Inr (CHR 0x00) else Inl UndefinedBehaviour)"

definition DigiAsset_of_db ::
  "u64 \<Rightarrow> string \<Rightarrow> string \<Rightarrow> KYC \<Rightarrow> DigiAssetRules \<Rightarrow> u32 \<Rightarrow> u32 \<Rightarrow> u64 \<Rightarrow> DigiAsset result" where
  "DigiAsset_of_db index aid cid kyc rules created updated amount =
     (let a = DigiAsset_default\<lparr>assetIndex := index, assetId := aid, da_cid := cid, issuer := kyc, da_rules := rules,
                da_heightCreated := created, heightUpdated := updated, da_count := amount, existingAsset := True,
                enableWrite := False\<rparr>
      in bindE (c_str_at aid 0) (\<lambda>c0.
         let a = a\<lparr>da_locked := (c0 = CHR ''L'')\<rparr> in
         bindE (c_str_at aid 1) (\<lambda>c1.
         if c1 = CHR ''a'' \<or> c1 = CHR ''d'' \<or> c1 = CHR ''h'' then
           bindE (base58_decode aid) (\<lambda>bin.
           bindE (vec_get bin 23) (\<lambda>d.
           Inr (a\<lparr>aggregation := (if c1 = CHR ''a'' then AGGREGABLE else if c1 = CHR ''d'' then DISPERSED else HYBRID),
                  divisibility := d\<rparr>)))
         else if aid \<noteq> ''DigiByte'' \<and> index = 1 then Inl (OutOfRange ''invalid assetId'')
         else Inr (a\<lparr>aggregation := AGGREGABLE, divisibility := 8\<rparr>))))"

subsection \<open>Members\<close>

definition DigiAsset_eq :: "DigiAsset \<Rightarrow> DigiAsset \<Rightarrow> bool" where
  "DigiAsset_eq a b \<longleftrightarrow> assetIndex a = assetIndex b"

definition DigiAsset_neq :: "DigiAsset \<Rightarrow> DigiAsset \<Rightarrow> bool" where
  "DigiAsset_neq a b \<longleftrightarrow> assetIndex a \<noteq> assetIndex b"

definition removeCount :: "u64 \<Rightarrow> DigiAsset \<Rightarrow> DigiAsset result" where
  "removeCount n a =
     (if n > da_count a then Inl (OutOfRange ''Can't remove more than have'')
      else Inr (a\<lparr>da_count := da_count a - n\<rparr>))"

definition setCount :: "u64 \<Rightarrow> DigiAsset \<Rightarrow> DigiAsset" where
  "setCount n a = a\<lparr>da_count := n\<rparr>"

definition addCount :: "u64 \<Rightarrow> DigiAsset \<Rightarrow> DigiAsset" where
  "addCount n a = a\<lparr>da_count := da_count a + n\<rparr>"

definition getCount :: "DigiAsset \<Rightarrow> u64" where
  "getCount a = da_count a"

definition getStrCount :: "DigiAsset \<Rightarrow> string" where
  "getStrCount a =
     (let d = unat (divisibility a);
          result = to_string (unat (da_count a));
          neededDecimals = int d + 1 - int (length result);
          result = (if neededDecimals > 0 then replicate (nat neededDecimals) (CHR ''0'') @ result else result);
          p = length result - d
      in take p result @ ''.'' @ drop p result)"

definition getDecimals :: "DigiAsset \<Rightarrow> u8" where
  "getDecimals a = divisibility a"

definition getInitialCount :: "Node \<Rightarrow> DigiAsset \<Rightarrow> (u64 \<times> DigiAsset) result" where
  "getInitialCount node a =
     (if initialCount a = -1
      then bindE (originalAssetCount node (assetIndex a)) (\<lambda>n. Inr (n, a\<lparr>initialCount := sint n\<rparr>))
      else Inr (word_of_int (initialCount a), a))"

definition getAssetIndex :: "bool \<Rightarrow> DigiAsset \<Rightarrow> u64 result" where
  "getAssetIndex allowUnknownAssetIndex a =
     (if allowUnknownAssetIndex then Inr (assetIndex a)
      else if assetIndex a = 0 then Inl UnknownAssetIndex
      else Inr (assetIndex a))"

definition setAssetIndex :: "u64 \<Rightarrow> DigiAsset \<Rightarrow> DigiAsset result" where
  "setAssetIndex i a = (if assetIndex a \<noteq> 0 then Inl WriteProtected else Inr (a\<lparr>assetIndex := i\<rparr>))"

definition isHybrid :: "DigiAsset \<Rightarrow> bool" where
  "isHybrid a \<longleftrightarrow> aggregation a = HYBRID"

definition isAggregable :: "DigiAsset \<Rightarrow> bool" where
  "isAggregable a \<longleftrightarrow> aggregation a = AGGREGABLE"

definition isDispersed :: "DigiAsset \<Rightarrow> bool" where
  "isDispersed a \<longleftrightarrow> aggregation a = DISPERSED"

definition isLocked :: "DigiAsset \<Rightarrow> bool" where
  "isLocked a = da_locked a"

definition isBad :: "Node \<Rightarrow> int \<Rightarrow> DigiAsset \<Rightarrow> bool result" where
  "isBad node poolIndex a =
     (let pools = badInPool node;
          ask = (\<lambda>i bad. if bad then Inr bad
                 else if i \<ge> length pools then Inl (OutOfRange ''Pool index out of range'')
                 else Inr ((pools ! i) (assetId a)))
      in if poolIndex \<ge> 0 then ask (nat poolIndex) False
         else if pools = [] then ask 0 False
         else foldE ask [0..<length pools] False)"

definition setOwned :: "DigiAsset \<Rightarrow> DigiAsset" where
  "setOwned a = (if isLocked a then a else a\<lparr>enableWrite := True\<rparr>)"

definition setRules :: "DigiAssetRules \<Rightarrow> DigiAsset \<Rightarrow> DigiAsset result" where
  "setRules rules a =
     (if \<not> enableWrite a then Inl WriteProtected
      else if \<not> isRewritable (da_rules a) then Inl WriteProtected
      else Inr (a\<lparr>da_rules := rules\<rparr>))"

definition lookupAssetIndex :: "Node \<Rightarrow> string \<Rightarrow> nat \<Rightarrow> DigiAsset \<Rightarrow> DigiAsset result" where
  "lookupAssetIndex node txid vout a =
     (if assetIndex a > 0 then Inr a
      else bindE (lookupIndex node (assetId a) txid vout) (\<lambda>i. Inr (a\<lparr>assetIndex := i\<rparr>)))"

definition isAssetIndexSet :: "DigiAsset \<Rightarrow> bool" where
  "isAssetIndexSet a \<longleftrightarrow> assetIndex a \<noteq> 0"

definition getPspMembership :: "Node \<Rightarrow> DigiAsset \<Rightarrow> (int list \<times> DigiAsset) result" where
  "getPspMembership node a =
     (if pspMembership a \<noteq> [] \<and> hd (pspMembership a) = -1
      then bindE (poolsAssetIsIn node (assetIndex a)) (\<lambda>p. Inr (p, a\<lparr>pspMembership := p\<rparr>))
      else Inr (pspMembership a, a))"

subsection \<open>The header of an asset transaction\<close>

text \<open>The last data output, DigiDollar's own excepted, by the number it carries.\<close>

definition header_output :: "getrawtransaction_t \<Rightarrow> nat option" where
  "header_output tx =
     foldl (\<lambda>iO out.
       if spk_type out \<noteq> ''nulldata'' then iO
       else if isDigiDollarVersion (tx_version tx) \<and> take 8 (spk_hex out) = ''6a024444'' then iO
       else Some (out_n out)) None (tx_vout tx)"

text \<open>Version and op code (0 and 0 when it is not an asset transaction), and the stream behind them.\<close>

definition decodeAssetTxHeader :: "getrawtransaction_t \<Rightarrow> (u8 \<times> u8 \<times> BitIO) result" where
  "decodeAssetTxHeader tx =
     (case header_output tx of None \<Rightarrow> Inr (0, 0, BitIO_empty)
      | Some i \<Rightarrow>
          bindE (vec_get (tx_vout tx) i) (\<lambda>out.
          bindE (makeHexString (spk_hex out)) (\<lambda>s.
          if getLength s < 48 then Inr (0, 0, s)
          else
            bindE (checkIsBitcoinOpReturn s) (\<lambda>(isOp, s).
            if \<not> isOp then Inr (0, 0, s)
            else
              bindE (getBitcoinDataHeader s) (\<lambda>(h, s).
              if h \<noteq> BITIO_BITCOIN_TYPE_DATA then Inr (0, 0, s)
              else
                bindE (copyBitcoinData s) (\<lambda>(s, _).
                bindE (getBits 16 s) (\<lambda>(m, s).
                if m \<noteq> 0x4441 then Inr (0, 0, s)
                else
                  bindE (getBits 8 s) (\<lambda>(version, s).
                  bindE (getBits 8 s) (\<lambda>(opcode, s).
                  Inr (ucast version, ucast opcode, s))))))))))"

subsection \<open>Issuance\<close>

text \<open>Old rules win unless they are rewritable and new rules came with the issuance.\<close>

definition handleRulesConflict :: "Node \<Rightarrow> DigiAsset \<Rightarrow> DigiAsset result" where
  "handleRulesConflict node a =
     (if da_locked a then Inr a
      else if aggregation a \<noteq> AGGREGABLE then Inr a
      else
        bindE (getRules node (assetId a)) (\<lambda>oldRules.
        if rules_empty oldRules then Inr a
        else if \<not> isRewritable oldRules \<or> rules_empty (da_rules a) then Inr (a\<lparr>da_rules := oldRules\<rparr>)
        else Inr a))"

text \<open>The hash of the metadata: in the stream, in the keys of a multi-signature output, or absent.\<close>

definition issuance_metadata :: "getrawtransaction_t \<Rightarrow> u8 \<Rightarrow> BitIO \<Rightarrow> (BitIO \<times> BitIO) result" where
  "issuance_metadata tx opcode s =
     (if opcode = 1 \<or> opcode = 3 \<or> opcode = 4 then copyBits 256 s
      else if opcode = 2 then
        bindE (vec_get (tx_vout tx) 0) (\<lambda>out.
        bindE (makeHexString (spk_hex out)) (\<lambda>m.
        bindE (getBitcoinDataHeader m) (\<lambda>(_, m).
        bindE (getBitcoinData m) (\<lambda>(_, m).
        bindE (copyBitcoinData m) (\<lambda>(h, _). Inr (h, s))))))
      else Inr (BitIO_empty, s))"

text \<open>
  The body of \<open>processIssuance\<close>: \<open>None\<close> is its \<^verbatim>\<open>return false\<close>; with the asset come the stream behind
  the rules and the addresses the database was asked to watch. The rules the first
  \<^verbatim>\<open>_rules.lock()\<close> marks are replaced by the decoded ones in the next statement.
\<close>

definition issuance_body ::
  "Node \<Rightarrow> getrawtransaction_t \<Rightarrow> u32 \<Rightarrow> u8 \<Rightarrow> u8 \<Rightarrow> BitIO \<Rightarrow> (DigiAsset \<times> BitIO \<times> string list) option result" where
  "issuance_body node tx height version opcode s =
     (let a = DigiAsset_default\<lparr>existingAsset := True, da_heightCreated := height, heightUpdated := height\<rparr> in
      bindE (if version < 3 \<and> opcode < 3 then movePositionBy s 160 else Inr s) (\<lambda>s.
      bindE (issuance_metadata tx opcode s) (\<lambda>(metadataHash, s).
      bindE (if getLength metadataHash = 256 then sha256ToCID (movePositionToBeginning metadataHash) else Inr []) (\<lambda>cid.
      bindE (getFixedPrecision s) (\<lambda>(count, s).
      let rulesStart = getPosition s in
      if 8 \<le> getLength s \<and> getLength s - 8 < rulesStart then Inr None
      else
        bindE (movePositionTo s (if 8 \<le> getLength s then getLength s - 8 else 2 ^ 64 + getLength s - 8)) (\<lambda>s.
        bindE (getBits 8 s) (\<lambda>(fl, s).
        let issuanceFlags = (ucast fl :: u8);
            a = a\<lparr>da_cid := cid, da_count := count, divisibility := drop_bit 5 issuanceFlags,
                   da_locked := (issuanceFlags AND 0x10 > 0), aggregation := drop_bit 2 (issuanceFlags AND 0x0c)\<rparr>
        in if aggregation a = 3 then Inr None
           else
             bindE (movePositionTo s rulesStart) (\<lambda>s.
             bindE (if version = 1
                    then bindE (pow10 (ucast (divisibility a))) (\<lambda>p. Inr (a\<lparr>da_count := da_count a div p\<rparr>))
                    else Inr a) (\<lambda>a.
             if da_locked a \<and> da_count a = 0 then Inr None
             else if aggregation a \<noteq> AGGREGABLE \<and> da_count a = 0 then Inr None
             else if da_count a > 18014398509481983 then Inr None
             else
               let a = (if da_locked a then a\<lparr>da_rules := lock (da_rules a)\<rparr> else a) in
               bindE (DigiAssetRules_decode tx s (da_cid a) opcode) (\<lambda>((rules, s), watch).
               let a = a\<lparr>da_rules := rules\<rparr> in
               bindE (vec_get (tx_vin tx) 0) (\<lambda>firstVin.
               bindE (calculateAssetId (da_locked a) firstVin issuanceFlags) (\<lambda>aid.
               let a = a\<lparr>assetId := aid\<rparr> in
               bindE (if \<not> da_locked a \<and> isAggregable a
                      then bindE (getAssetHeightCreated node aid height (assetIndex a)) (\<lambda>(h, i).
                           Inr (a\<lparr>da_heightCreated := h, assetIndex := i\<rparr>))
                      else Inr a) (\<lambda>a.
               bindE (handleRulesConflict node a) (\<lambda>a.
               bindE (getSendingAddress node (vin_txid firstVin) (vin_n firstVin)) (\<lambda>sender.
               bindE (getAddressKYC node sender) (\<lambda>kyc.
               Inr (Some (a\<lparr>issuer := kyc\<rparr>, s, watch))))))))))))))))))"

definition processIssuance ::
  "Node \<Rightarrow> getrawtransaction_t \<Rightarrow> u32 \<Rightarrow> u8 \<Rightarrow> u8 \<Rightarrow> BitIO \<Rightarrow> (DigiAsset \<times> BitIO \<times> string list) option result" where
  "processIssuance node tx height version opcode s =
     catch_out_of_range (issuance_body node tx height version opcode s) (Inr None)"

definition DigiAsset_of_tx ::
  "Node \<Rightarrow> getrawtransaction_t \<Rightarrow> u32 \<Rightarrow> u8 \<Rightarrow> u8 \<Rightarrow> BitIO \<Rightarrow> (DigiAsset \<times> BitIO \<times> string list) result" where
  "DigiAsset_of_tx node tx height version opcode s =
     bindE (processIssuance node tx height version opcode s) (\<lambda>r.
     case r of None \<Rightarrow> Inl InvalidIssuance | Some r \<Rightarrow> Inr r)"

end
