(* ===== verification/AssetRules.thy ===== *)
theory AssetRules
  imports Asset
begin

text \<open>
  The rule check of a transfer, \<^verbatim>\<open>DigiAsset::checkRulesPass\<close> in \<^verbatim>\<open>src/src/DigiAsset.cpp\<close>: what each
  address lost and gained, and the approval, royalty, identity, expiry, vote and deflation rules in
  the order of the code.
\<close>

unbundle bit_operations_syntax

record AssetUTXO =
  ut_txid :: string
  ut_vout :: u16
  ut_address :: string
  digibyte :: u64
  ut_assets :: "DigiAsset list"

subsection \<open>The changes\<close>

text \<open>
  \<^verbatim>\<open>std::map<string, int64_t>\<close>: an association list sorted by key, keys compared as unsigned bytes.
  The values are 64-bit words read as signed; \<^verbatim>\<open>-=\<close> and \<^verbatim>\<open>+=\<close> of an unsigned count wrap.
\<close>

fun string_less :: "string \<Rightarrow> string \<Rightarrow> bool" where
  "string_less [] ys \<longleftrightarrow> ys \<noteq> []"
| "string_less (x # xs) [] \<longleftrightarrow> False"
| "string_less (x # xs) (y # ys) \<longleftrightarrow> (of_char x :: nat) < of_char y \<or> (x = y \<and> string_less xs ys)"

type_synonym changes = "(string \<times> u64) list"

fun change_by :: "string \<Rightarrow> u64 \<Rightarrow> changes \<Rightarrow> changes" where
  "change_by a d [] = [(a, d)]"
| "change_by a d ((b, v) # cs) =
     (if a = b then (b, v + d) # cs
      else if string_less a b then (a, d) # (b, v) # cs
      else (b, v) # change_by a d cs)"

definition utxo_changes :: "u64 \<Rightarrow> (u64 \<Rightarrow> u64) \<Rightarrow> AssetUTXO \<Rightarrow> changes \<Rightarrow> changes result" where
  "utxo_changes index sign utxo =
     foldE (\<lambda>asset cs. bindE (getAssetIndex False asset) (\<lambda>i.
       Inr (if i = index then change_by (ut_address utxo) (sign (getCount asset)) cs else cs))) (ut_assets utxo)"

definition asset_changes :: "u64 \<Rightarrow> AssetUTXO list \<Rightarrow> AssetUTXO list \<Rightarrow> changes result" where
  "asset_changes index ins outs =
     bindE (foldE (utxo_changes index uminus) ins []) (foldE (utxo_changes index (\<lambda>c. c)) outs)"

definition consolidation :: "changes \<Rightarrow> bool" where
  "consolidation changes \<longleftrightarrow> list_all (\<lambda>(a, d). \<not> sint d > 0) changes"

subsection \<open>The rules\<close>

definition input_address :: "Node \<Rightarrow> AssetUTXO \<Rightarrow> string result" where
  "input_address node utxo =
     (if ut_address utxo = [] \<and> ut_txid utxo \<noteq> [] then
        (case coreRawTransaction node of
           None \<Rightarrow> Inl (RuntimeError ''can not check approval rule'')
         | Some getRaw \<Rightarrow>
             bindE (getRaw (ut_txid utxo)) (\<lambda>tx.
             let i = unat (ut_vout utxo) in
             if i < length (tx_vout tx) \<and> spk_addresses (tx_vout tx ! i) \<noteq> []
             then Inr (hd (spk_addresses (tx_vout tx ! i)))
             else Inr []))
      else Inr (ut_address utxo))"

fun input_addresses :: "Node \<Rightarrow> AssetUTXO list \<Rightarrow> string list result" where
  "input_addresses node [] = Inr []"
| "input_addresses node (u # us) =
     bindE (input_address node u) (\<lambda>a. bindE (input_addresses node us) (\<lambda>as. Inr (a # as)))"

definition total_weight :: "Signer list \<Rightarrow> string list \<Rightarrow> u64" where
  "total_weight sgs addresses =
     foldl (\<lambda>t sg. if sg_address sg \<in> set addresses then t + sg_weight sg else t) 0 sgs"

definition check_signers :: "Node \<Rightarrow> AssetUTXO list \<Rightarrow> DigiAssetRules \<Rightarrow> unit result" where
  "check_signers node ins r =
     (if getRequiredSignerWeight r > 0 then
        bindE (input_addresses node ins) (\<lambda>as.
        guardE (\<not> total_weight (getSigners r) as < getRequiredSignerWeight r) (RuleFailed ''Signers''))
      else Inr ())"

text \<open>
  The recipients are counted from -1 in a \<^verbatim>\<open>size_t\<close>, at most once per output; the products are
  64-bit and wrap.
\<close>

fun holds_asset :: "u64 \<Rightarrow> DigiAsset list \<Rightarrow> bool result" where
  "holds_asset index [] = Inr False"
| "holds_asset index (a # as) =
     bindE (getAssetIndex False a) (\<lambda>i. if i = index then Inr True else holds_asset index as)"

definition recipient_count :: "u64 \<Rightarrow> AssetUTXO list \<Rightarrow> u64 result" where
  "recipient_count index outs =
     bindE (foldE (\<lambda>utxo count. bindE (holds_asset index (ut_assets utxo)) (\<lambda>h.
              Inr (if h then count + 1 else count))) outs (-1)) (\<lambda>count.
     Inr (if count < 1 then 1 else count))"

definition royalty_paid :: "u64 \<Rightarrow> u64 \<Rightarrow> AssetUTXO list \<Rightarrow> Royalty \<Rightarrow> bool" where
  "royalty_paid count rate outs ry =
     (let minAccepted = (count * ry_amount ry * rate) div 100000000 - 1
      in list_ex (\<lambda>utxo. ut_address utxo = ry_address ry \<and> digibyte utxo \<ge> minAccepted) outs)"

definition check_royalties :: "Node \<Rightarrow> u64 \<Rightarrow> AssetUTXO list \<Rightarrow> u32 \<Rightarrow> DigiAssetRules \<Rightarrow> unit result" where
  "check_royalties node index outs height r =
     (if getIfRequiresRoyalty r then
        bindE (acceptedExchangeRate node (getRoyaltyCurrency r) height) (\<lambda>rate.
        bindE (recipient_count index outs) (\<lambda>count.
        guardE (list_all (royalty_paid count rate outs) (getRoyalties r)) (RuleFailed ''Royalty'')))
      else Inr ())"

definition check_kyc :: "Node \<Rightarrow> changes \<Rightarrow> u32 \<Rightarrow> DigiAssetRules \<Rightarrow> unit result" where
  "check_kyc node changes height r =
     (if getIfGeoFenced r then
        foldE (\<lambda>(address, change) _.
          if sint change \<le> 0 then Inr ()
          else
            bindE (getAddressKYC node address) (\<lambda>kyc.
            if \<not> KYC_valid (sint height) kyc then Inl (RuleFailed ''KYC'')
            else bindE (KYC_getCountry kyc) (\<lambda>c. guardE (getIfCountryAllowedToReceive c r) (RuleFailed ''KYC''))))
        changes ()
      else Inr ())"

definition check_vote :: "changes \<Rightarrow> DigiAssetRules \<Rightarrow> unit result" where
  "check_vote changes r =
     guardE (getIfVoteRestricted r \<longrightarrow> list_all (\<lambda>(address, change). sint change \<le> 0 \<or> getIfValidVoteAddress address r) changes)
       (RuleFailed ''Vote'')"

definition check_deflation :: "changes \<Rightarrow> DigiAssetRules \<Rightarrow> unit result" where
  "check_deflation changes r =
     guardE (getRequiredBurn r > 0 \<longrightarrow> \<not> foldl (\<lambda>burns (address, change). burns - change) 0 changes < getRequiredBurn r)
       (RuleFailed ''Deflation'')"

definition DigiAsset_checkRulesPass ::
  "Node \<Rightarrow> AssetUTXO list \<Rightarrow> AssetUTXO list \<Rightarrow> u32 \<Rightarrow> u64 \<Rightarrow> DigiAsset \<Rightarrow> unit result" where
  "DigiAsset_checkRulesPass node ins outs height time a =
     (let r = da_rules a in
      if rules_empty r then Inr ()
      else
        bindE (asset_changes (assetIndex a) ins outs) (\<lambda>changes.
        if consolidation changes then Inr ()
        else
          bindE (check_signers node ins r) (\<lambda>_.
          bindE (check_royalties node (assetIndex a) outs height r) (\<lambda>_.
          bindE (check_kyc node changes height r) (\<lambda>_.
          bindE (guardE (\<not> getIfExpired height time r) (RuleFailed ''Expiry'')) (\<lambda>_.
          bindE (check_vote changes r) (\<lambda>_.
          check_deflation changes r)))))))"

subsection \<open>What a passed check guarantees\<close>

text \<open>The sum over all addresses is what was received minus what was spent.\<close>

definition asset_total :: "u64 \<Rightarrow> AssetUTXO list \<Rightarrow> u64" where
  "asset_total index us = (\<Sum>u\<leftarrow>us. \<Sum>a\<leftarrow>ut_assets u. if assetIndex a = index then da_count a else 0)"

lemma change_by_sum: "sum_list (map snd (change_by a d cs)) = sum_list (map snd cs) + d"
  by (induction a d cs rule: change_by.induct) (auto simp: algebra_simps)

lemma utxo_changes_sum:
  assumes "utxo_changes index sign u cs = Inr cs'"
  shows "sum_list (map snd cs') = sum_list (map snd cs) + (\<Sum>a\<leftarrow>ut_assets u. if assetIndex a = index then sign (da_count a) else 0)"
proof -
  have "foldE (\<lambda>asset cs. bindE (getAssetIndex False asset) (\<lambda>i.
       Inr (if i = index then change_by (ut_address u) (sign (getCount asset)) cs else cs))) as cs = Inr cs' \<Longrightarrow>
     sum_list (map snd cs') = sum_list (map snd cs) + (\<Sum>a\<leftarrow>as. if assetIndex a = index then sign (da_count a) else 0)" for as
    by (induction as arbitrary: cs)
      (auto simp: getAssetIndex_def getCount_def change_by_sum add.assoc split: if_splits)
  then show ?thesis using assms by (simp add: utxo_changes_def)
qed

lemma asset_changes_sum:
  assumes "asset_changes index ins outs = Inr cs"
  shows "sum_list (map snd cs) = asset_total index outs - asset_total index ins"
proof -
  have step: "foldE (utxo_changes index sign) us cs = Inr cs' \<Longrightarrow>
      sum_list (map snd cs') = sum_list (map snd cs) +
        (\<Sum>u\<leftarrow>us. \<Sum>a\<leftarrow>ut_assets u. if assetIndex a = index then sign (da_count a) else 0)" for us sign cs cs'
    by (induction us arbitrary: cs) (auto simp: utxo_changes_sum add.assoc elim!: bindE_E)
  have neg: "(\<Sum>a\<leftarrow>as. if assetIndex a = index then - da_count a else 0) = - (\<Sum>a\<leftarrow>as. if assetIndex a = index then da_count a else 0)" for as
    by (induction as) auto
  have neg2: "(\<Sum>u\<leftarrow>us. \<Sum>a\<leftarrow>ut_assets u. if assetIndex a = index then - da_count a else 0) = - asset_total index us" for us
    by (induction us) (simp_all add: asset_total_def neg)
  obtain c1 where c: "foldE (utxo_changes index uminus) ins [] = Inr c1" "foldE (utxo_changes index (\<lambda>c. c)) outs c1 = Inr cs"
    using assms by (auto simp: asset_changes_def elim!: bindE_E)
  show ?thesis using step[OF c(1)] step[OF c(2)] neg2[of ins] by (simp add: asset_total_def)
qed

end
