(* ===== verification/Transaction.thy ===== *)
theory Transaction
  imports AssetRules Doubles
begin

text \<open>
  The transaction class of \<^verbatim>\<open>src/src/DigiByteTransaction.cpp\<close>, first part: the object, its getters, and
  the transfer engine that moves the assets of the inputs onto the outputs.

  The members the exception handlers of the class depend on are modified before an exception leaves a
  function. A member function is therefore a function of the object that returns a result together
  with the object at that moment (\<open>'a tx_step\<close>).
\<close>

unbundle bit_operations_syntax

subsection \<open>The object\<close>

definition STANDARD :: nat where "STANDARD = 0"
definition DIGIASSET_ISSUANCE :: nat where "DIGIASSET_ISSUANCE = 1"
definition DIGIASSET_TRANSFER :: nat where "DIGIASSET_TRANSFER = 2"
definition DIGIASSET_BURN :: nat where "DIGIASSET_BURN = 3"
definition KYC_ISSUANCE :: nat where "KYC_ISSUANCE = 10"
definition KYC_REVOKE_TX :: nat where "KYC_REVOKE_TX = 11"
definition EXCHANGE_PUBLISH :: nat where "EXCHANGE_PUBLISH = 20"
definition ENCRYPTED_KEY :: nat where "ENCRYPTED_KEY = 30"
definition DIGIDOLLAR_MINT :: nat where "DIGIDOLLAR_MINT = 40"
definition DIGIDOLLAR_TRANSFER :: nat where "DIGIDOLLAR_TRANSFER = 41"
definition DIGIDOLLAR_REDEEM :: nat where "DIGIDOLLAR_REDEEM = 42"

lemmas tx_type_defs = STANDARD_def DIGIASSET_ISSUANCE_def DIGIASSET_TRANSFER_def DIGIASSET_BURN_def KYC_ISSUANCE_def
  KYC_REVOKE_TX_def EXCHANGE_PUBLISH_def ENCRYPTED_KEY_def DIGIDOLLAR_MINT_def DIGIDOLLAR_TRANSFER_def DIGIDOLLAR_REDEEM_def

record DigiByteTransaction =
  t_inputs :: "AssetUTXO list"
  t_outputs :: "AssetUTXO list"
  newAsset :: DigiAsset
  txType :: nat
  assetFound :: bool
  ruleOutputsStart :: nat
  ruleOutputsAdded :: bool
  t_burns :: "DigiAsset list"
  unintentionalBurn :: bool
  t_height :: u32
  t_txid :: string
  t_blockHash :: string
  t_time :: u64
  kycData :: KYC
  opReturnHex :: string
  t_exchangeRate :: "double list"
  assetTransactionVersion :: u8
  ddOutputs :: "(u16 \<times> u64) list"
  ddVaultOutput :: int
  ddCollateral :: u64
  ddMinted :: u64
  ddLockHeight :: u32
  ddLockTier :: u8

text \<open>A new transaction, stamped with the time; the members without initialiser are arbitrary in C++.\<close>

definition DigiByteTransaction_new :: "u64 \<Rightarrow> DigiByteTransaction" where
  "DigiByteTransaction_new time =
     \<lparr>t_inputs = [], t_outputs = [], newAsset = DigiAsset_default, txType = STANDARD, assetFound = False,
      ruleOutputsStart = 0, ruleOutputsAdded = False, t_burns = [], unintentionalBurn = False, t_height = 0,
      t_txid = [], t_blockHash = [], t_time = time, kycData = KYC_default, opReturnHex = [], t_exchangeRate = [],
      assetTransactionVersion = 0, ddOutputs = [], ddVaultOutput = -1, ddCollateral = 0, ddMinted = 0,
      ddLockHeight = 0, ddLockTier = 0\<rparr>"

type_synonym 'a tx_step = "DigiByteTransaction \<Rightarrow> 'a result \<times> DigiByteTransaction"

subsection \<open>Getters\<close>

definition isStandardTransaction :: "DigiByteTransaction \<Rightarrow> bool" where
  "isStandardTransaction t \<longleftrightarrow> txType t = STANDARD"

definition isUnintentionalBurn :: "DigiByteTransaction \<Rightarrow> bool" where
  "isUnintentionalBurn t =
     (if unintentionalBurn t then True else if txType t \<noteq> STANDARD then False else assetFound t)"

definition isNonAssetTransaction :: "DigiByteTransaction \<Rightarrow> bool" where
  "isNonAssetTransaction t =
     (if isUnintentionalBurn t then False else txType t < DIGIASSET_ISSUANCE \<or> txType t > DIGIASSET_BURN)"

definition isIssuance :: "DigiByteTransaction \<Rightarrow> bool" where
  "isIssuance t \<longleftrightarrow> txType t = DIGIASSET_ISSUANCE"

definition isTransfer :: "bool \<Rightarrow> DigiByteTransaction \<Rightarrow> bool" where
  "isTransfer includeIntentionalBurn t =
     (if txType t = DIGIASSET_TRANSFER then True
      else if includeIntentionalBurn \<and> txType t = DIGIASSET_BURN then True else False)"

definition isBurn :: "bool \<Rightarrow> DigiByteTransaction \<Rightarrow> bool" where
  "isBurn includeUnintentionalBurn t =
     (if txType t = DIGIASSET_BURN then True
      else if \<not> includeUnintentionalBurn then False else isUnintentionalBurn t)"

definition isKYCTransaction :: "DigiByteTransaction \<Rightarrow> bool" where
  "isKYCTransaction t \<longleftrightarrow> txType t = KYC_REVOKE_TX \<or> txType t = KYC_ISSUANCE"

definition isKYCRevoke :: "DigiByteTransaction \<Rightarrow> bool" where
  "isKYCRevoke t \<longleftrightarrow> txType t = KYC_REVOKE_TX"

definition isKYCIssuance :: "DigiByteTransaction \<Rightarrow> bool" where
  "isKYCIssuance t \<longleftrightarrow> txType t = KYC_ISSUANCE"

definition isDigiDollarTransaction :: "DigiByteTransaction \<Rightarrow> bool" where
  "isDigiDollarTransaction t \<longleftrightarrow>
     txType t = DIGIDOLLAR_MINT \<or> txType t = DIGIDOLLAR_TRANSFER \<or> txType t = DIGIDOLLAR_REDEEM"

definition isDigiDollarMint :: "DigiByteTransaction \<Rightarrow> bool" where
  "isDigiDollarMint t \<longleftrightarrow> txType t = DIGIDOLLAR_MINT"

definition isDigiDollarRedeem :: "DigiByteTransaction \<Rightarrow> bool" where
  "isDigiDollarRedeem t \<longleftrightarrow> txType t = DIGIDOLLAR_REDEEM"

definition isExchangeTransaction :: "DigiByteTransaction \<Rightarrow> bool" where
  "isExchangeTransaction t \<longleftrightarrow> txType t = EXCHANGE_PUBLISH"

definition getExchangeRate :: "nat \<Rightarrow> DigiByteTransaction \<Rightarrow> double result" where
  "getExchangeRate i t =
     (if i \<ge> length (t_exchangeRate t) then Inl (OutOfRange ''Non existent exchange rate'')
      else Inr (t_exchangeRate t ! i))"

text \<open>The tables of standard rates come in blocks of ten per address.\<close>

definition getExchangeRateName :: "nat \<Rightarrow> DigiByteTransaction \<Rightarrow> ExchangeRate result" where
  "getExchangeRateName i t =
     (if i \<ge> length (t_exchangeRate t) then Inl (OutOfRange ''Non existent exchange rate'')
      else
        bindE (vec_get (t_outputs t) 1) (\<lambda>out.
        bindE (foldE (\<lambda>block name.
                 bindE (vec_get standardExchangeRates (10 * block)) (\<lambda>e.
                 if ut_address out = er_address e
                 then bindE (vec_get standardExchangeRates (10 * block + i)) (\<lambda>e. Inr (er_name e))
                 else Inr name)) [0..<(standardExchangeRatesCount + 9) div 10] []) (\<lambda>name.
        Inr \<lparr>er_address = ut_address out, er_index = of_nat i, er_name = name\<rparr>)))"

definition getIssuedAsset :: "DigiByteTransaction \<Rightarrow> DigiAsset result" where
  "getIssuedAsset t = (if \<not> isIssuance t then Inl (OutOfRange ''Not an issuance'') else Inr (newAsset t))"

subsection \<open>Assets on outputs\<close>

text \<open>Merge an aggregable asset with the first one of the same index, or append it.\<close>

fun merge_asset :: "DigiAsset \<Rightarrow> DigiAsset list \<Rightarrow> DigiAsset list" where
  "merge_asset asset [] = [asset]"
| "merge_asset asset (x # xs) =
     (if assetIndex x = assetIndex asset then addCount (getCount asset) x # xs else x # merge_asset asset xs)"

definition addAssetToOutput :: "nat \<Rightarrow> DigiAsset \<Rightarrow> AssetUTXO list \<Rightarrow> AssetUTXO list result" where
  "addAssetToOutput n asset outs =
     bindE (vec_get outs n) (\<lambda>out.
     Inr (outs[n := out\<lparr>ut_assets := (if isAggregable asset then merge_asset asset (ut_assets out) else ut_assets out @ [asset])\<rparr>]))"

definition clear_assets :: "AssetUTXO \<Rightarrow> AssetUTXO" where
  "clear_assets u = u\<lparr>ut_assets := []\<rparr>"

text \<open>The assets of the inputs that carry any.\<close>

definition asset_inputs :: "AssetUTXO list \<Rightarrow> DigiAsset list list" where
  "asset_inputs us = filter (\<lambda>as. as \<noteq> []) (map ut_assets us)"

subsection \<open>The transfer engine\<close>

record instruction =
  i_skip :: bool
  i_range :: bool
  i_percent :: bool
  i_output :: nat
  i_percentByte :: u32
  i_fixedAmount :: u64

definition read_instruction :: "BitIO \<Rightarrow> (instruction \<times> BitIO) result" where
  "read_instruction s =
     bindE (getBits 1 s) (\<lambda>(sk, s).
     bindE (getBits 1 s) (\<lambda>(rg, s).
     bindE (getBits 1 s) (\<lambda>(pc, s).
     bindE (if rg \<noteq> 0 then getBits 13 s else getBits 5 s) (\<lambda>(out, s).
     bindE (if pc \<noteq> 0 then bindE (getBits 8 s) (\<lambda>(v, s). Inr (ucast v + 1, s)) else Inr (0, s)) (\<lambda>(pb, s).
     bindE (if pc \<noteq> 0 then Inr (0, s) else getFixedPrecision s) (\<lambda>(fa, s).
     Inr (\<lparr>i_skip = (sk \<noteq> 0), i_range = (rg \<noteq> 0), i_percent = (pc \<noteq> 0), i_output = unat out,
            i_percentByte = pb, i_fixedAmount = fa\<rparr>, s)))))))"

text \<open>The next asset to take from: \<^verbatim>\<open>inputs[index][0]\<close>, with the check that precedes it.\<close>

definition front :: "DigiAsset list list \<Rightarrow> nat \<Rightarrow> DigiAsset result" where
  "front inputs index =
     (if index \<ge> length inputs \<or> inputs ! index = [] then Inl InvalidTransfer else Inr (hd (inputs ! index)))"

type_synonym cursor = "DigiAsset list list \<times> nat \<times> bool"

lemma front_shrinks:
  assumes "front inputs index = Inr cur"
  shows "sum_list (map length (inputs[index := tl (inputs ! index)])) < sum_list (map length inputs)"
proof -
  have i: "index < length inputs" "inputs ! index \<noteq> []" using assms by (auto simp: front_def split: if_splits)
  define a b x where "a = take index inputs" and "b = drop (Suc index) inputs" and "x = inputs ! index"
  have e: "inputs = a @ x # b" "inputs[index := tl x] = a @ tl x # b"
    using id_take_nth_drop[OF i(1)] upd_conv_take_nth_drop[OF i(1)] by (simp_all add: a_def b_def x_def)
  have "length (tl x) < length x" using i(2) by (simp add: x_def)
  then show ?thesis unfolding x_def[symmetric] e(2) by (subst e(1)) simp
qed

text \<open>Take an amount from the inputs, in order, of one asset only.\<close>

function remove_assets :: "u64 \<Rightarrow> DigiAsset \<Rightarrow> cursor \<Rightarrow> cursor result" where
  "remove_assets left_over removed (inputs, index, allowSkip) =
     (if left_over = 0 then Inr (inputs, index, allowSkip)
      else
        bindE (front inputs index) (\<lambda>cur.
        if DigiAsset_neq cur removed then Inl InvalidTransfer
        else if getCount cur < left_over \<and> isHybrid cur then Inl InvalidTransfer
        else if getCount cur \<le> left_over then
          (let inputs' = inputs[index := tl (inputs ! index)] in
           if inputs' ! index = []
           then remove_assets (left_over - getCount cur) removed (inputs', index + 1, False)
           else remove_assets (left_over - getCount cur) removed (inputs', index, True))
        else
          bindE (removeCount left_over cur) (\<lambda>cur'.
          Inr (inputs[index := cur' # tl (inputs ! index)], index, True))))"
  by pat_completeness auto
termination
  by (relation "measure (\<lambda>(n, r, inputs, index, b). sum_list (map length inputs))") (auto dest: front_shrinks)

declare remove_assets.simps [simp del]

text \<open>The body of the \<^verbatim>\<open>try\<close> block of one instruction; an error makes the caller start over.\<close>

type_synonym transfer_state = "cursor \<times> AssetUTXO list"

definition give_assets :: "nat \<Rightarrow> instruction \<Rightarrow> u64 \<Rightarrow> DigiAsset \<Rightarrow> AssetUTXO list \<Rightarrow> AssetUTXO list result" where
  "give_assets type i amount removed outs =
     (if type = DIGIASSET_BURN \<and> \<not> i_range i \<and> i_output i = 31 then Inr outs
      else if i_output i \<ge> length outs then Inl InvalidTransfer
      else foldE (\<lambda>vout. addAssetToOutput vout (setCount amount removed))
             [(if i_range i then 0 else i_output i)..<Suc (i_output i)] outs)"

definition instruction_amount :: "instruction \<Rightarrow> DigiAsset \<Rightarrow> u64" where
  "instruction_amount i cur =
     (if i_percent i then getCount cur * ucast (i_percentByte i) div 256 else i_fixedAmount i)"

definition instruction_total :: "instruction \<Rightarrow> u64 \<Rightarrow> u64" where
  "instruction_total i amount = (if i_range i then of_nat (i_output i + 1) * amount else amount)"

definition apply_instruction :: "nat \<Rightarrow> instruction \<Rightarrow> transfer_state \<Rightarrow> transfer_state result" where
  "apply_instruction type i = (\<lambda>((inputs, index, allowSkip), outs).
     bindE (front inputs index) (\<lambda>removed.
     let amount = instruction_amount i removed;
         totalAmount = instruction_total i amount
     in bindE (remove_assets totalAmount removed (inputs, index, allowSkip)) (\<lambda>(inputs, index, allowSkip).
        bindE (if totalAmount > 0 then give_assets type i amount removed outs else Inr outs) (\<lambda>outs.
        if i_skip i
        then Inr ((inputs, (if allowSkip then index + 1 else index), True), outs)
        else Inr ((inputs, index, allowSkip), outs)))))"

text \<open>
  The loop over the instructions. Reading an instruction happens outside the \<^verbatim>\<open>try\<close> block: an
  exception there leaves the function with the outputs as they are. An exception inside clears every
  output and puts all inputs back.
\<close>

definition footerBitCount :: "nat \<Rightarrow> nat" where
  "footerBitCount type = (if type = DIGIASSET_ISSUANCE then 8 else 0)"

definition wasted_input :: "DigiByteTransaction \<Rightarrow> nat \<Rightarrow> bool result" where
  "wasted_input t type =
     (if assetTransactionVersion t < 3 \<and> type \<noteq> DIGIASSET_ISSUANCE
      then bindE (vec_get (t_inputs t) 0) (\<lambda>u. Inr (ut_assets u = []))
      else Inr False)"

lemma read_instruction_uses: "read_instruction s = Inr (i, s') \<Longrightarrow> uses 1 s s'"
  by (auto simp: read_instruction_def uses_def getNumberOfBitLeft_def elim!: bindE_E split: if_split_asm
      dest!: getBits_moves getFixedPrecision_uses) linarith+

function transfer_loop ::
  "DigiByteTransaction \<Rightarrow> nat \<Rightarrow> AssetUTXO list \<Rightarrow> BitIO \<Rightarrow> transfer_state \<Rightarrow> DigiAsset list list result \<times> AssetUTXO list" where
  "transfer_loop t type inputAssets s ((inputs, index, allowSkip), outs) =
     (if getNumberOfBitLeft s > footerBitCount type then
        (case read_instruction s of
           Inl e \<Rightarrow> (Inl e, outs)
         | Inr (i, s') \<Rightarrow>
             (case wasted_input t type of
                Inl e \<Rightarrow> (Inl e, outs)
              | Inr True \<Rightarrow> (Inr inputs, outs)
              | Inr False \<Rightarrow>
                  (case apply_instruction type i ((inputs, index, allowSkip), outs) of
                     Inl UndefinedBehaviour \<Rightarrow> (Inl UndefinedBehaviour, outs)
                   | Inl _ \<Rightarrow> (Inr (asset_inputs inputAssets), map clear_assets outs)
                   | Inr st \<Rightarrow> transfer_loop t type inputAssets s' st)))
      else (Inr inputs, outs))"
  by pat_completeness auto
termination
  by (relation "measure (\<lambda>(t, type, ins, s, st). getNumberOfBitLeft s)") (auto dest!: read_instruction_uses simp: uses_def)

declare transfer_loop.simps [simp del]

text \<open>
  What is left over goes to the last output. Here the search for an asset to merge with asks for the
  index without allowing an unknown one, so it throws for an asset that is not in the database yet.
\<close>

fun find_same_index :: "DigiAsset \<Rightarrow> DigiAsset list \<Rightarrow> DigiAsset list option result" where
  "find_same_index asset [] = Inr None"
| "find_same_index asset (x # xs) =
     bindE (getAssetIndex False x) (\<lambda>i.
     bindE (getAssetIndex False asset) (\<lambda>j.
     if i = j then Inr (Some (addCount (getCount asset) x # xs))
     else bindE (find_same_index asset xs) (\<lambda>r. Inr (map_option (Cons x) r))))"

definition add_change :: "DigiAsset \<Rightarrow> AssetUTXO list \<Rightarrow> AssetUTXO list result" where
  "add_change asset outs =
     (if getCount asset = 0 then Inr outs
      else if outs = [] then Inl UndefinedBehaviour
      else
        let lastOutput = length outs - 1 in
        bindE (if isAggregable asset then find_same_index asset (ut_assets (outs ! lastOutput)) else Inr None) (\<lambda>r.
        case r of
          Some as \<Rightarrow> Inr (outs[lastOutput := (outs ! lastOutput)\<lparr>ut_assets := as\<rparr>])
        | None \<Rightarrow> addAssetToOutput lastOutput asset outs))"

fun change_loop :: "DigiAsset list \<Rightarrow> AssetUTXO list \<Rightarrow> unit result \<times> AssetUTXO list" where
  "change_loop [] outs = (Inr (), outs)"
| "change_loop (a # as) outs =
     (case add_change a outs of Inl e \<Rightarrow> (Inl e, outs) | Inr outs' \<Rightarrow> change_loop as outs')"

definition checkRulesPass :: "Node \<Rightarrow> DigiByteTransaction \<Rightarrow> unit result" where
  "checkRulesPass node t =
     foldE (\<lambda>utxo. foldE (\<lambda>asset _. DigiAsset_checkRulesPass node (t_inputs t) (t_outputs t) (t_height t) (t_time t) asset)
              (ut_assets utxo)) (t_inputs t) ()"

text \<open>Outputs without an address (data outputs) can not hold assets.\<close>

definition clear_unaddressed :: "DigiByteTransaction \<Rightarrow> DigiByteTransaction" where
  "clear_unaddressed t =
     t\<lparr>t_outputs := map (\<lambda>u. if ut_address u = [] \<and> ut_assets u \<noteq> [] then clear_assets u else u) (t_outputs t),
       unintentionalBurn := unintentionalBurn t \<or> list_ex (\<lambda>u. ut_address u = [] \<and> ut_assets u \<noteq> []) (t_outputs t)\<rparr>"

definition decodeAssetTransfer :: "Node \<Rightarrow> BitIO \<Rightarrow> AssetUTXO list \<Rightarrow> nat \<Rightarrow> unit tx_step" where
  "decodeAssetTransfer node s inputAssets type t =
     (case transfer_loop t type inputAssets s ((asset_inputs inputAssets, 0, True), t_outputs t) of
        (Inl e, outs) \<Rightarrow> (Inl e, t\<lparr>t_outputs := outs\<rparr>)
      | (Inr inputs, outs) \<Rightarrow>
          (case change_loop (concat inputs) outs of
             (Inl e, outs) \<Rightarrow> (Inl e, t\<lparr>t_outputs := outs\<rparr>)
           | (Inr _, outs) \<Rightarrow>
               let t = t\<lparr>t_outputs := outs\<rparr> in
               (case (if type \<noteq> DIGIASSET_ISSUANCE then checkRulesPass node t else Inr ()) of
                  Inl e \<Rightarrow> (Inl e, t)
                | Inr _ \<Rightarrow> (Inr (), clear_unaddressed t))))"

end
