(* ===== verification/TransferLaws.thy ===== *)
theory TransferLaws
  imports Transaction
begin

text \<open>
  What the transfer engine keeps. Counted per asset index in 64-bit arithmetic, as the code counts,
  every instruction and the change step move assets between the inputs and the outputs without
  creating or losing any; an instruction that fails puts everything back.
\<close>

unbundle bit_operations_syntax

subsection \<open>Totals\<close>

definition asset_sum :: "u64 \<Rightarrow> DigiAsset list \<Rightarrow> u64" where
  "asset_sum i as = (\<Sum>a\<leftarrow>as. if assetIndex a = i then da_count a else 0)"

definition outputs_sum :: "u64 \<Rightarrow> AssetUTXO list \<Rightarrow> u64" where
  "outputs_sum i us = (\<Sum>u\<leftarrow>us. asset_sum i (ut_assets u))"

lemma asset_sum_simps [simp]:
  "asset_sum i [] = 0"
  "asset_sum i (a # as) = (if assetIndex a = i then da_count a else 0) + asset_sum i as"
  "asset_sum i (as @ bs) = asset_sum i as + asset_sum i bs"
  by (simp_all add: asset_sum_def)

lemma outputs_sum_simps [simp]:
  "outputs_sum i [] = 0"
  "outputs_sum i (u # us) = asset_sum i (ut_assets u) + outputs_sum i us"
  "outputs_sum i (us @ vs) = outputs_sum i us + outputs_sum i vs"
  by (simp_all add: outputs_sum_def)

lemma outputs_sum_update:
  assumes "n < length us"
  shows "outputs_sum i (us[n := u]) + asset_sum i (ut_assets (us ! n)) = outputs_sum i us + asset_sum i (ut_assets u)"
proof -
  define a b x where "a = take n us" and "b = drop (Suc n) us" and "x = us ! n"
  have e: "us = a @ x # b" "us[n := u] = a @ u # b"
    using id_take_nth_drop[OF assms] upd_conv_take_nth_drop[OF assms] by (simp_all add: a_def b_def x_def)
  show ?thesis unfolding x_def[symmetric] e(2) by (subst e(1)) (simp add: algebra_simps)
qed

lemma concat_update_sum:
  assumes "n < length ls" "asset_sum i l + d = asset_sum i (ls ! n)"
  shows "asset_sum i (concat (ls[n := l])) + d = asset_sum i (concat ls)"
proof -
  define a b x where "a = take n ls" and "b = drop (Suc n) ls" and "x = ls ! n"
  have e: "ls = a @ x # b" "ls[n := l] = a @ l # b"
    using id_take_nth_drop[OF assms(1)] upd_conv_take_nth_drop[OF assms(1)] by (simp_all add: a_def b_def x_def)
  have "asset_sum i (concat (a @ l # b)) + d = asset_sum i (concat (a @ x # b))"
    using assms(2) by (simp add: x_def algebra_simps)
  then show ?thesis using e by simp
qed

lemma outputs_sum_clear [simp]: "outputs_sum i (map clear_assets us) = 0"
  by (induction us) (simp_all add: clear_assets_def)

lemma asset_inputs_sum: "asset_sum i (concat (asset_inputs us)) = outputs_sum i us"
  by (induction us) (auto simp: asset_inputs_def)

subsection \<open>Outputs\<close>

definition put_asset :: "DigiAsset \<Rightarrow> AssetUTXO \<Rightarrow> AssetUTXO" where
  "put_asset a u = u\<lparr>ut_assets := (if isAggregable a then merge_asset a (ut_assets u) else ut_assets u @ [a])\<rparr>"

lemma merge_asset_sum: "asset_sum i (merge_asset a as) = asset_sum i as + asset_sum i [a]"
  by (induction a as rule: merge_asset.induct) (auto simp: addCount_def getCount_def algebra_simps)

lemma put_asset_sum [simp]: "asset_sum i (ut_assets (put_asset a u)) = asset_sum i (ut_assets u) + asset_sum i [a]"
  by (simp add: put_asset_def merge_asset_sum)

lemma put_asset_address [simp]: "ut_address (put_asset a u) = ut_address u"
  by (simp add: put_asset_def)

lemma addAssetToOutput_eq:
  "addAssetToOutput n a outs = (if n < length outs then Inr (outs[n := put_asset a (outs ! n)]) else Inl UndefinedBehaviour)"
  by (simp add: addAssetToOutput_def vec_get_def put_asset_def)

lemma give_range:
  "m \<le> k \<Longrightarrow> k \<le> length outs \<Longrightarrow>
     foldE (\<lambda>n. addAssetToOutput n a) [m..<k] outs =
       Inr (take m outs @ map (put_asset a) (take (k - m) (drop m outs)) @ drop k outs)"
proof (induction k)
  case (Suc k)
  show ?case
  proof (cases "m = Suc k")
    case False
    then have mk: "m \<le> k" "k < length outs" using Suc.prems by simp_all
    let ?r = "take m outs @ map (put_asset a) (take (k - m) (drop m outs)) @ drop k outs"
    have l: "length (take m outs @ map (put_asset a) (take (k - m) (drop m outs))) = k" using mk by simp
    have d: "drop k outs = outs ! k # drop (Suc k) outs" using mk(2) by (rule Cons_nth_drop_Suc[symmetric])
    have t: "take (Suc k - m) (drop m outs) = take (k - m) (drop m outs) @ [outs ! k]"
      using mk by (simp add: Suc_diff_le take_Suc_conv_app_nth)
    define p where "p = take m outs @ map (put_asset a) (take (k - m) (drop m outs))"
    have r: "?r = p @ outs ! k # drop (Suc k) outs" "length p = k" using l d by (simp_all add: p_def)
    have n: "?r ! k = outs ! k" unfolding r(1) using r(2) by (metis nth_append_length)
    have "?r[k := put_asset a (?r ! k)] = p @ put_asset a (outs ! k) # drop (Suc k) outs"
      unfolding n unfolding r(1) using list_update_length[of p] r(2) by metis
    then have "?r[k := put_asset a (?r ! k)] = take m outs @ map (put_asset a) (take (Suc k - m) (drop m outs)) @ drop (Suc k) outs"
      unfolding t by (simp add: p_def)
    moreover have "k < length ?r" using mk l by simp
    ultimately show ?thesis using Suc.IH mk by (simp add: foldE_append addAssetToOutput_eq)
  qed (use Suc.prems in simp)
qed simp

lemma outputs_sum_put: "outputs_sum i (map (put_asset a) us) = outputs_sum i us + of_nat (length us) * asset_sum i [a]"
  by (induction us) (simp_all add: algebra_simps)

lemma give_range_sum:
  assumes "m \<le> k" "k \<le> length outs" "foldE (\<lambda>n. addAssetToOutput n a) [m..<k] outs = Inr outs'"
  shows "outputs_sum i outs' = outputs_sum i outs + of_nat (k - m) * asset_sum i [a]"
proof -
  define xs ys zs where "xs = take m outs" and "ys = take (k - m) (drop m outs)" and "zs = drop k outs"
  have e: "outs = xs @ ys @ zs" "length ys = k - m"
    using assms(1,2) append_take_drop_id[of "k - m" "drop m outs"] by (simp_all add: xs_def ys_def zs_def)
  have "outs' = xs @ map (put_asset a) ys @ zs"
    using give_range[OF assms(1,2), of a] assms(3) by (simp add: xs_def ys_def zs_def)
  then show ?thesis unfolding e(2)[symmetric] by (simp add: e(1) outputs_sum_put algebra_simps)
qed

lemma give_assets_sum:
  assumes "give_assets type ins amount removed outs = Inr outs'" "type \<noteq> DIGIASSET_BURN"
  shows "outputs_sum i outs' = outputs_sum i outs + (if assetIndex removed = i then instruction_total ins amount else 0)"
proof -
  let ?a = "setCount amount removed" and ?m = "if i_range ins then 0 else i_output ins" and ?k = "Suc (i_output ins)"
  have f: "foldE (\<lambda>n. addAssetToOutput n ?a) [?m..<?k] outs = Inr outs'" and k: "?k \<le> length outs"
    using assms by (auto simp: give_assets_def split: if_split_asm)
  have "outputs_sum i outs' = outputs_sum i outs + of_nat (?k - ?m) * asset_sum i [?a]"
    by (rule give_range_sum[OF _ k f]) simp
  then show ?thesis by (auto simp: setCount_def instruction_total_def)
qed

subsection \<open>Inputs\<close>

lemma remove_assets_sum:
  "remove_assets n r (inputs, index, b) = Inr (inputs', index', b') \<Longrightarrow>
     asset_sum i (concat inputs') + (if assetIndex r = i then n else 0) = asset_sum i (concat inputs)"
proof (induction n r "(inputs, index, b)" arbitrary: inputs index b rule: remove_assets.induct)
  case (1 n r inputs index b)
  show ?case
  proof (cases "n = 0")
    case True
    then show ?thesis using "1.prems" by (simp add: remove_assets.simps[of 0])
  next
    case False
    obtain cur where cur: "front inputs index = Inr cur" and same: "\<not> DigiAsset_neq cur r"
      using "1.prems" False by (subst (asm) remove_assets.simps) (auto elim!: bindE_E split: if_split_asm)
    have ne: "index < length inputs" "inputs ! index = cur # tl (inputs ! index)"
      using cur by (auto simp: front_def split: if_split_asm)
    have ix: "assetIndex cur = assetIndex r" using same by (simp add: DigiAsset_neq_def)
    let ?in = "inputs[index := tl (inputs ! index)]"
    have drop1: "asset_sum i (concat ?in) + (if assetIndex r = i then da_count cur else 0) = asset_sum i (concat inputs)"
      by (rule concat_update_sum[OF ne(1)]) (subst (2) ne(2), simp add: ix)
    show ?thesis
    proof (cases "getCount cur \<le> n")
      case True
      have hyb: "\<not> (getCount cur < n \<and> isHybrid cur)"
        using "1.prems" False cur same by (subst (asm) remove_assets.simps) (auto split: if_split_asm)
      have "remove_assets (n - getCount cur) r (if ?in ! index = [] then (?in, index + 1, False) else (?in, index, True)) =
          Inr (inputs', index', b')"
        using "1.prems" False cur same hyb True by (subst (asm) remove_assets.simps) (auto simp: Let_def split: if_split_asm)
      then have "asset_sum i (concat inputs') + (if assetIndex r = i then n - getCount cur else 0) = asset_sum i (concat ?in)"
        using "1.hyps"(1)[OF False cur same hyb True refl] "1.hyps"(2)[OF False cur same hyb True refl]
        by (auto split: if_split_asm)
      then show ?thesis using drop1 by (auto simp: getCount_def algebra_simps split: if_split_asm)
    next
      case c: False
      then have "inputs' = inputs[index := cur\<lparr>da_count := da_count cur - n\<rparr> # tl (inputs ! index)]"
        using "1.prems" False cur same
        by (subst (asm) remove_assets.simps) (auto simp: removeCount_def getCount_def elim!: bindE_E split: if_split_asm)
      moreover have "asset_sum i (cur\<lparr>da_count := da_count cur - n\<rparr> # tl (inputs ! index)) + (if assetIndex r = i then n else 0) =
          asset_sum i (inputs ! index)"
        by (subst (2) ne(2)) (simp add: ix)
      ultimately show ?thesis using concat_update_sum[OF ne(1)] by simp
    qed
  qed
qed

lemma apply_instruction_sum:
  assumes "apply_instruction type ins ((inputs, index, b), outs) = Inr ((inputs', index', b'), outs')"
    and "type \<noteq> DIGIASSET_BURN"
  shows "asset_sum i (concat inputs') + outputs_sum i outs' = asset_sum i (concat inputs) + outputs_sum i outs"
proof -
  obtain r where r: "front inputs index = Inr r" using assms(1) by (auto simp: apply_instruction_def elim!: bindE_E)
  let ?am = "instruction_amount ins r"
  let ?t = "instruction_total ins ?am"
  obtain index1 b1 where rm: "remove_assets ?t r (inputs, index, b) = Inr (inputs', index1, b1)"
      and gv: "(if ?t > 0 then give_assets type ins ?am r outs else Inr outs) = Inr outs'"
    using assms(1) r by (auto simp: apply_instruction_def Let_def elim!: bindE_E split: if_split_asm)
  have "outputs_sum i outs' = outputs_sum i outs + (if assetIndex r = i then ?t else 0)"
    using gv give_assets_sum[OF _ assms(2)] by (cases "?t = 0") (auto simp: word_neq_0_conv split: if_split_asm)
  then show ?thesis using remove_assets_sum[OF rm, of i] by (simp add: algebra_simps)
qed

subsection \<open>The whole transfer\<close>

lemma transfer_loop_sum:
  "type \<noteq> DIGIASSET_BURN \<Longrightarrow> transfer_loop t type ins s ((inputs, index, b), outs) = (Inr inputs', outs') \<Longrightarrow>
    asset_sum i (concat inputs) + outputs_sum i outs = outputs_sum i ins \<Longrightarrow>
    asset_sum i (concat inputs') + outputs_sum i outs' = outputs_sum i ins"
proof (induction t type ins s "((inputs, index, b), outs)" arbitrary: inputs index b outs rule: transfer_loop.induct)
  case (1 t type ins s inputs index b outs)
  note ty = "1.prems"(1) and run = "1.prems"(2) and eq = "1.prems"(3)
  show ?case
  proof (cases "getNumberOfBitLeft s > footerBitCount type")
    case True
    obtain x s' where r: "read_instruction s = Inr (x, s')"
      using run True by (subst (asm) transfer_loop.simps) (auto split: sum.split_asm)
    obtain w where w: "wasted_input t type = Inr w"
      using run True r by (subst (asm) transfer_loop.simps) (auto split: sum.split_asm)
    show ?thesis
    proof (cases w)
      case True
      then show ?thesis
        using run eq \<open>getNumberOfBitLeft s > footerBitCount type\<close> r w by (subst (asm) transfer_loop.simps) simp
    next
      case w0: False
      show ?thesis
      proof (cases "apply_instruction type x ((inputs, index, b), outs)")
        case (Inl e)
        then have "inputs' = asset_inputs ins" "outs' = map clear_assets outs"
          using run True r w w0 by (subst (asm) transfer_loop.simps; cases e; simp)+
        then show ?thesis by (simp add: asset_inputs_sum)
      next
        case (Inr st)
        obtain inputs1 index1 b1 outs1 where st: "st = ((inputs1, index1, b1), outs1)" by (cases st) auto
        have l: "transfer_loop t type ins s' ((inputs1, index1, b1), outs1) = (Inr inputs', outs')"
          using run True r w w0 Inr st by (subst (asm) transfer_loop.simps) simp
        have "asset_sum i (concat inputs1) + outputs_sum i outs1 = outputs_sum i ins"
          using apply_instruction_sum[OF Inr[unfolded st] ty] eq by simp
        moreover have "w = False" using w0 by simp
        ultimately show ?thesis using "1.hyps"[OF True r refl w _ Inr[unfolded st] ty l] by blast
      qed
    qed
  next
    case False
    then show ?thesis using run eq by (subst (asm) transfer_loop.simps) simp
  qed
qed

lemma find_same_index_sum:
  "find_same_index a as = Inr (Some as') \<Longrightarrow> asset_sum i as' = asset_sum i as + asset_sum i [a]"
proof (induction as arbitrary: as')
  case Nil
  then show ?case by simp
next
  case (Cons x xs)
  obtain m n where ix: "getAssetIndex False x = Inr m" "getAssetIndex False a = Inr n"
    using Cons.prems by (auto elim!: bindE_E)
  then have mn: "m = assetIndex x" "n = assetIndex a" by (simp_all add: getAssetIndex_def split: if_split_asm)
  show ?case
  proof (cases "m = n")
    case True
    then have "as' = addCount (getCount a) x # xs" using Cons.prems ix by simp
    then show ?thesis using True mn by (simp add: addCount_def getCount_def algebra_simps)
  next
    case False
    then obtain ys where "find_same_index a xs = Inr (Some ys)" "as' = x # ys"
      using Cons.prems ix by (auto elim!: bindE_E)
    then show ?thesis using Cons.IH[of ys] by (simp add: algebra_simps)
  qed
qed

lemma add_change_sum: "add_change a outs = Inr outs' \<Longrightarrow> outputs_sum i outs' = outputs_sum i outs + asset_sum i [a]"
proof -
  assume c: "add_change a outs = Inr outs'"
  show ?thesis
  proof (cases "getCount a = 0")
    case True
    then show ?thesis using c by (simp add: add_change_def getCount_def)
  next
    case False
    then have n: "length outs - 1 < length outs" using c by (cases outs) (auto simp: add_change_def)
    let ?n = "length outs - 1"
    obtain u where "outs' = outs[?n := u]" "asset_sum i (ut_assets u) = asset_sum i (ut_assets (outs ! ?n)) + asset_sum i [a]"
    proof (cases "\<exists>as. isAggregable a \<and> find_same_index a (ut_assets (outs ! ?n)) = Inr (Some as)")
      case True
      then obtain as where as: "isAggregable a" "find_same_index a (ut_assets (outs ! ?n)) = Inr (Some as)" by blast
      then show ?thesis using that[of "(outs ! ?n)\<lparr>ut_assets := as\<rparr>"] find_same_index_sum[OF as(2)] c False
        by (auto simp: add_change_def Let_def split: if_split_asm)
    next
      case no: False
      then have "addAssetToOutput ?n a outs = Inr outs'"
        using c False by (auto simp: add_change_def Let_def elim!: bindE_E split: if_split_asm option.split_asm)
      then show ?thesis using that[of "put_asset a (outs ! ?n)"] n by (simp add: addAssetToOutput_eq)
    qed
    then show ?thesis using outputs_sum_update[OF n, of i u] by (simp add: algebra_simps)
  qed
qed

lemma change_loop_sum: "change_loop as outs = (Inr x, outs') \<Longrightarrow> outputs_sum i outs' = outputs_sum i outs + asset_sum i as"
  by (induction as arbitrary: outs) (auto simp: add_change_sum add.assoc split: sum.split_asm)

lemma clear_unaddressed_same:
  "\<not> unintentionalBurn (clear_unaddressed t) \<Longrightarrow> t_outputs (clear_unaddressed t) = t_outputs t"
  by (auto simp: clear_unaddressed_def list_ex_iff intro!: map_idI)

lemma decode_conserves:
  assumes d: "decodeAssetTransfer node s ins type t = (Inr (), t')" and ty: "type \<noteq> DIGIASSET_BURN"
    and e: "list_all (\<lambda>u. ut_assets u = []) (t_outputs t)" and b: "\<not> unintentionalBurn t'"
  shows "outputs_sum i (t_outputs t') = outputs_sum i ins"
proof -
  obtain inputs1 outs1 where l: "transfer_loop t type ins s ((asset_inputs ins, 0, True), t_outputs t) = (Inr inputs1, outs1)"
    using d by (auto simp: decodeAssetTransfer_def split: prod.split_asm sum.split_asm)
  obtain outs2 where c: "change_loop (concat inputs1) outs1 = (Inr (), outs2)"
    using d l by (auto simp: decodeAssetTransfer_def split: prod.split_asm sum.split_asm)
  have t': "t' = clear_unaddressed (t\<lparr>t_outputs := outs2\<rparr>)"
    using d l c by (auto simp: decodeAssetTransfer_def Let_def split: sum.split_asm)
  have "list_all (\<lambda>u. ut_assets u = []) us \<Longrightarrow> outputs_sum i us = 0" for us by (induction us) auto
  then have z: "outputs_sum i (t_outputs t) = 0" using e by blast
  have "t_outputs t' = outs2" using clear_unaddressed_same b unfolding t' by simp
  then show ?thesis
    using transfer_loop_sum[OF ty l, of i] change_loop_sum[OF c, of i] z by (simp add: asset_inputs_sum algebra_simps)
qed

subsection \<open>A range transfer whose total wraps\<close>

lemma apply_range:
  assumes "front inputs index = Inr cur" "assetIndex cur = assetIndex cur" "i_range x" "\<not> i_percent x" "\<not> i_skip x"
    and "i_output x < length outs" "instruction_total x (i_fixedAmount x) = n" "0 < n" "n < da_count cur"
  shows "apply_instruction type x ((inputs, index, b), outs) =
    Inr ((inputs[index := cur\<lparr>da_count := da_count cur - n\<rparr> # tl (inputs ! index)], index, True),
      map (put_asset (setCount (i_fixedAmount x) cur)) (take (Suc (i_output x)) outs) @ drop (Suc (i_output x)) outs)"
proof -
  have r: "remove_assets n cur (inputs, index, b) = Inr (inputs[index := cur\<lparr>da_count := da_count cur - n\<rparr> # tl (inputs ! index)], index, True)"
    using assms(1,8,9)
    by (subst remove_assets.simps) (auto simp: DigiAsset_neq_def getCount_def removeCount_def)
  have g: "give_assets type x (i_fixedAmount x) cur outs =
      Inr (map (put_asset (setCount (i_fixedAmount x) cur)) (take (Suc (i_output x)) outs) @ drop (Suc (i_output x)) outs)"
    using give_range[of 0 "Suc (i_output x)" outs] assms(3,6) by (simp add: give_assets_def)
  show ?thesis using assms r g by (simp add: apply_instruction_def instruction_amount_def Let_def)
qed

end
