(* ===== verification/TransactionDecode.thy ===== *)
theory TransactionDecode
  imports TransferLaws Base58
begin

text \<open>
  The transaction class of \<^verbatim>\<open>src/src/DigiByteTransaction.cpp\<close>, third part: loading a transaction of the
  chain, the decoders that find out what it is, and what is written to the database for it.

  The wallet's and the database's answers are the fields of \<open>Chain\<close>.
\<close>

unbundle bit_operations_syntax

record Chain =
  ch_node :: Node
  getRawTransaction :: "string \<Rightarrow> getrawtransaction_t result"
  getBlockHeight :: "string \<Rightarrow> u32 result"
  getAssetUTXO :: "string \<Rightarrow> nat \<Rightarrow> u32 \<Rightarrow> AssetUTXO result"
  isWatchAddress :: "string \<Rightarrow> bool result"

subsection \<open>Exchange rates\<close>

lemma getBytes_uses_byte: "getBytes n s = Inr (v, s') \<Longrightarrow> 0 < n \<Longrightarrow> uses 8 s s'"
proof (induction n arbitrary: s v)
  case (Suc n)
  from Suc.prems(1) obtain b s1 v' where g: "getBits 8 s = Inr (b, s1)" "getBytes n s1 = Inr (v', s')"
    by (auto elim!: bindE_E)
  show ?case
  proof (cases "n = 0")
    case True
    then show ?thesis using g getBits_uses[OF g(1)] by simp
  next
    case False
    then show ?thesis using Suc.IH[OF g(2)] uses_trans[of 8 s s1 8 s'] getBits_uses[OF g(1)] uses_weaken[of 16 s s' 8] by simp
  qed
qed simp

lemma getDouble_uses: "getDouble le s = Inr (v, s') \<Longrightarrow> uses 8 s s'"
  by (auto simp: getDouble_def elim!: bindE_E dest: getBytes_uses_byte)

text \<open>The rates read before an exception stay in the object.\<close>

function read_rates :: "BitIO \<Rightarrow> double list \<Rightarrow> unit result \<times> double list" where
  "read_rates s rates =
     (if getPosition s = getLength s then (Inr (), rates)
      else case getDouble True s of
        Inl e \<Rightarrow> (Inl e, rates)
      | Inr (d, s') \<Rightarrow> read_rates s' (rates @ [d]))"
  by pat_completeness auto
termination
  by (relation "measure (\<lambda>(s, r). getNumberOfBitLeft s)") (auto dest!: getDouble_uses simp: uses_def)

declare read_rates.simps [simp del]

definition exchange_payload :: "vout_t \<Rightarrow> BitIO option result" where
  "exchange_payload out =
     bindE (makeHexString (spk_hex out)) (\<lambda>s.
     bindE (checkIsBitcoinOpReturn s) (\<lambda>(isOp, s).
     if \<not> isOp then Inr None
     else
       bindE (getBitcoinDataHeader s) (\<lambda>(h, s).
       if h \<noteq> BITIO_BITCOIN_TYPE_DATA then Inr None
       else bindE (copyBitcoinData s) (\<lambda>(s, _). Inr (Some s)))))"

text \<open>Whether the transaction publishes rates: its payload then, or nothing.\<close>

definition exchange_stream :: "Chain \<Rightarrow> getrawtransaction_t \<Rightarrow> nat \<Rightarrow> BitIO option result" where
  "exchange_stream chain tx dataIndex =
     (if dataIndex \<noteq> 0 then Inr None
      else if length (tx_vin tx) \<noteq> 1 then Inr None
      else if length (tx_vout tx) \<noteq> 2 then Inr None
      else
        bindE (exchange_payload (tx_vout tx ! 0)) (\<lambda>p.
        case p of None \<Rightarrow> Inr None
        | Some s \<Rightarrow>
            if getLength s mod 64 \<noteq> 0 then Inr None
            else if length (spk_addresses (tx_vout tx ! 1)) \<noteq> 1 then Inr None
            else
              let address = spk_addresses (tx_vout tx ! 1) ! 0; vin = tx_vin tx ! 0 in
              bindE (isWatchAddress chain address) (\<lambda>watched.
              if \<not> watched then Inr None
              else
                bindE (getSendingAddress (ch_node chain) (vin_txid vin) (vin_n vin)) (\<lambda>sender.
                Inr (if address \<noteq> sender then None else Some s)))))"

definition decodeExchangeRate :: "Chain \<Rightarrow> getrawtransaction_t \<Rightarrow> nat \<Rightarrow> bool tx_step" where
  "decodeExchangeRate chain tx dataIndex t =
     (case exchange_stream chain tx dataIndex of
        Inl e \<Rightarrow> (Inl e, t)
      | Inr None \<Rightarrow> (Inr False, t)
      | Inr (Some s) \<Rightarrow>
          (case read_rates s (t_exchangeRate t) of
             (Inl e, rates) \<Rightarrow> (Inl e, t\<lparr>t_exchangeRate := rates\<rparr>)
           | (Inr _, rates) \<Rightarrow> (Inr True, t\<lparr>t_exchangeRate := rates, txType := EXCHANGE_PUBLISH\<rparr>)))"

subsection \<open>Identities, keys, DigiDollar, and the rest\<close>

definition decodeKYC :: "Chain \<Rightarrow> getrawtransaction_t \<Rightarrow> nat \<Rightarrow> bool tx_step" where
  "decodeKYC chain tx dataIndex t =
     (if dataIndex \<noteq> 1 then (Inr False, t)
      else case processTX tx (t_height t) (getSendingAddress (ch_node chain)) (kycData t) of
        Inl e \<Rightarrow> (Inl e, t)
      | Inr (code, k) \<Rightarrow>
          let t = t\<lparr>kycData := k\<rparr> in
          if code = KYC_NA then (Inr False, t)
          else (Inr True, t\<lparr>txType := (if code = KYC_VERIFY then KYC_ISSUANCE else KYC_REVOKE_TX)\<rparr>))"

definition decodeEncryptedKeyTx :: "getrawtransaction_t \<Rightarrow> nat \<Rightarrow> bool tx_step" where
  "decodeEncryptedKeyTx tx dataIndex t =
     (if dataIndex \<noteq> 1 then (Inr False, t)
      else if length (tx_vin tx) \<noteq> 1 then (Inr False, t)
      else if length (tx_vout tx) < 2 \<or> length (tx_vout tx) > 3 then (Inr False, t)
      else if valueS (tx_vout tx ! 0) \<noteq> 650 then (Inr False, t)
      else (Inr True, t\<lparr>txType := ENCRYPTED_KEY, opReturnHex := spk_hex (tx_vout tx ! dataIndex)\<rparr>))"

text \<open>The switch on the type of the metadata; \<open>None\<close> is its \<^verbatim>\<open>default: return false\<close>.\<close>

definition digidollar_type :: "getrawtransaction_t \<Rightarrow> Metadata \<Rightarrow> DigiByteTransaction \<Rightarrow> DigiByteTransaction option result" where
  "digidollar_type tx md t =
     (case md_type md of
        TX_MINT \<Rightarrow>
          let vault = findVaultOutput tx;
              t = t\<lparr>txType := DIGIDOLLAR_MINT, ddMinted := (if md_amounts md = [] then 0 else md_amounts md ! 0),
                    ddLockHeight := ucast (md_lockHeight md), ddLockTier := md_lockTier md, ddVaultOutput := vault\<rparr>
          in if vault \<ge> 0
             then bindE (vec_get (tx_vout tx) (nat vault)) (\<lambda>out. Inr (Some (t\<lparr>ddCollateral := valueS out\<rparr>)))
             else Inr (Some t)
      | TX_TRANSFER \<Rightarrow> Inr (Some (t\<lparr>txType := DIGIDOLLAR_TRANSFER\<rparr>))
      | TX_REDEEM \<Rightarrow> Inr (Some (t\<lparr>txType := DIGIDOLLAR_REDEEM\<rparr>))
      | TX_NONE \<Rightarrow> Inr None)"

definition decodeDigiDollar :: "getrawtransaction_t \<Rightarrow> bool tx_step" where
  "decodeDigiDollar tx t =
     (case decodeMetadata tx (unat (t_height t)) of
        None \<Rightarrow> (Inr False, t)
      | Some md \<Rightarrow>
          (case digidollar_type tx md t of
             Inl e \<Rightarrow> (Inl e, t)
           | Inr None \<Rightarrow> (Inr False, t)
           | Inr (Some t') \<Rightarrow> (Inr True, t'\<lparr>ddOutputs := mapAmountsToOutputs tx md\<rparr>)))"

definition storeUnknown :: "getrawtransaction_t \<Rightarrow> nat \<Rightarrow> DigiByteTransaction \<Rightarrow> DigiByteTransaction" where
  "storeUnknown tx dataIndex t = t\<lparr>txType := STANDARD, opReturnHex := spk_hex (tx_vout tx ! dataIndex)\<rparr>"

subsection \<open>Assets\<close>

text \<open>The classes that derive from \<^verbatim>\<open>DigiAsset::exception\<close>.\<close>

fun asset_exception :: "cpp_error \<Rightarrow> bool" where
  "asset_exception InvalidIssuance = True"
| "asset_exception InvalidTransfer = True"
| "asset_exception WriteProtected = True"
| "asset_exception UnknownAssetIndex = True"
| "asset_exception (RuleFailed _) = True"
| "asset_exception _ = False"

definition issuance_input :: "DigiAsset \<Rightarrow> AssetUTXO" where
  "issuance_input a = \<lparr>ut_txid = [], ut_vout = 0, ut_address = [], digibyte = 0, ut_assets = [a]\<rparr>"

text \<open>
  The result comes with the addresses the rules of a new asset asked the database to watch (those of
  an issuance that fails before its rules are stored are not listed).
\<close>

definition decodeIssuance :: "Chain \<Rightarrow> getrawtransaction_t \<Rightarrow> u8 \<Rightarrow> BitIO \<Rightarrow> (bool \<times> string list) tx_step" where
  "decodeIssuance chain tx opcode s t =
     (let t = (if assetFound t then t\<lparr>unintentionalBurn := True\<rparr> else t) in
      case DigiAsset_of_tx (ch_node chain) tx (t_height t) (assetTransactionVersion t) opcode s of
        Inl e \<Rightarrow> (if asset_exception e then Inr (False, []) else Inl e, t)
      | Inr (a, s, watch) \<Rightarrow>
          (case decodeAssetTransfer (ch_node chain) s [issuance_input a] DIGIASSET_ISSUANCE (t\<lparr>newAsset := a\<rparr>) of
             (Inl e, t) \<Rightarrow> (if asset_exception e then Inr (False, watch) else Inl e, t)
           | (Inr _, t) \<Rightarrow> (Inr (True, watch), t\<lparr>txType := DIGIASSET_ISSUANCE\<rparr>)))"

text \<open>A broken rule destroys what is on the outputs; other failures leave them as they are.\<close>

definition decodeTransfer :: "Chain \<Rightarrow> u8 \<Rightarrow> BitIO \<Rightarrow> (bool \<times> string list) tx_step" where
  "decodeTransfer chain opcode s t =
     (let type = (if opcode \<ge> 0x20 then DIGIASSET_BURN else DIGIASSET_TRANSFER) in
      if opcode mod 16 \<noteq> 5 then (Inr (False, []), t)
      else if \<not> assetFound t then (Inr (False, []), t)
      else case decodeAssetTransfer (ch_node chain) s (t_inputs t) type t of
          (Inl (RuleFailed _), t) \<Rightarrow>
            (Inr (False, []), t\<lparr>unintentionalBurn := True, t_outputs := map clear_assets (t_outputs t)\<rparr>)
        | (Inl (OutOfRange _), t) \<Rightarrow> (Inr (False, []), t)
        | (Inl e, t) \<Rightarrow> (if asset_exception e then Inr (False, []) else Inl e, t)
        | (Inr _, t) \<Rightarrow> (Inr (True, []), t\<lparr>txType := type\<rparr>))"

definition decodeAssetTX :: "Chain \<Rightarrow> getrawtransaction_t \<Rightarrow> (bool \<times> string list) tx_step" where
  "decodeAssetTX chain tx t =
     (case decodeAssetTxHeader tx of
        Inl e \<Rightarrow> (Inl e, t)
      | Inr (version, opcode, s) \<Rightarrow>
          let t = t\<lparr>assetTransactionVersion := version\<rparr> in
          if opcode = 0 then (Inr (False, []), t)
          else if opcode < 16 then decodeIssuance chain tx opcode s t
          else if opcode < 48 then decodeTransfer chain opcode s t
          else (Inr (False, []), t))"

subsection \<open>Loading a transaction\<close>

text \<open>The shortcut of the chain analyzer: whether full processing is needed, and the version read on the way.\<close>

definition needs_processing :: "getrawtransaction_t \<Rightarrow> u8 \<Rightarrow> (bool \<times> u8) result" where
  "needs_processing tx version =
     (let digidollar = (typeFromVersion (tx_version tx) \<noteq> TX_NONE);
          need = (digidollar \<or> list_ex (\<lambda>out. spk_type out = ''nulldata'') (tx_vout tx))
      in if need \<and> length (tx_vin tx) > 5 \<and> \<not> digidollar
         then bindE (decodeAssetTxHeader tx) (\<lambda>(v, opcode, _). Inr (opcode \<noteq> 0, v))
         else Inr (need, version))"

text \<open>The inputs up to a coinbase, which names no transaction.\<close>

definition real_inputs :: "getrawtransaction_t \<Rightarrow> vin_t list" where
  "real_inputs tx = takeWhile (\<lambda>vin. vin_txid vin \<noteq> []) (tx_vin tx)"

definition bare_input :: "vin_t \<Rightarrow> AssetUTXO" where
  "bare_input vin = \<lparr>ut_txid = vin_txid vin, ut_vout = of_nat (vin_n vin), ut_address = [], digibyte = 0, ut_assets = []\<rparr>"

definition load_inputs :: "Chain \<Rightarrow> u32 \<Rightarrow> getrawtransaction_t \<Rightarrow> AssetUTXO list result" where
  "load_inputs chain height tx =
     foldE (\<lambda>vin ins. bindE (getAssetUTXO chain (vin_txid vin) (vin_n vin) height) (\<lambda>u. Inr (ins @ [u]))) (real_inputs tx) []"

definition load_output :: "getrawtransaction_t \<Rightarrow> vout_t \<Rightarrow> AssetUTXO" where
  "load_output tx out =
     \<lparr>ut_txid = tx_txid tx, ut_vout = of_nat (out_n out),
      ut_address = (if spk_addresses out = [] then [] else spk_addresses out ! 0), digibyte = valueS out, ut_assets = []\<rparr>"

text \<open>The first data output that is not DigiDollar's.\<close>

fun data_index_from :: "u32 \<Rightarrow> nat \<Rightarrow> vout_t list \<Rightarrow> nat option" where
  "data_index_from height i [] = None"
| "data_index_from height i (out # outs) =
     (if spk_type out \<noteq> ''nulldata'' then data_index_from height (Suc i) outs
      else if unat height \<ge> DIGIDOLLAR_ACTIVATION_HEIGHT \<and> take 8 (spk_hex out) = ''6a024444''
      then data_index_from height (Suc i) outs
      else Some i)"

text \<open>The decoders in order; the first that recognises the transaction ends the search.\<close>

definition or_else :: "(bool \<times> string list) tx_step \<Rightarrow> (bool \<times> string list) tx_step \<Rightarrow> (bool \<times> string list) tx_step" where
  "or_else f g t =
     (case f t of (Inr (False, _), t) \<Rightarrow> g t | r \<Rightarrow> r)"

definition plain :: "bool tx_step \<Rightarrow> (bool \<times> string list) tx_step" where
  "plain f t = (case f t of (Inl e, t) \<Rightarrow> (Inl e, t) | (Inr b, t) \<Rightarrow> (Inr (b, []), t))"

definition decode_data :: "Chain \<Rightarrow> getrawtransaction_t \<Rightarrow> u32 \<Rightarrow> (bool \<times> string list) tx_step" where
  "decode_data chain tx height t =
     (case data_index_from height 0 (tx_vout tx) of
        None \<Rightarrow> (Inr (True, []), t)
      | Some i \<Rightarrow>
          (case or_else (plain (decodeKYC chain tx i))
                  (or_else (plain (decodeExchangeRate chain tx i))
                    (or_else (plain (decodeEncryptedKeyTx tx i)) (decodeAssetTX chain tx))) t of
             (Inr (False, watch), t) \<Rightarrow> (Inr (True, watch), storeUnknown tx i t)
           | r \<Rightarrow> r))"

definition DigiByteTransaction_load :: "Chain \<Rightarrow> string \<Rightarrow> u32 \<Rightarrow> bool \<Rightarrow> (DigiByteTransaction \<times> string list) result" where
  "DigiByteTransaction_load chain txid height dontBotherIfNotSpecial =
     bindE (getRawTransaction chain txid) (\<lambda>tx.
     bindE (if height = 0 then getBlockHeight chain (tx_blockhash tx) else Inr height) (\<lambda>height.
     let t = (DigiByteTransaction_new (ucast (tx_time tx)))\<lparr>t_height := height, t_blockHash := tx_blockhash tx, t_txid := tx_txid tx\<rparr> in
     bindE (if dontBotherIfNotSpecial then needs_processing tx (assetTransactionVersion t)
            else Inr (True, assetTransactionVersion t)) (\<lambda>(need, version).
     let t = t\<lparr>assetTransactionVersion := version\<rparr> in
     if \<not> need then Inr (t\<lparr>t_inputs := map bare_input (real_inputs tx), txType := STANDARD\<rparr>, [])
     else
       bindE (load_inputs chain height tx) (\<lambda>ins.
       let t = t\<lparr>t_inputs := ins, assetFound := list_ex (\<lambda>u. ut_assets u \<noteq> []) ins,
                 t_outputs := map (load_output tx) (tx_vout tx)\<rparr>
       in case or_else (plain (decodeDigiDollar tx)) (decode_data chain tx height) t of
            (Inl e, _) \<Rightarrow> Inl e
          | (Inr (_, watch), t) \<Rightarrow> Inr (t, watch)))))"

end
