(* ===== verification/TransactionStore.thy ===== *)
theory TransactionStore
  imports TransactionDecode
begin

text \<open>
  The transaction class of \<^verbatim>\<open>src/src/DigiByteTransaction.cpp\<close>, last part: what \<open>addToDatabase\<close> writes.
  The calls it makes are values of the type \<open>db_call\<close>, in the order of the code; the database's one
  answer (the index it gives a new asset) is an argument.
\<close>

datatype db_call =
    StartTransaction | EndTransaction
  | AddKYC string string string string u32
  | RevokeKYC string u32
  | AddExchangeRate string nat u32 double
  | NewAssetIssued                                     \<comment> \<open>the RPC cache\<close>
  | AddAsset DigiAsset
  | ProcessNewMetaData u64 string                      \<comment> \<open>the permanent storage pools\<close>
  | ProcessAssetIssuance DigiAsset                     \<comment> \<open>DigiByte domains\<close>
  | AddEncryptedKey string "u8 list"
  | CreateDigiDollarVault string u16 string u64 u64 u32 u8 u32
  | AddUnknown string "u8 list"
  | SpendUTXO string u16 u32 string
  | SpendDigiDollarUTXO string u16 u32 string
  | RedeemDigiDollarVault string u16 u32 string
  | CreateDigiDollarUTXO string u16 string u64 u32
  | CreateUTXO AssetUTXO u32 bool
  | AddVote string u64 u64 u32

definition set_indexes :: "u64 \<Rightarrow> AssetUTXO list \<Rightarrow> AssetUTXO list result" where
  "set_indexes index us =
     foldE (\<lambda>u done. bindE (foldE (\<lambda>a as. bindE (setAssetIndex index a) (\<lambda>a. Inr (as @ [a]))) (ut_assets u) []) (\<lambda>as.
       Inr (done @ [u\<lparr>ut_assets := as\<rparr>]))) us []"

definition store_issuance :: "(DigiAsset \<Rightarrow> u64 result) \<Rightarrow> DigiByteTransaction \<Rightarrow> (db_call list \<times> DigiByteTransaction) result" where
  "store_issuance addAsset t =
     (let indexAlreadySet = isAssetIndexSet (newAsset t) in
      bindE (addAsset (newAsset t)) (\<lambda>index.
      let calls = [NewAssetIssued, AddAsset (newAsset t), ProcessNewMetaData index (da_cid (newAsset t)),
                   ProcessAssetIssuance (newAsset t)]
      in if indexAlreadySet then Inr (calls, t)
         else
           bindE (set_indexes index (t_outputs t)) (\<lambda>outs.
           bindE (setAssetIndex index (newAsset t)) (\<lambda>a.
           Inr (calls, t\<lparr>t_outputs := outs, newAsset := a\<rparr>)))))"

text \<open>The switch on the type.\<close>

definition store_special :: "(DigiAsset \<Rightarrow> u64 result) \<Rightarrow> DigiByteTransaction \<Rightarrow> (db_call list \<times> DigiByteTransaction) result" where
  "store_special addAsset t =
     (if txType t = KYC_ISSUANCE then
        bindE (KYC_getCountry (kycData t)) (\<lambda>c. bindE (KYC_getName (kycData t)) (\<lambda>n. bindE (KYC_getHash (kycData t)) (\<lambda>h.
        Inr ([AddKYC (kyc_address (kycData t)) c n h (t_height t)], t))))
      else if txType t = KYC_REVOKE_TX then Inr ([RevokeKYC (kyc_address (kycData t)) (t_height t)], t)
      else if txType t = EXCHANGE_PUBLISH then
        bindE (vec_get (t_outputs t) 1) (\<lambda>out.
        Inr (map (\<lambda>(i, r). AddExchangeRate (ut_address out) i (t_height t) r)
               (filter (\<lambda>(i, r). r \<noteq> NotANumber) (enumerate 0 (t_exchangeRate t))), t))
      else if txType t = DIGIASSET_ISSUANCE then store_issuance addAsset t
      else if txType t = ENCRYPTED_KEY then
        bindE (vec_get (t_outputs t) 0) (\<lambda>out. bindE (Blob_of_hex (opReturnHex t)) (\<lambda>b.
        Inr ([AddEncryptedKey (ut_address out) b], t)))
      else if txType t = DIGIDOLLAR_MINT then
        (if ddVaultOutput t \<ge> 0 \<and> ddCollateral t > 0
         then bindE (vec_get (t_outputs t) (nat (ddVaultOutput t))) (\<lambda>vault.
              Inr ([CreateDigiDollarVault (t_txid t) (word_of_int (ddVaultOutput t)) (ut_address vault) (ddCollateral t)
                      (ddMinted t) (ddLockHeight t) (ddLockTier t) (t_height t)], t))
         else Inr ([], t))
      else if txType t = STANDARD then
        (if opReturnHex t \<noteq> [] then bindE (Blob_of_hex (opReturnHex t)) (\<lambda>b. Inr ([AddUnknown (t_txid t) b], t))
         else Inr ([], t))
      else Inr ([], t))"

definition spend_calls :: "DigiByteTransaction \<Rightarrow> db_call list" where
  "spend_calls t =
     concat (map (\<lambda>vin.
       if ut_txid vin = [] then []
       else SpendUTXO (ut_txid vin) (ut_vout vin) (t_height t) (t_txid t) #
         (if unat (t_height t) \<ge> DIGIDOLLAR_ACTIVATION_HEIGHT
          then [SpendDigiDollarUTXO (ut_txid vin) (ut_vout vin) (t_height t) (t_txid t),
                RedeemDigiDollarVault (ut_txid vin) (ut_vout vin) (t_height t) (t_txid t)]
          else [])) (t_inputs t))"

definition digidollar_calls :: "DigiByteTransaction \<Rightarrow> db_call list result" where
  "digidollar_calls t =
     foldE (\<lambda>(n, cents) calls. bindE (vec_get (t_outputs t) (unat n)) (\<lambda>vout.
       Inr (calls @ [CreateDigiDollarUTXO (t_txid t) n (ut_address vout) cents (t_height t)]))) (ddOutputs t) []"

definition vote_calls :: "DigiByteTransaction \<Rightarrow> db_call list result" where
  "vote_calls t =
     foldE (\<lambda>vout. foldE (\<lambda>asset calls.
         if \<not> getIfValidVoteAddress (ut_address vout) (da_rules asset) then Inr calls
         else bindE (getAssetIndex False asset) (\<lambda>i.
              Inr (calls @ [AddVote (ut_address vout) i (getCount asset) (t_height t)]))) (ut_assets vout))
       (t_outputs t) []"

definition addToDatabase :: "(DigiAsset \<Rightarrow> u64 result) \<Rightarrow> DigiByteTransaction \<Rightarrow> (db_call list \<times> DigiByteTransaction) result" where
  "addToDatabase addAsset t =
     bindE (store_special addAsset t) (\<lambda>(special, t).
     bindE (digidollar_calls t) (\<lambda>dollars.
     bindE (vote_calls t) (\<lambda>votes.
     Inr ([StartTransaction] @ special @ spend_calls t @ dollars @
          map (\<lambda>vout. CreateUTXO vout (t_height t) (txType t = DIGIASSET_ISSUANCE)) (t_outputs t) @ votes @
          [EndTransaction], t))))"

definition lookupAssetIndexes :: "Node \<Rightarrow> DigiByteTransaction \<Rightarrow> DigiByteTransaction result" where
  "lookupAssetIndexes node t =
     (if \<not> isIssuance t then Inr t
      else if isAssetIndexSet (newAsset t) then Inr t
      else case filter (\<lambda>u. ut_assets u \<noteq> []) (t_outputs t) of
          [] \<Rightarrow> Inl UndefinedBehaviour
        | u # _ \<Rightarrow>
            bindE (lookupAssetIndex node (t_txid t) (unat (ut_vout u)) (newAsset t)) (\<lambda>a.
            bindE (getAssetIndex False a) (\<lambda>i.
            bindE (set_indexes i (t_outputs t)) (\<lambda>outs.
            Inr (t\<lparr>newAsset := a, t_outputs := outs\<rparr>)))))"

end
