(* ===== verification/TransactionBuild.thy ===== *)
theory TransactionBuild
  imports TransferLaws StreamCalculus
begin

text \<open>
  The transaction class of \<^verbatim>\<open>src/src/DigiByteTransaction.cpp\<close>, second part: building a new
  transaction, and the encoding of its payload. A builder returns the new object, or the exception it
  leaves with; the object of a call that throws is the one before the call.
\<close>

unbundle bit_operations_syntax

subsection \<open>Adding to a transaction\<close>

definition isWritable :: "DigiByteTransaction \<Rightarrow> bool" where
  "isWritable t \<longleftrightarrow> t_txid t = []"

definition checkWritable :: "DigiByteTransaction \<Rightarrow> unit result" where
  "checkWritable t =
     guardE (isWritable t) (TransactionException ''Transaction is already on chain and can not be modified'')"

definition addInput :: "AssetUTXO \<Rightarrow> DigiByteTransaction \<Rightarrow> DigiByteTransaction result" where
  "addInput utxo t =
     bindE (checkWritable t) (\<lambda>_.
     if txType t = DIGIASSET_ISSUANCE \<and> ut_assets utxo \<noteq> []
     then Inl (TransactionException ''Asset bearing inputs can not be used in an issuance(they would be burned)'')
     else
       let t = t\<lparr>t_inputs := t_inputs t @ [utxo]\<rparr> in
       Inr (if ut_assets utxo \<noteq> []
            then t\<lparr>assetFound := True, txType := (if txType t = STANDARD then DIGIASSET_TRANSFER else txType t)\<rparr>
            else t))"

definition setIssuance :: "DigiAsset \<Rightarrow> DigiByteTransaction \<Rightarrow> DigiByteTransaction result" where
  "setIssuance asset t =
     bindE (checkWritable t) (\<lambda>_.
     if assetFound t
     then Inl (TransactionException ''Asset bearing inputs can not be used in an issuance(they would be burned)'')
     else Inr (t\<lparr>newAsset := asset, txType := DIGIASSET_ISSUANCE\<rparr>))"

definition addAssetBurn :: "DigiAsset list \<Rightarrow> DigiByteTransaction \<Rightarrow> DigiByteTransaction result" where
  "addAssetBurn assets t =
     bindE (checkWritable t) (\<lambda>_.
     if \<not> assetFound t then Inl (TransactionException ''Add the asset bearing inputs before declaring burns'')
     else if txType t = DIGIASSET_ISSUANCE then Inl (TransactionException ''Issuances can not burn assets'')
     else
       bindE (foldE (\<lambda>asset t.
                if getCount asset = 0 then Inl (TransactionException ''Can not burn 0 of an asset'')
                else Inr (t\<lparr>t_burns := t_burns t @ [asset]\<rparr>)) assets t) (\<lambda>t.
       Inr (t\<lparr>txType := DIGIASSET_BURN\<rparr>)))"

definition addDigiByteOutput :: "string \<Rightarrow> u64 \<Rightarrow> DigiByteTransaction \<Rightarrow> DigiByteTransaction result" where
  "addDigiByteOutput address amount t =
     bindE (checkWritable t) (\<lambda>_.
     if address = [] then Inl (TransactionException ''Output address can not be blank'')
     else Inr (t\<lparr>t_outputs := t_outputs t @
            [\<lparr>ut_txid = [], ut_vout = of_nat (length (t_outputs t)), ut_address = address, digibyte = amount,
              ut_assets = []\<rparr>]\<rparr>))"

definition addRuleOutputs :: "DigiByteTransaction \<Rightarrow> DigiByteTransaction result" where
  "addRuleOutputs t =
     bindE (checkWritable t) (\<lambda>_.
     if txType t \<noteq> DIGIASSET_ISSUANCE then Inl (TransactionException ''Rule outputs only apply to issuances'')
     else if ruleOutputsAdded t then Inl (TransactionException ''Rule outputs already added'')
     else
       bindE (getRequiredOutputs (da_rules (newAsset t))) (\<lambda>required.
       foldE (\<lambda>r. addDigiByteOutput (ro_address r) (ro_sats r)) required
         (t\<lparr>ruleOutputsStart := length (t_outputs t), ruleOutputsAdded := True\<rparr>)))"

definition addDigiAssetOutput :: "string \<Rightarrow> DigiAsset list \<Rightarrow> DigiByteTransaction \<Rightarrow> DigiByteTransaction result" where
  "addDigiAssetOutput address assets t =
     bindE (checkWritable t) (\<lambda>_.
     if address = [] then Inl (TransactionException ''Output address can not be blank'')
     else if assets = [] then Inl (TransactionException ''Asset output must contain at least 1 asset'')
     else if length (t_outputs t) > 31
     then Inl (TransactionException ''Asset outputs must be within the first 32 outputs'')
     else if list_ex (\<lambda>a. getCount a = 0) assets
     then Inl (TransactionException ''Asset output can not contain 0 of an asset'')
     else Inr (t\<lparr>t_outputs := t_outputs t @
            [\<lparr>ut_txid = [], ut_vout = of_nat (length (t_outputs t)), ut_address = address, digibyte = DIGIBYTE_DUST,
              ut_assets = assets\<rparr>]\<rparr>))"

subsection \<open>The transfer instructions\<close>

text \<open>One instruction: no skip, no range, no percentage, a 5-bit output and the amount.\<close>

definition appendInstruction :: "nat \<Rightarrow> u64 \<Rightarrow> BitIO \<Rightarrow> BitIO result" where
  "appendInstruction out amount s =
     bindE (appendBits 0 3 s) (\<lambda>s. bindE (appendBits (of_nat out) 5 s) (appendFixedPrecision amount))"

text \<open>The wishes of one output, counted down while the chunk of assets lasts.\<close>

fun route_wants :: "nat \<Rightarrow> nat \<Rightarrow> DigiAsset \<Rightarrow> DigiAsset list \<Rightarrow> u64 \<Rightarrow> BitIO \<Rightarrow> (DigiAsset list \<times> u64 \<times> BitIO) result" where
  "route_wants type out piece [] remaining s = Inr ([], remaining, s)"
| "route_wants type out piece (want # wants) remaining s =
     (if getCount want = 0 \<or> assetIndex want \<noteq> assetIndex piece
      then bindE (route_wants type out piece wants remaining s) (\<lambda>(wants, r, s). Inr (want # wants, r, s))
      else
        let amount = min remaining (getCount want) in
        if out > 31 then Inl (TransactionException ''Asset outputs must be within the first 32 outputs'')
        else if out = 31 \<and> type = DIGIASSET_BURN
        then Inl (TransactionException ''Output 31 is reserved for the burn marker in burn transactions'')
        else
          bindE (appendInstruction out amount s) (\<lambda>s.
          let want = setCount (getCount want - amount) want;
              remaining = remaining - amount
          in if remaining = 0 then Inr (want # wants, remaining, s)
             else bindE (route_wants type out piece wants remaining s) (\<lambda>(wants, r, s). Inr (want # wants, r, s))))"

fun route_outputs ::
  "nat \<Rightarrow> nat \<Rightarrow> DigiAsset \<Rightarrow> DigiAsset list list \<Rightarrow> u64 \<Rightarrow> BitIO \<Rightarrow> (DigiAsset list list \<times> u64 \<times> BitIO) result" where
  "route_outputs type out piece [] remaining s = Inr ([], remaining, s)"
| "route_outputs type out piece (wants # desired) remaining s =
     (if remaining = 0 then Inr (wants # desired, remaining, s)
      else
        bindE (route_wants type out piece wants remaining s) (\<lambda>(wants, remaining, s).
        bindE (route_outputs type (Suc out) piece desired remaining s) (\<lambda>(desired, remaining, s).
        Inr (wants # desired, remaining, s))))"

fun route_burns :: "DigiAsset \<Rightarrow> DigiAsset list \<Rightarrow> u64 \<Rightarrow> BitIO \<Rightarrow> (DigiAsset list \<times> u64 \<times> BitIO) result" where
  "route_burns piece [] remaining s = Inr ([], remaining, s)"
| "route_burns piece (burn # burns) remaining s =
     (if remaining = 0 then Inr (burn # burns, remaining, s)
      else if getCount burn = 0 \<or> assetIndex burn \<noteq> assetIndex piece
      then bindE (route_burns piece burns remaining s) (\<lambda>(burns, r, s). Inr (burn # burns, r, s))
      else
        let amount = min remaining (getCount burn) in
        bindE (appendInstruction 31 amount s) (\<lambda>s.
        bindE (route_burns piece burns (remaining - amount) s) (\<lambda>(burns, r, s).
        Inr (setCount (getCount burn - amount) burn # burns, r, s))))"

type_synonym build_state = "DigiAsset list list \<times> DigiAsset list \<times> BitIO"

definition route_chunk :: "nat \<Rightarrow> DigiAsset \<Rightarrow> build_state \<Rightarrow> build_state result" where
  "route_chunk type piece = (\<lambda>(desired, burns, s).
     bindE (route_outputs type 0 piece desired (getCount piece) s) (\<lambda>(desired, remaining, s).
     bindE (route_burns piece burns remaining s) (\<lambda>(burns, remaining, s).
     if remaining > 0
     then Inl (TransactionException ''Input assets not fully assigned to outputs.  Add an asset change output'')
     else Inr (desired, burns, s))))"

definition transfer_inputs :: "DigiByteTransaction \<Rightarrow> DigiAsset list list" where
  "transfer_inputs t = (if txType t = DIGIASSET_ISSUANCE then [[newAsset t]] else asset_inputs (t_inputs t))"

definition buildTransferInstructions :: "DigiByteTransaction \<Rightarrow> BitIO \<Rightarrow> BitIO result" where
  "buildTransferInstructions t s =
     (if transfer_inputs t = [] then Inl (TransactionException ''No assets to build transfer instructions for'')
      else
        bindE (foldE (foldE (route_chunk (txType t))) (transfer_inputs t) (map ut_assets (t_outputs t), t_burns t, s))
          (\<lambda>(desired, burns, s).
        if list_ex (list_ex (\<lambda>want. getCount want > 0)) desired
        then Inl (TransactionException ''Output requests more assets than inputs provide'')
        else if list_ex (\<lambda>burn. getCount burn > 0) burns
        then Inl (TransactionException ''Burn requests more assets than inputs provide'')
        else Inr s))"

subsection \<open>The payload\<close>

definition issuance_opcode :: "DigiByteTransaction \<Rightarrow> u64 result" where
  "issuance_opcode t =
     (let rules = da_rules (newAsset t); hasMetaData = (da_cid (newAsset t) \<noteq> []) in
      if rules_empty rules then Inr (if hasMetaData then 0x01 else 0x05)
      else if \<not> hasMetaData
      then Inl (TransactionException ''Assets with rules require metadata(rule op codes 3 and 4 always carry a metadata hash)'')
      else if \<not> ruleOutputsAdded t
      then Inl (TransactionException ''Call addRuleOutputs() before encoding an issuance with rules'')
      else Inr (if isRewritable rules then 0x03 else 0x04))"

definition encode_issuance :: "DigiByteTransaction \<Rightarrow> BitIO \<Rightarrow> BitIO result" where
  "encode_issuance t s =
     bindE (issuance_opcode t) (\<lambda>opcode.
     bindE (appendBits opcode 8 s) (\<lambda>s.
     bindE (if da_cid (newAsset t) \<noteq> []
            then bindE (cidToSha256 (da_cid (newAsset t))) (\<lambda>h.
                 bindE (makeHexString h) (\<lambda>h. appendBits_stream h s))
            else Inr s) (\<lambda>s.
     bindE (appendFixedPrecision (getCount (newAsset t)) s) (\<lambda>s.
     bindE (if rules_empty (da_rules (newAsset t)) then Inr s
            else encode (da_rules (newAsset t)) (of_nat (ruleOutputsStart t)) s) (\<lambda>s.
     bindE (buildTransferInstructions t s) (\<lambda>s.
     appendBits (ucast (getIssuanceFlags (newAsset t))) 8 s))))))"

definition encode_transfer :: "DigiByteTransaction \<Rightarrow> BitIO \<Rightarrow> BitIO result" where
  "encode_transfer t s =
     bindE (appendBits (if txType t = DIGIASSET_BURN then 0x25 else 0x15) 8 s) (buildTransferInstructions t)"

definition encodeAssetOpReturn :: "DigiByteTransaction \<Rightarrow> string result" where
  "encodeAssetOpReturn t =
     bindE (appendBits 0x4441 16 BitIO_empty) (\<lambda>s.
     bindE (appendBits 3 8 s) (\<lambda>s.
     bindE (if txType t = DIGIASSET_ISSUANCE then encode_issuance t s
            else if txType t = DIGIASSET_TRANSFER \<or> txType t = DIGIASSET_BURN then encode_transfer t s
            else Inl (TransactionException ''Transaction is not an asset transaction'')) (\<lambda>s.
     bindE (getHexString (getLength s div 4) (movePositionToBeginning s)) (\<lambda>(hex, _). Inr hex))))"

end
