(* ===== verification/TransferPlan.thy ===== *)
theory TransferPlan
  imports TransactionBuild
begin

text \<open>
  Building and replaying a transfer. Between the builder and the transfer engine stands the plan: the
  list of instructions (an output and an amount). The builder writes a plan as bits
  (\<open>buildTransferInstructions_plan\<close>), the engine carries a plan out (\<open>transfer_loop_follow\<close>), and
  \<open>follow\<close> says what a plan does to a list of asset chunks: which assets it gives to which output, and
  what is left.
\<close>

unbundle bit_operations_syntax

subsection \<open>Plans\<close>

type_synonym plan = "(nat \<times> u64) list"
type_synonym gifts = "(nat \<times> DigiAsset) list"

fun follow :: "plan \<Rightarrow> DigiAsset list \<Rightarrow> (gifts \<times> DigiAsset list) option" where
  "follow [] cs = Some ([], cs)"
| "follow (p # ps) [] = None"
| "follow ((out, n) # ps) (c # cs) =
     (if n = 0 \<or> da_count c < n then None
      else map_option (\<lambda>(gs, r). ((out, c\<lparr>da_count := n\<rparr>) # gs, r))
             (follow ps (if n = da_count c then cs else c\<lparr>da_count := da_count c - n\<rparr> # cs)))"

lemma follow_append: "follow ps cs = Some (gs, ds) \<Longrightarrow> follow (ps @ qs) cs = map_option (\<lambda>(hs, r). (gs @ hs, r)) (follow qs ds)"
proof (induction ps cs arbitrary: gs rule: follow.induct)
  case (3 out n ps c cs)
  have g: "\<not> (n = 0 \<or> da_count c < n)" using "3.prems" by (auto split: if_split_asm)
  define next_cs where "next_cs = (if n = da_count c then cs else c\<lparr>da_count := da_count c - n\<rparr> # cs)"
  obtain hs where h: "follow ps next_cs = Some (hs, ds)" "gs = (out, c\<lparr>da_count := n\<rparr>) # hs"
    using "3.prems" g by (auto simp: next_cs_def[symmetric] simp del: if_split_asm)
  have "follow (ps @ qs) next_cs = map_option (\<lambda>(hs', r). (hs @ hs', r)) (follow qs ds)"
    using "3.IH"[OF g] h(1) by (simp add: next_cs_def)
  then show ?case using g h(2) by (cases "follow qs ds") (auto simp: next_cs_def[symmetric] simp del: if_split_asm)
qed (auto simp: case_prod_unfold option.map_ident)

text \<open>What one output is given of one asset; gifts to the burn marker go nowhere.\<close>

definition gift_sum :: "nat \<Rightarrow> nat \<Rightarrow> u64 \<Rightarrow> gifts \<Rightarrow> u64" where
  "gift_sum type k i gs =
     (\<Sum>(out, a)\<leftarrow>gs. if out = k \<and> \<not> (type = DIGIASSET_BURN \<and> out = 31) then asset_sum i [a] else 0)"

lemma gift_sum_simps [simp]:
  "gift_sum type k i [] = 0"
  "gift_sum type k i ((out, a) # gs) =
     (if out = k \<and> \<not> (type = DIGIASSET_BURN \<and> out = 31) then asset_sum i [a] else 0) + gift_sum type k i gs"
  "gift_sum type k i (gs @ hs) = gift_sum type k i gs + gift_sum type k i hs"
  by (simp_all add: gift_sum_def)

lemma gift_sum_other: "\<forall>g\<in>set gs. fst g \<noteq> k \<Longrightarrow> gift_sum type k i gs = 0"
  by (induction gs) auto

lemma gift_sum_all:
  "\<forall>g\<in>set gs. fst g = k \<Longrightarrow> \<not> (type = DIGIASSET_BURN \<and> k = 31) \<Longrightarrow> gift_sum type k i gs = asset_sum i (map snd gs)"
  by (induction gs) auto

lemma gift_sum_burnt: "\<forall>g\<in>set gs. fst g = 31 \<Longrightarrow> type = DIGIASSET_BURN \<Longrightarrow> gift_sum type k i gs = 0"
  by (induction gs) auto

subsection \<open>Instructions as bits\<close>

definition instr_bits :: "nat \<times> u64 \<Rightarrow> bool list" where
  "instr_bits = (\<lambda>(out, n). val_bits 3 0 @ val_bits 5 (of_nat out) @ fp_bits n)"

abbreviation plan_bits :: "plan \<Rightarrow> bool list" where
  "plan_bits ps \<equiv> concat (map instr_bits ps)"

lemma makeFixedPrecision_valid: "makeFixedPrecision v = Inr b \<Longrightarrow> fp_valid v"
  using makeFixedPrecision_hole
  by (auto simp: fp_valid_def makeFixedPrecision_def checkValueRange_def split: if_split_asm elim!: bindE_E)

lemma field_ok_5: "out < 32 \<Longrightarrow> field_ok 5 (of_nat out)"
  by (simp add: field_ok_def fits_def unat_of_nat word_less_nat_alt)

lemma appendInstruction_bits:
  assumes "appendInstruction out n s = Inr s'" "bitio_inv s" "out < 32"
  shows "appended s (instr_bits (out, n)) s' \<and> fp_valid n"
proof -
  have v: "fp_valid n"
    using assms(1) makeFixedPrecision_valid by (auto simp: appendInstruction_def appendFixedPrecision_def elim!: bindE_E)
  have f3: "field_ok 3 (0 :: u64)" by (simp add: field_ok_def fits_def)
  have "writes (appendInstruction out n) (instr_bits (out, n))"
    unfolding appendInstruction_def[abs_def] instr_bits_def prod.case
    by (intro writes_bind writes_bits writes_fp field_ok_5 f3 assms(3) v)
  then show ?thesis using writesD[OF _ assms(2)] assms(1) v by fastforce
qed

lemma read_instr_bits:
  assumes "ahead s (instr_bits (out, n))" "out < 32" "fp_valid n"
  shows "read_instruction s = Inr (\<lparr>i_skip = False, i_range = False, i_percent = False, i_output = out,
    i_percentByte = 0, i_fixedAmount = n\<rparr>, skip_bits (length (instr_bits (out, n))) s)"
proof -
  have e: "instr_bits (out, n) = val_bits 1 0 @ val_bits 1 0 @ val_bits 1 0 @ val_bits 5 (of_nat out) @ fp_bits n"
    by (simp add: instr_bits_def val_bits_0 numeral_eq_Suc)
  have f1: "field_ok 1 (0 :: u64)" by (simp add: field_ok_def fits_def)
  have o: "unat (of_nat out :: u64) = out" using assms(2) by (simp add: unat_of_nat)
  note a = assms(1)[unfolded e ahead_append_iff length_val_bits skip_bits_simps]
  show ?thesis
    using a o ahead_get[OF _ f1] ahead_get[OF _ field_ok_5[OF assms(2)]] readsD[OF reads_fp[OF assms(3)]]
    by (simp add: read_instruction_def e)
qed


subsection \<open>The builder writes a plan\<close>

definition rest_chunks :: "DigiAsset \<Rightarrow> u64 \<Rightarrow> DigiAsset list \<Rightarrow> DigiAsset list" where
  "rest_chunks c r cs = (if r = 0 then cs else c\<lparr>da_count := r\<rparr> # cs)"

definition plan_ok :: "nat \<Rightarrow> nat \<Rightarrow> plan \<Rightarrow> bool" where
  "plan_ok type outs ps \<longleftrightarrow>
     (\<forall>(out, n)\<in>set ps. out < 32 \<and> fp_valid n \<and> (out < outs \<or> out = 31 \<and> type = DIGIASSET_BURN))"

text \<open>
  \<open>writes_plan\<close>: the builder went from stream \<open>s\<close> to \<open>s'\<close> and from chunks \<open>cs\<close> to \<open>ds\<close> by a plan that
  makes the gifts \<open>gs\<close>.
\<close>

definition writes_plan :: "nat \<Rightarrow> nat \<Rightarrow> BitIO \<Rightarrow> DigiAsset list \<Rightarrow> gifts \<Rightarrow> BitIO \<Rightarrow> DigiAsset list \<Rightarrow> bool" where
  "writes_plan type outs s cs gs s' ds \<longleftrightarrow>
     (\<exists>ps. appended s (plan_bits ps) s' \<and> follow ps cs = Some (gs, ds) \<and> plan_ok type outs ps)"

lemma writes_plan_refl: "bitio_inv s \<Longrightarrow> writes_plan type outs s cs [] s cs"
  unfolding writes_plan_def by (rule exI[of _ "[]"]) (simp add: appended_def plan_ok_def)

lemma writes_plan_trans:
  assumes "writes_plan type outs s cs gs s1 ds" "writes_plan type outs s1 ds hs s2 es"
  shows "writes_plan type outs s cs (gs @ hs) s2 es"
proof -
  obtain ps qs where "appended s (plan_bits ps) s1" "follow ps cs = Some (gs, ds)" "plan_ok type outs ps"
    "appended s1 (plan_bits qs) s2" "follow qs ds = Some (hs, es)" "plan_ok type outs qs"
    using assms by (auto simp: writes_plan_def)
  then show ?thesis unfolding writes_plan_def
    by (intro exI[of _ "ps @ qs"]) (auto simp: appended_def follow_append plan_ok_def)
qed

lemma writes_plan_one:
  assumes "appendInstruction out n s = Inr s'" "bitio_inv s" "out < 32"
    and "out < outs \<or> out = 31 \<and> type = DIGIASSET_BURN" "0 < n" "n \<le> r"
  shows "writes_plan type outs s (rest_chunks c r cs) [(out, c\<lparr>da_count := n\<rparr>)] s' (rest_chunks c (r - n) cs)"
proof -
  have "r \<noteq> 0" using assms(5,6) by auto
  moreover have "(r - n = 0) = (n = r)" by auto
  ultimately show ?thesis
    using appendInstruction_bits[OF assms(1-3)] assms(3-6) unfolding writes_plan_def
    by (intro exI[of _ "[(out, n)]"]) (auto simp: plan_ok_def rest_chunks_def word_neq_0_conv)
qed

lemma writes_plan_inv: "writes_plan type outs s cs gs s' ds \<Longrightarrow> bitio_inv s'"
  by (auto simp: writes_plan_def appended_def)

lemma route_wants_plan:
  "route_wants type out c ws r s = Inr (ws', r', s') \<Longrightarrow> bitio_inv s \<Longrightarrow> r \<noteq> 0 \<Longrightarrow> out < outs \<Longrightarrow>
    \<exists>gs. writes_plan type outs s (rest_chunks c r cs) gs s' (rest_chunks c r' cs) \<and> (\<forall>g\<in>set gs. fst g = out) \<and>
      (gs \<noteq> [] \<longrightarrow> \<not> (type = DIGIASSET_BURN \<and> out = 31) \<and> ws \<noteq> []) \<and>
      (\<forall>i. asset_sum i ws = asset_sum i ws' + asset_sum i (map snd gs))"
proof (induction ws arbitrary: r s ws')
  case Nil
  then show ?case using writes_plan_refl by (intro exI[of _ "[]"]) auto
next
  case (Cons want wants)
  show ?case
  proof (cases "getCount want = 0 \<or> assetIndex want \<noteq> assetIndex c")
    case True
    then obtain vs where v: "route_wants type out c wants r s = Inr (vs, r', s')" "ws' = want # vs"
      using Cons.prems(1) by (auto elim!: bindE_E)
    obtain gs where "writes_plan type outs s (rest_chunks c r cs) gs s' (rest_chunks c r' cs)" "\<forall>g\<in>set gs. fst g = out"
      "gs \<noteq> [] \<longrightarrow> \<not> (type = DIGIASSET_BURN \<and> out = 31) \<and> wants \<noteq> []"
      "\<forall>i. asset_sum i wants = asset_sum i vs + asset_sum i (map snd gs)"
      using Cons.IH[OF v(1) Cons.prems(2-4)] by blast
    then show ?thesis using v(2) by (intro exI[of _ gs]) (simp add: add.assoc)
  next
    case False
    define n where "n = min r (getCount want)"
    have n: "0 < n" "n \<le> r" using False Cons.prems(3) by (auto simp: n_def min_def word_neq_0_conv)
    have o: "out < 32" "\<not> (type = DIGIASSET_BURN \<and> out = 31)"
      using Cons.prems(1) False by (auto simp: Let_def split: if_split_asm)
    let ?want = "setCount (getCount want - n) want"
    have run: "bindE (appendInstruction out n s) (\<lambda>s. if r - n = 0 then Inr (?want # wants, r - n, s)
        else bindE (route_wants type out c wants (r - n) s) (\<lambda>(wants, r, s). Inr (?want # wants, r, s))) = Inr (ws', r', s')"
    proof -
      have "(out = 31 \<and> type = DIGIASSET_BURN) = False" using o(2) by blast
      then show ?thesis using Cons.prems(1) False o(1) by (simp only: route_wants.simps Let_def n_def[symmetric] if_False) simp
    qed
    then obtain s1 where s1: "appendInstruction out n s = Inr s1" by (auto elim: bindE_E)
    have one: "writes_plan type outs s (rest_chunks c r cs) [(out, c\<lparr>da_count := n\<rparr>)] s1 (rest_chunks c (r - n) cs)"
      using writes_plan_one[OF s1 Cons.prems(2) o(1) _ n] Cons.prems(4) by blast
    have sm: "asset_sum i [want] = asset_sum i [?want] + asset_sum i [c\<lparr>da_count := n\<rparr>]" for i
      using False by (simp add: setCount_def getCount_def)
    show ?thesis
    proof (cases "r - n = 0")
      case True
      then have "ws' = ?want # wants" "r' = r - n" "s' = s1"
        using run s1 by auto
      then show ?thesis using one o sm
        by (intro exI[of _ "[(out, c\<lparr>da_count := n\<rparr>)]"]) (auto simp: algebra_simps)
    next
      case nz: False
      then obtain vs where v: "route_wants type out c wants (r - n) s1 = Inr (vs, r', s')" "ws' = ?want # vs"
        using run s1 by (auto elim!: bindE_E)
      obtain gs where g: "writes_plan type outs s1 (rest_chunks c (r - n) cs) gs s' (rest_chunks c r' cs)"
        "\<forall>g\<in>set gs. fst g = out" "\<forall>i. asset_sum i wants = asset_sum i vs + asset_sum i (map snd gs)"
        using Cons.IH[OF v(1) writes_plan_inv[OF one] nz Cons.prems(4)] by blast
      show ?thesis
        using writes_plan_trans[OF one g(1)] g(2,3) o v(2) sm
        by (intro exI[of _ "(out, c\<lparr>da_count := n\<rparr>) # gs"]) (simp add: algebra_simps)
    qed
  qed
qed

lemma route_outputs_plan:
  "route_outputs type out c des r s = Inr (des', r', s') \<Longrightarrow> bitio_inv s \<Longrightarrow> out + length des \<le> outs \<Longrightarrow>
    \<exists>gs. writes_plan type outs s (rest_chunks c r cs) gs s' (rest_chunks c r' cs) \<and> length des' = length des \<and>
      (\<forall>g\<in>set gs. out \<le> fst g \<and> fst g < out + length des \<and> des ! (fst g - out) \<noteq> []) \<and>
      (\<forall>i k. k < length des \<longrightarrow> asset_sum i (des ! k) = asset_sum i (des' ! k) + gift_sum type (out + k) i gs) \<and>
      (\<forall>k<length des. des ! k = [] \<longrightarrow> des' ! k = [])"
proof (induction des arbitrary: out r s des')
  case Nil
  then show ?case using writes_plan_refl by (intro exI[of _ "[]"]) auto
next
  case (Cons ws des)
  show ?case
  proof (cases "r = 0")
    case True
    then show ?thesis using Cons.prems writes_plan_refl by (intro exI[of _ "[]"]) auto
  next
    case False
    then obtain ws1 r1 s1 des1 where w: "route_wants type out c ws r s = Inr (ws1, r1, s1)"
      and d: "route_outputs type (Suc out) c des r1 s1 = Inr (des1, r', s')" "des' = ws1 # des1"
      using Cons.prems(1) by (auto elim!: bindE_E)
    obtain gs where g: "writes_plan type outs s (rest_chunks c r cs) gs s1 (rest_chunks c r1 cs)" "\<forall>g\<in>set gs. fst g = out"
      "gs \<noteq> [] \<longrightarrow> \<not> (type = DIGIASSET_BURN \<and> out = 31) \<and> ws \<noteq> []"
      "\<forall>i. asset_sum i ws = asset_sum i ws1 + asset_sum i (map snd gs)"
      using route_wants_plan[OF w Cons.prems(2) False, of outs cs] Cons.prems(3) by auto
    have le: "Suc out + length des \<le> outs" using Cons.prems(3) by simp
    obtain hs where h: "writes_plan type outs s1 (rest_chunks c r1 cs) hs s' (rest_chunks c r' cs)" "length des1 = length des"
      "\<forall>h\<in>set hs. Suc out \<le> fst h \<and> fst h < Suc out + length des \<and> des ! (fst h - Suc out) \<noteq> []"
      "\<forall>i k. k < length des \<longrightarrow> asset_sum i (des ! k) = asset_sum i (des1 ! k) + gift_sum type (Suc out + k) i hs"
      "\<forall>k<length des. des ! k = [] \<longrightarrow> des1 ! k = []"
      using Cons.IH[OF d(1) writes_plan_inv[OF g(1)] le] by blast
    have gs0: "gift_sum type (Suc out + k) i gs = 0" for i k using g(2) by (intro gift_sum_other) auto
    have hs0: "gift_sum type out i hs = 0" for i using h(3) by (intro gift_sum_other) fastforce
    have gs1: "gift_sum type out i gs = asset_sum i (map snd gs)" for i
      using gift_sum_all[OF g(2), of type i] g(3) by (cases "gs = []") auto
    have wn: "ws = [] \<longrightarrow> ws1 = []" using w by auto
    have nth: "(ws # des) ! (fst h - out) \<noteq> []" if "h \<in> set hs" for h
      using h(3) that by (auto simp: nth_Cons' Suc_diff_le)
    show ?thesis
    proof (intro exI[of _ "gs @ hs"] conjI allI impI)
      show "writes_plan type outs s (rest_chunks c r cs) (gs @ hs) s' (rest_chunks c r' cs)"
        by (rule writes_plan_trans[OF g(1) h(1)])
      show "length des' = length (ws # des)" using d(2) h(2) by simp
      show "\<forall>x\<in>set (gs @ hs). out \<le> fst x \<and> fst x < out + length (ws # des) \<and> (ws # des) ! (fst x - out) \<noteq> []"
        using g(2,3) h(3) nth by (auto dest: Suc_leD)
      fix i k assume k: "k < length (ws # des)"
      show "asset_sum i ((ws # des) ! k) = asset_sum i (des' ! k) + gift_sum type (out + k) i (gs @ hs)"
        using k d(2) g(4) h(4) gs0[of "k - 1" i] hs0[of i] gs1[of i] by (cases k) auto
    next
      fix k assume "k < length (ws # des)" "(ws # des) ! k = []"
      then show "des' ! k = []" using d(2) h(5) wn by (cases k) auto
    qed
  qed
qed

lemma route_burns_plan:
  "route_burns c bs r s = Inr (bs', r', s') \<Longrightarrow> bitio_inv s \<Longrightarrow> bs = [] \<or> type = DIGIASSET_BURN \<Longrightarrow>
    \<exists>gs. writes_plan type outs s (rest_chunks c r cs) gs s' (rest_chunks c r' cs) \<and> (\<forall>g\<in>set gs. fst g = 31) \<and>
      (gs \<noteq> [] \<longrightarrow> type = DIGIASSET_BURN) \<and> (bs = [] \<longrightarrow> bs' = [])"
proof (induction bs arbitrary: r s bs')
  case Nil
  then show ?case using writes_plan_refl by (intro exI[of _ "[]"]) auto
next
  case (Cons b bs)
  then have ty: "type = DIGIASSET_BURN" by simp
  show ?case
  proof (cases "r = 0")
    case True
    then show ?thesis using Cons.prems writes_plan_refl by (intro exI[of _ "[]"]) auto
  next
    case r: False
    show ?thesis
    proof (cases "getCount b = 0 \<or> assetIndex b \<noteq> assetIndex c")
      case True
      then obtain vs where "route_burns c bs r s = Inr (vs, r', s')" using Cons.prems(1) r by (auto elim!: bindE_E)
      then show ?thesis using Cons.IH[of r s vs] Cons.prems(2) ty by blast
    next
      case False
      define n where "n = min r (getCount b)"
      have n: "0 < n" "n \<le> r" using False r by (auto simp: n_def min_def word_neq_0_conv)
      obtain s1 vs where s1: "appendInstruction 31 n s = Inr s1" and v: "route_burns c bs (r - n) s1 = Inr (vs, r', s')"
        using Cons.prems(1) r False by (auto simp: Let_def n_def[symmetric] elim!: bindE_E)
      have one: "writes_plan type outs s (rest_chunks c r cs) [(31, c\<lparr>da_count := n\<rparr>)] s1 (rest_chunks c (r - n) cs)"
        using writes_plan_one[OF s1 Cons.prems(2) _ _ n] ty by simp
      obtain gs where g: "writes_plan type outs s1 (rest_chunks c (r - n) cs) gs s' (rest_chunks c r' cs)"
        "\<forall>g\<in>set gs. fst g = 31"
        using Cons.IH[OF v writes_plan_inv[OF one]] ty by blast
      then show ?thesis using writes_plan_trans[OF one g(1)] ty
        by (intro exI[of _ "(31, c\<lparr>da_count := n\<rparr>) # gs"]) simp
    qed
  qed
qed


text \<open>What a plan's gifts take off the wishes: nothing is given to an output that asked for nothing.\<close>

definition fulfils :: "nat \<Rightarrow> DigiAsset list list \<Rightarrow> gifts \<Rightarrow> DigiAsset list list \<Rightarrow> bool" where
  "fulfils type des gs des' \<longleftrightarrow>
     length des' = length des \<and>
     (\<forall>i k. k < length des \<longrightarrow> asset_sum i (des ! k) = asset_sum i (des' ! k) + gift_sum type k i gs) \<and>
     (\<forall>k<length des. des ! k = [] \<longrightarrow> des' ! k = [] \<and> (\<forall>g\<in>set gs. fst g = k \<longrightarrow> type = DIGIASSET_BURN \<and> k = 31))"

lemma fulfils_refl: "fulfils type des [] des"
  by (simp add: fulfils_def)

lemma fulfils_trans: "fulfils type a gs b \<Longrightarrow> fulfils type b hs c \<Longrightarrow> fulfils type a (gs @ hs) c"
  by (auto simp: fulfils_def algebra_simps)

lemma route_chunk_plan:
  assumes "route_chunk type c (des, bs, s) = Inr (des', bs', s')" "bitio_inv s" "bs = [] \<or> type = DIGIASSET_BURN"
    "da_count c \<noteq> 0"
  shows "\<exists>gs. writes_plan type (length des) s (c # cs) gs s' cs \<and> fulfils type des gs des' \<and>
    (bs' = [] \<or> type = DIGIASSET_BURN)"
proof -
  obtain r1 s1 where o: "route_outputs type 0 c des (getCount c) s = Inr (des', r1, s1)"
    and b: "route_burns c bs r1 s1 = Inr (bs', 0, s')"
    using assms(1) by (auto simp: route_chunk_def not_less elim!: bindE_E split: if_split_asm)
  have c: "rest_chunks c (getCount c) cs = c # cs" using assms(4) by (simp add: rest_chunks_def getCount_def)
  obtain gs where g: "writes_plan type (length des) s (c # cs) gs s1 (rest_chunks c r1 cs)" "length des' = length des"
      "\<forall>g\<in>set gs. fst g < length des \<and> des ! (fst g) \<noteq> []"
      "\<forall>i k. k < length des \<longrightarrow> asset_sum i (des ! k) = asset_sum i (des' ! k) + gift_sum type k i gs"
      "\<forall>k<length des. des ! k = [] \<longrightarrow> des' ! k = []"
    using route_outputs_plan[OF o assms(2), of "length des" cs] unfolding c by auto
  obtain hs where h: "writes_plan type (length des) s1 (rest_chunks c r1 cs) hs s' (rest_chunks c 0 cs)"
      "\<forall>h\<in>set hs. fst h = 31" "hs \<noteq> [] \<longrightarrow> type = DIGIASSET_BURN" "bs = [] \<longrightarrow> bs' = []"
    using route_burns_plan[OF b writes_plan_inv[OF g(1)] assms(3)] by blast
  have hs0: "gift_sum type k i hs = 0" for k i using gift_sum_burnt[OF h(2)] h(3) by (cases "hs = []") auto
  have f: "fulfils type des (gs @ hs) des'" unfolding fulfils_def
  proof (intro conjI allI impI ballI)
    fix k g assume k: "k < length des" "des ! k = []" and x: "g \<in> set (gs @ hs)" "fst g = k"
    then have "g \<in> set hs" using g(3) by auto
    then show "type = DIGIASSET_BURN" "k = 31" using h(2,3) x(2) by auto
  qed (use g hs0 in auto)
  have "rest_chunks c 0 cs = cs" by (simp add: rest_chunks_def)
  then show ?thesis using writes_plan_trans[OF g(1) h(1)] f h(4) assms(3) by (intro exI[of _ "gs @ hs"]) auto
qed

lemma route_chunks_plan:
  "foldE (route_chunk type) cs (des, bs, s) = Inr (des', bs', s') \<Longrightarrow> bitio_inv s \<Longrightarrow> bs = [] \<or> type = DIGIASSET_BURN \<Longrightarrow>
    \<forall>c\<in>set cs. da_count c \<noteq> 0 \<Longrightarrow> \<exists>gs. writes_plan type (length des) s (cs @ ds) gs s' ds \<and> fulfils type des gs des'"
proof (induction cs arbitrary: des bs s)
  case Nil
  then show ?case using writes_plan_refl fulfils_refl by (intro exI[of _ "[]"]) auto
next
  case (Cons c cs)
  obtain des1 bs1 s1 where c: "route_chunk type c (des, bs, s) = Inr (des1, bs1, s1)"
    and r: "foldE (route_chunk type) cs (des1, bs1, s1) = Inr (des', bs', s')"
    using Cons.prems(1) by (auto elim!: bindE_E)
  obtain gs where g: "writes_plan type (length des) s (c # cs @ ds) gs s1 (cs @ ds)" "fulfils type des gs des1"
    "bs1 = [] \<or> type = DIGIASSET_BURN"
    using route_chunk_plan[OF c Cons.prems(2,3)] Cons.prems(4) by auto
  have l: "length des1 = length des" using g(2) by (simp add: fulfils_def)
  obtain hs where h: "writes_plan type (length des1) s1 (cs @ ds) hs s' ds" "fulfils type des1 hs des'"
    using Cons.IH[OF r writes_plan_inv[OF g(1)] g(3)] Cons.prems(4) by auto
  then show ?case using writes_plan_trans[OF g(1)] fulfils_trans[OF g(2)] l by (intro exI[of _ "gs @ hs"]) simp
qed

lemma foldE_concat: "foldE (foldE f) xss s = foldE f (concat xss) s"
proof (induction xss arbitrary: s)
  case (Cons xs xss)
  have "foldE (foldE f) xss = foldE f (concat xss)" using Cons.IH by (simp add: fun_eq_iff)
  then show ?case by (simp add: foldE_append)
qed simp

lemma no_counts_sum: "\<forall>a\<in>set as. getCount a = 0 \<Longrightarrow> asset_sum i as = 0"
  by (induction as) (auto simp: getCount_def)

lemma buildTransferInstructions_plan:
  assumes "buildTransferInstructions t s = Inr s'" "bitio_inv s"
    and "t_burns t = [] \<or> txType t = DIGIASSET_BURN"
    and "\<forall>c\<in>set (concat (transfer_inputs t)). da_count c \<noteq> 0"
  shows "\<exists>ps gs. appended s (plan_bits ps) s' \<and> follow ps (concat (transfer_inputs t)) = Some (gs, []) \<and>
    plan_ok (txType t) (length (t_outputs t)) ps \<and>
    (\<forall>i k. k < length (t_outputs t) \<longrightarrow> gift_sum (txType t) k i gs = asset_sum i (ut_assets (t_outputs t ! k))) \<and>
    (\<forall>k<length (t_outputs t). ut_assets (t_outputs t ! k) = [] \<longrightarrow>
       (\<forall>g\<in>set gs. fst g = k \<longrightarrow> txType t = DIGIASSET_BURN \<and> k = 31))"
proof -
  let ?des = "map ut_assets (t_outputs t)"
  obtain des' bs' where r: "foldE (route_chunk (txType t)) (concat (transfer_inputs t)) (?des, t_burns t, s) = Inr (des', bs', s')"
    and z: "\<not> list_ex (list_ex (\<lambda>want. getCount want > 0)) des'"
    using assms(1) by (auto simp: buildTransferInstructions_def foldE_concat elim!: bindE_E split: if_split_asm)
  obtain gs where g: "writes_plan (txType t) (length ?des) s (concat (transfer_inputs t) @ []) gs s' []"
      "fulfils (txType t) ?des gs des'"
    using route_chunks_plan[OF r assms(2,3,4)] by blast
  have "asset_sum i (des' ! k) = 0" if "k < length des'" for i k
    using z that by (intro no_counts_sum) (auto simp: list_ex_iff word_neq_0_conv[symmetric])
  note z0 = this
  obtain ps where ps: "appended s (plan_bits ps) s'" "follow ps (concat (transfer_inputs t)) = Some (gs, [])"
    "plan_ok (txType t) (length (t_outputs t)) ps"
    using g(1) by (auto simp: writes_plan_def)
  have "gift_sum (txType t) k i gs = asset_sum i (ut_assets (t_outputs t ! k))" if k: "k < length (t_outputs t)" for i k
    using g(2) z0[of k i] k by (simp add: fulfils_def)
  moreover have "\<forall>k<length (t_outputs t). ut_assets (t_outputs t ! k) = [] \<longrightarrow>
       (\<forall>g\<in>set gs. fst g = k \<longrightarrow> txType t = DIGIASSET_BURN \<and> k = 31)"
    using g(2) by (auto simp: fulfils_def)
  ultimately show ?thesis using ps by blast
qed

subsection \<open>The engine follows a plan\<close>

fun give_all :: "nat \<Rightarrow> gifts \<Rightarrow> AssetUTXO list \<Rightarrow> AssetUTXO list" where
  "give_all type [] outs = outs"
| "give_all type ((out, a) # gs) outs =
     give_all type gs (if type = DIGIASSET_BURN \<and> out = 31 then outs else outs[out := put_asset a (outs ! out)])"

lemma length_give_all [simp]: "length (give_all type gs outs) = length outs"
  by (induction type gs outs rule: give_all.induct) auto

lemma give_all_sum:
  "k < length outs \<Longrightarrow>
     asset_sum i (ut_assets (give_all type gs outs ! k)) = asset_sum i (ut_assets (outs ! k)) + gift_sum type k i gs"
  by (induction type gs outs rule: give_all.induct) (auto simp: nth_list_update algebra_simps)

lemma give_all_same:
  "k < length outs \<Longrightarrow> \<forall>g\<in>set gs. fst g = k \<longrightarrow> type = DIGIASSET_BURN \<and> k = 31 \<Longrightarrow> give_all type gs outs ! k = outs ! k"
  by (induction type gs outs rule: give_all.induct) (auto simp: nth_list_update)

lemma give_all_address: "map ut_address (give_all type gs outs) = map ut_address outs"
proof (induction type gs outs rule: give_all.induct)
  case (2 type out a gs outs)
  have "map ut_address (outs[out := put_asset a (outs ! out)]) = map ut_address outs"
    by (simp add: map_update) (metis length_map list_update_beyond list_update_id not_less nth_map)
  then show ?case using 2 by auto
qed simp

text \<open>The cursor of the engine stands at the first chunk that is left.\<close>

definition cursor_at :: "DigiAsset list list \<Rightarrow> nat \<Rightarrow> DigiAsset list \<Rightarrow> bool" where
  "cursor_at inputs index cs \<longleftrightarrow> (\<exists>ls. inputs = replicate index [] @ ls \<and> [] \<notin> set ls \<and> concat ls = cs)"

lemma cursor_at_concat: "cursor_at inputs index cs \<Longrightarrow> concat inputs = cs"
  by (auto simp: cursor_at_def)

lemma asset_inputs_cursor: "cursor_at (asset_inputs us) 0 (concat (asset_inputs us))"
  by (auto simp: cursor_at_def asset_inputs_def)

lemma cursor_front:
  assumes "cursor_at inputs index (c # cs)"
  obtains l ls where "inputs = replicate index [] @ (c # l) # ls" "[] \<notin> set ls" "l @ concat ls = cs"
proof -
  obtain ls where l: "inputs = replicate index [] @ ls" "[] \<notin> set ls" "concat ls = c # cs"
    using assms by (auto simp: cursor_at_def)
  then obtain x xs where "ls = x # xs" by (cases ls) auto
  moreover then obtain y where "x = c # y" using l by (cases x) auto
  ultimately show ?thesis using that[of y xs] l by auto
qed

lemma front_cursor: "cursor_at inputs index (c # cs) \<Longrightarrow> front inputs index = Inr c"
  by (erule cursor_front) (simp add: front_def nth_append)

lemma remove_follow:
  assumes "cursor_at inputs index (c # cs)" "0 < n" "n \<le> da_count c"
  shows "\<exists>inputs' index' b'. remove_assets n c (inputs, index, b) = Inr (inputs', index', b') \<and>
    cursor_at inputs' index' (if n = da_count c then cs else c\<lparr>da_count := da_count c - n\<rparr> # cs)"
proof -
  obtain l ls where i: "inputs = replicate index [] @ (c # l) # ls" "[] \<notin> set ls" "l @ concat ls = cs"
    using cursor_front[OF assms(1)] by metis
  have up: "inputs[index := x] = replicate index [] @ x # ls" and at: "inputs ! index = c # l" for x
    by (simp_all add: i(1) list_update_append nth_append)
  have fr: "front inputs index = Inr c" by (rule front_cursor[OF assms(1)])
  have n0: "n \<noteq> 0" using assms(2) by auto
  show ?thesis
  proof (cases "n = da_count c")
    case True
    have nth: "inputs[index := l] ! index = l" unfolding up by (simp add: nth_append)
    have z: "remove_assets 0 c st = Inr st" for st by (cases st) (simp add: remove_assets.simps)
    have e: "remove_assets n c (inputs, index, b) =
        Inr (if l = [] then (inputs[index := l], index + 1, False) else (inputs[index := l], index, True))"
      using True n0 fr by (subst remove_assets.simps) (simp add: DigiAsset_neq_def getCount_def at nth z)
    show ?thesis
    proof (cases "l = []")
      case l: True
      have "cursor_at (inputs[index := l]) (index + 1) cs"
        unfolding cursor_at_def up using i l by (intro exI[of _ ls]) (simp add: replicate_append_same[symmetric])
      then show ?thesis using e True l by auto
    next
      case False
      have "cursor_at (inputs[index := l]) index cs"
        unfolding cursor_at_def up using i False by (intro exI[of _ "l # ls"]) auto
      then show ?thesis using e True False by auto
    qed
  next
    case False
    have lt: "n < da_count c" using assms(3) False by simp
    have e: "remove_assets n c (inputs, index, b) = Inr (inputs[index := c\<lparr>da_count := da_count c - n\<rparr> # l], index, True)"
      using lt n0 fr by (subst remove_assets.simps) (auto simp: DigiAsset_neq_def getCount_def removeCount_def at)
    have "cursor_at (inputs[index := c\<lparr>da_count := da_count c - n\<rparr> # l]) index (c\<lparr>da_count := da_count c - n\<rparr> # cs)"
      unfolding cursor_at_def up using i by (intro exI[of _ "(c\<lparr>da_count := da_count c - n\<rparr> # l) # ls"]) auto
    then show ?thesis using e False by auto
  qed
qed


lemma instruction_follow:
  assumes "cursor_at inputs index (c # cs)" "0 < n" "n \<le> da_count c"
    and "out < length outs \<or> out = 31 \<and> type = DIGIASSET_BURN"
    and "i = \<lparr>i_skip = False, i_range = False, i_percent = False, i_output = out, i_percentByte = 0, i_fixedAmount = n\<rparr>"
  shows "\<exists>inputs' index' b'. apply_instruction type i ((inputs, index, b), outs) =
      Inr ((inputs', index', b'), if type = DIGIASSET_BURN \<and> out = 31 then outs
        else outs[out := put_asset (c\<lparr>da_count := n\<rparr>) (outs ! out)]) \<and>
    cursor_at inputs' index' (if n = da_count c then cs else c\<lparr>da_count := da_count c - n\<rparr> # cs)"
proof -
  obtain inputs' index' b' where r: "remove_assets n c (inputs, index, b) = Inr (inputs', index', b')"
    and at: "cursor_at inputs' index' (if n = da_count c then cs else c\<lparr>da_count := da_count c - n\<rparr> # cs)"
    using remove_follow[OF assms(1-3)] by blast
  have g: "give_assets type i n c outs = Inr (if type = DIGIASSET_BURN \<and> out = 31 then outs
        else outs[out := put_asset (c\<lparr>da_count := n\<rparr>) (outs ! out)])"
    using assms(4,5) by (auto simp: give_assets_def addAssetToOutput_eq setCount_def)
  have "apply_instruction type i ((inputs, index, b), outs) =
      Inr ((inputs', index', b'), if type = DIGIASSET_BURN \<and> out = 31 then outs
        else outs[out := put_asset (c\<lparr>da_count := n\<rparr>) (outs ! out)])"
    using front_cursor[OF assms(1)] r g assms(2,5)
    by (simp add: apply_instruction_def instruction_amount_def instruction_total_def Let_def)
  then show ?thesis using at by blast
qed

lemma transfer_loop_follow:
  "follow ps cs = Some (gs, ds) \<Longrightarrow> cursor_at inputs index cs \<Longrightarrow> ahead s (plan_bits ps @ footer) \<Longrightarrow>
     blength s = position s + length (plan_bits ps @ footer) \<Longrightarrow> length footer = footerBitCount type \<Longrightarrow>
     plan_ok type (length outs) ps \<Longrightarrow> wasted_input t type = Inr False \<Longrightarrow>
     \<exists>inputs'. transfer_loop t type ins s ((inputs, index, b), outs) = (Inr inputs', give_all type gs outs) \<and>
       concat inputs' = ds"
proof (induction ps cs arbitrary: gs inputs index s b outs rule: follow.induct)
  case (1 cs)
  then show ?case
    by (subst transfer_loop.simps) (auto simp: getNumberOfBitLeft_def dest: cursor_at_concat)
next
  case (3 out n ps c cs)
  define next_cs where "next_cs = (if n = da_count c then cs else c\<lparr>da_count := da_count c - n\<rparr> # cs)"
  have n: "\<not> (n = 0 \<or> da_count c < n)" using "3.prems"(1) by (auto split: if_split_asm)
  obtain hs where f: "follow ps next_cs = Some (hs, ds)" "gs = (out, c\<lparr>da_count := n\<rparr>) # hs"
    using "3.prems"(1) n by (auto simp: next_cs_def[symmetric])
  have pos: "0 < n" "n \<le> da_count c" using n by (auto simp: word_neq_0_conv)
  have ok: "out < 32" "fp_valid n" "out < length outs \<or> out = 31 \<and> type = DIGIASSET_BURN" "plan_ok type (length outs) ps"
    using "3.prems"(6) by (auto simp: plan_ok_def)
  define i where "i = \<lparr>i_skip = False, i_range = False, i_percent = False, i_output = out, i_percentByte = 0, i_fixedAmount = n\<rparr>"
  define k where "k = length (instr_bits (out, n))"
  have a: "ahead s (instr_bits (out, n))" "ahead (skip_bits k s) (plan_bits ps @ footer)"
    using "3.prems"(3) by (simp_all add: k_def ahead_append_iff)
  have r: "read_instruction s = Inr (i, skip_bits k s)"
    unfolding i_def k_def by (rule read_instr_bits[OF a(1) ok(1,2)])
  have k: "0 < k" by (simp add: k_def instr_bits_def)
  have left: "footerBitCount type < getNumberOfBitLeft s"
    using "3.prems"(4,5) k by (simp add: getNumberOfBitLeft_def k_def)
  define outs1 where "outs1 = (if type = DIGIASSET_BURN \<and> out = 31 then outs
        else outs[out := put_asset (c\<lparr>da_count := n\<rparr>) (outs ! out)])"
  obtain inputs1 index1 b1 where ap: "apply_instruction type i ((inputs, index, b), outs) = Inr ((inputs1, index1, b1), outs1)"
    and at: "cursor_at inputs1 index1 next_cs"
    using instruction_follow[OF "3.prems"(2) pos ok(3) i_def] unfolding outs1_def next_cs_def by blast
  have l: "length outs1 = length outs" by (simp add: outs1_def)
  have step: "transfer_loop t type ins s ((inputs, index, b), outs) =
      transfer_loop t type ins (skip_bits k s) ((inputs1, index1, b1), outs1)"
    using left r "3.prems"(7) ap by (subst transfer_loop.simps) simp
  have bl: "blength (skip_bits k s) = position (skip_bits k s) + length (plan_bits ps @ footer)"
    using "3.prems"(4) by (simp add: k_def)
  obtain inputs' where "transfer_loop t type ins (skip_bits k s) ((inputs1, index1, b1), outs1) = (Inr inputs', give_all type hs outs1)"
    "concat inputs' = ds"
    using "3.IH"[OF n f(1)[unfolded next_cs_def] at[unfolded next_cs_def] a(2) bl "3.prems"(5) ok(4)[folded l] "3.prems"(7)] by blast
  then show ?case using step f(2) by (simp add: outs1_def)
qed simp

end
