(* ===== verification/TransferRoundTrip.thy ===== *)
theory TransferRoundTrip
  imports TransferPlan TransactionDecode
begin

text \<open>
  A built transfer, put on chain by the wallet and read back: what \<open>encodeAssetOpReturn\<close> writes,
  \<open>decodeAssetTX\<close> carries out, and every output ends with what it was assigned.
\<close>

unbundle bit_operations_syntax

subsection \<open>Hex digits of a stream\<close>

lemma hex_digit:
  assumes "unat v < 16" "str_get BITIO_CHARSET_HEX (unat v) = Inr c"
  shows "hex_chars [c] \<and> hex_image [c] = val_bits 4 (v :: u64)"
proof -
  have c: "c = BITIO_CHARSET_HEX ! unat v" using assms by (simp add: str_get_def BITIO_CHARSET_HEX_def split: if_split_asm)
  have "list_all (\<lambda>k. tolower (BITIO_CHARSET_HEX ! k) \<in> set BITIO_CHARSET_HEX \<and> hpos (tolower (BITIO_CHARSET_HEX ! k)) = k) [0..<16]"
    by code_simp
  then have "tolower c \<in> set BITIO_CHARSET_HEX" "hpos (tolower c) = unat v" using assms(1) c by (auto simp: list_all_iff)
  then show ?thesis by (simp add: hex_chars_def hex_image_def)
qed

lemma getHexString_digits:
  "getHexString n s = Inr (h, s') \<Longrightarrow> bitio_inv s \<Longrightarrow> hex_chars h \<and> hex_image h = take (4 * n) (rest_bits s)"
proof (induction n arbitrary: s h)
  case 0
  then show ?case by (simp add: hex_chars_def hex_image_def)
next
  case (Suc n)
  obtain v s1 c t where g: "getBits 4 s = Inr (v, s1)" "str_get BITIO_CHARSET_HEX (unat v) = Inr c"
    "getHexString n s1 = Inr (t, s')" "h = c # t"
    using Suc.prems(1) by (auto elim!: bindE_E)
  have "position s1 \<le> blength s1 \<and> position s + 4 = position s1 \<and> blength s1 = blength s"
    using getBits_moves[OF g(1)] by auto
  then have le: "4 \<le> blength s - position s" by arith
  obtain v' where v: "getBits 4 s = Inr (v', s\<lparr>position := position s + 4\<rparr>)" "fits 4 v'"
      "rest_bits s = val_bits 4 v' @ rest_bits (s\<lparr>position := position s + 4\<rparr>)" "bitio_inv (s\<lparr>position := position s + 4\<rparr>)"
    using val_bits_rest[OF Suc.prems(2) _ _ le] by auto
  have s1: "s1 = s\<lparr>position := position s + 4\<rparr>" "v = v'" using v(1) g(1) by auto
  have d: "hex_chars [c]" "hex_image [c] = val_bits 4 v"
    using hex_digit[OF _ g(2)] v(2) s1(2) by (auto simp: fits_def word_less_nat_alt)
  have t: "hex_chars t" "hex_image t = take (4 * n) (rest_bits s1)"
    using Suc.IH[OF g(3)] v(4) s1(1) by auto
  have "hex_image h = hex_image [c] @ hex_image t" using g(4) by (simp add: hex_image_def)
  then show ?case using d t v(3) s1 g(4) by (auto simp: hex_chars_def)
qed

subsection \<open>Everything is byte aligned\<close>

lemma fp_bits_aligned: "fp_valid v \<Longrightarrow> 8 dvd length (fp_bits v)"
  using fp_bits_length[of v] by auto

lemma plan_bits_aligned: "plan_ok type outs ps \<Longrightarrow> 8 dvd length (plan_bits ps)"
  by (induction ps) (auto simp: plan_ok_def instr_bits_def fp_bits_aligned intro!: dvd_add)

subsection \<open>The payload of a transfer\<close>

definition transfer_header :: "nat \<Rightarrow> bool list" where
  "transfer_header type = val_bits 16 0x4441 @ val_bits 8 3 @ val_bits 8 (if type = DIGIASSET_BURN then 0x25 else 0x15)"

lemma length_transfer_header [simp]: "length (transfer_header type) = 32"
  by (simp add: transfer_header_def)

lemma header_writes:
  "writes (\<lambda>s. bindE (appendBits 0x4441 16 s) (\<lambda>s. bindE (appendBits 3 8 s) (appendBits (if type = DIGIASSET_BURN then 0x25 else 0x15) 8)))
     (transfer_header type)"
  unfolding transfer_header_def by (intro writes_bind writes_bits) (simp_all add: field_ok_def fits_def)

lemma encoded_transfer:
  assumes "encodeAssetOpReturn t = Inr hex" "txType t = DIGIASSET_TRANSFER \<or> txType t = DIGIASSET_BURN"
    and "t_burns t = [] \<or> txType t = DIGIASSET_BURN" "\<forall>c\<in>set (concat (transfer_inputs t)). da_count c \<noteq> 0"
  shows "\<exists>ps gs. hex_image hex = transfer_header (txType t) @ plan_bits ps \<and>
    follow ps (concat (transfer_inputs t)) = Some (gs, []) \<and> plan_ok (txType t) (length (t_outputs t)) ps \<and>
    (\<forall>i k. k < length (t_outputs t) \<longrightarrow> gift_sum (txType t) k i gs = asset_sum i (ut_assets (t_outputs t ! k))) \<and>
    (\<forall>k<length (t_outputs t). ut_assets (t_outputs t ! k) = [] \<longrightarrow>
       (\<forall>g\<in>set gs. fst g = k \<longrightarrow> txType t = DIGIASSET_BURN \<and> k = 31))"
proof -
  have ni: "txType t \<noteq> DIGIASSET_ISSUANCE" using assms(2) by (auto simp: tx_type_defs)
  obtain s1 s2 s3 s4 x where s: "appendBits 0x4441 16 BitIO_empty = Inr s1" "appendBits 3 8 s1 = Inr s2"
    "appendBits (if txType t = DIGIASSET_BURN then 0x25 else 0x15) 8 s2 = Inr s3"
    "buildTransferInstructions t s3 = Inr s4"
    "getHexString (getLength s4 div 4) (movePositionToBeginning s4) = Inr (hex, x)"
    using assms(1,2) ni by (auto simp: encodeAssetOpReturn_def encode_transfer_def elim!: bindE_E)
  have e: "bitio_inv BitIO_empty" "to_bits BitIO_empty = []" by (code_simp, code_simp)
  have a3: "appended BitIO_empty (transfer_header (txType t)) s3"
    using writesD[OF header_writes e(1), of "txType t"] s(1-3) by auto
  then have i3: "bitio_inv s3" by (simp add: appended_def)
  obtain ps gs where p: "appended s3 (plan_bits ps) s4" "follow ps (concat (transfer_inputs t)) = Some (gs, [])"
    "plan_ok (txType t) (length (t_outputs t)) ps"
    "\<forall>i k. k < length (t_outputs t) \<longrightarrow> gift_sum (txType t) k i gs = asset_sum i (ut_assets (t_outputs t ! k))"
    "\<forall>k<length (t_outputs t). ut_assets (t_outputs t ! k) = [] \<longrightarrow>
       (\<forall>g\<in>set gs. fst g = k \<longrightarrow> txType t = DIGIASSET_BURN \<and> k = 31)"
    using buildTransferInstructions_plan[OF s(4) i3 assms(3,4)] by blast
  have tb: "to_bits s4 = transfer_header (txType t) @ plan_bits ps" "bitio_inv s4"
    using a3 p(1) e(2) by (simp_all add: appended_def)
  have len: "blength s4 = length (to_bits s4)" by simp
  have "8 dvd length (transfer_header (txType t)) + length (plan_bits ps)"
    using plan_bits_aligned[OF p(3)] by (intro dvd_add) (simp_all add: transfer_header_def)
  then have "8 dvd blength s4" unfolding len tb(1) by simp
  then have "4 dvd blength s4" by (rule dvd_trans[rotated]) simp
  then have l4: "4 * (getLength s4 div 4) = blength s4" by (simp add: getLength_def)
  have r: "rest_bits (movePositionToBeginning s4) = to_bits s4" "bitio_inv (movePositionToBeginning s4)"
    using tb(2) by (simp_all add: movePositionToBeginning_def rest_bits_def)
  have "hex_image hex = transfer_header (txType t) @ plan_bits ps"
    using getHexString_digits[OF s(5) r(2)] unfolding l4 r(1) tb(1)[symmetric] by simp
  then show ?thesis using p by blast
qed


subsection \<open>The transaction on chain\<close>

text \<open>The data output the asset decoder looks at, and what it carries.\<close>

definition asset_data :: "getrawtransaction_t \<Rightarrow> bool list \<Rightarrow> bool" where
  "asset_data tx bl \<longleftrightarrow>
     (case header_output tx of None \<Rightarrow> False | Some i \<Rightarrow> i < length (tx_vout tx) \<and> carries (tx_vout tx ! i) bl)"

lemma decodeAssetTxHeader_payload:
  assumes "asset_data tx (val_bits 16 0x4441 @ val_bits 8 3 @ val_bits 8 op @ bl)" "field_ok 8 op"
  shows "\<exists>s. decodeAssetTxHeader tx = Inr (3, ucast op, s) \<and> ahead s bl \<and> blength s = position s + length bl \<and>
    position s = 32"
proof -
  let ?bits = "val_bits 16 0x4441 @ val_bits 8 3 @ val_bits 8 op @ bl"
  obtain i where i: "header_output tx = Some i" "i < length (tx_vout tx)" "carries (tx_vout tx ! i) ?bits"
    using assms by (auto simp: asset_data_def split: option.splits)
  define v where "v = tx_vout tx ! i"
  have v: "carries v ?bits" using i(3) by (simp add: v_def)
  define n where "n = length ?bits div 8"
  have "length ?bits = 32 + length bl" by simp
  then have "0 < n" unfolding n_def by simp
  moreover have "length ?bits mod 8 = 0" "n < 2 ^ 32" using v unfolding n_def carries_def by blast+
  moreover then have "length ?bits = 8 * n" unfolding n_def by (metis mult_div_mod_eq add.right_neutral)
  ultimately have n: "0 < n" "n < 2 ^ 32" "length ?bits = 8 * n" by blast+
  obtain s where s: "makeHexString (spk_hex v) = Inr s" "holds s (hex_image (spk_hex v))"
    using makeHexString_holds[of "spk_hex v"] v unfolding carries_def by blast
  have im: "hex_image (spk_hex v) = val_bits 8 106 @ fields_image (push_header n) @ ?bits"
    using v by (simp add: carries_def n_def)
  have a: "ahead s (val_bits 8 106)" "ahead (skip_bits 8 s) (fields_image (push_header n) @ ?bits)"
    using holds_ahead[OF s(2)] unfolding im by (simp_all add: ahead_append_iff[of s "val_bits 8 106"])
  have hd: "ahead (skip_bits 8 s) (fields_image (push_header n))" using a(2) by (simp add: ahead_append_iff)
  obtain w fs where "push_header n = (8, w) # fs" using push_header_first[OF n(1,2)] by blast
  then have "48 \<le> length (hex_image (spk_hex v))" unfolding im by simp
  then have len: "\<not> getLength s < 48" using s(2) by (auto simp: getLength_def holds_def dest: arg_cong[of _ _ length])
  obtain d x where d: "copyBitcoinData (skip_bits 8 s) = Inr (d, x)" "holds d ?bits"
    using copyBitcoinData_image[OF n(1,2) a(2) n(3)] by auto
  have ad: "ahead d (val_bits 16 0x4441)" "ahead (skip_bits 16 d) (val_bits 8 3)" "ahead (skip_bits 24 d) (val_bits 8 op)"
      "ahead (skip_bits 32 d) bl"
    using holds_ahead[OF d(2)] by (simp_all only: append_assoc ahead_append_iff) simp_all
  have f: "field_ok 16 (0x4441 :: u64)" "field_ok 8 (3 :: u64)" by (simp_all add: field_ok_def fits_def)
  have "decodeAssetTxHeader tx = Inr (3, ucast op, skip_bits 32 d)"
    using i(1,2) s(1) len checkIsBitcoinOpReturn_found[OF a(1)] getBitcoinDataHeader_data[OF n(1,2) hd] d(1)
      ahead_get[OF ad(1) f(1)] ahead_get[OF ad(2) f(2)] ahead_get[OF ad(3) assms(2)]
    by (simp add: decodeAssetTxHeader_def v_def[symmetric])
  moreover have "blength (skip_bits 32 d) = position (skip_bits 32 d) + length bl" "position (skip_bits 32 d) = 32"
    using d(2) by (auto simp: holds_def dest: arg_cong[of _ _ length])
  ultimately show ?thesis using ad(4) by blast
qed

lemma decodeAssetTxHeader_transfer:
  assumes "asset_data tx (transfer_header type @ bl)"
  shows "\<exists>s. decodeAssetTxHeader tx = Inr (3, if type = DIGIASSET_BURN then 0x25 else 0x15, s) \<and> ahead s bl \<and>
    blength s = position s + length bl"
proof -
  let ?op = "if type = DIGIASSET_BURN then 0x25 else 0x15 :: u64"
  have "field_ok 8 ?op" by (simp add: field_ok_def fits_def)
  from decodeAssetTxHeader_payload[OF _ this, of tx bl] assms
  obtain s where "decodeAssetTxHeader tx = Inr (3, ucast ?op, s)" "ahead s bl" "blength s = position s + length bl"
    by (auto simp: transfer_header_def)
  then show ?thesis by (auto split: if_split_asm)
qed

subsection \<open>The whole way\<close>

lemma no_rules_pass:
  assumes "\<forall>u\<in>set (t_inputs t). \<forall>a\<in>set (ut_assets u). rules_empty (da_rules a)"
  shows "checkRulesPass node t = Inr ()"
proof -
  have "foldE (\<lambda>a _. DigiAsset_checkRulesPass node ins outs h time a) as () = Inr ()"
    if "\<forall>a\<in>set as. rules_empty (da_rules a)" for ins outs h time as
    using that by (induction as) (auto simp: DigiAsset_checkRulesPass_def)
  then have "foldE (\<lambda>u. foldE (\<lambda>a _. DigiAsset_checkRulesPass node ins outs h time a) (ut_assets u)) us () = Inr ()"
    if "\<forall>u\<in>set us. \<forall>a\<in>set (ut_assets u). rules_empty (da_rules a)" for ins outs h time us
    using that by (induction us) auto
  then show ?thesis using assms by (simp add: checkRulesPass_def)
qed

lemma plan_ok_mono: "plan_ok type m ps \<Longrightarrow> m \<le> n \<Longrightarrow> plan_ok type n ps"
  by (fastforce simp: plan_ok_def)

lemma follow_outputs: "follow ps cs = Some (gs, ds) \<Longrightarrow> map fst gs = map fst ps"
  by (induction ps cs arbitrary: gs rule: follow.induct) (auto split: if_split_asm)

lemma clear_unaddressed_id:
  assumes "list_all (\<lambda>u. ut_address u = [] \<longrightarrow> ut_assets u = []) (t_outputs t)"
  shows "clear_unaddressed t = t"
proof -
  have "map (\<lambda>u. if ut_address u = [] \<and> ut_assets u \<noteq> [] then clear_assets u else u) (t_outputs t) = t_outputs t"
    using assms by (intro map_idI) (auto simp: list_all_iff)
  moreover have "\<not> list_ex (\<lambda>u. ut_address u = [] \<and> ut_assets u \<noteq> []) (t_outputs t)"
    using assms by (auto simp: list_all_iff list_ex_iff)
  ultimately show ?thesis by (simp add: clear_unaddressed_def)
qed

text \<open>
  \<open>u\<close> is the transaction as loaded from the chain: the inputs of \<open>t\<close>, its outputs with their addresses
  first, then any others, none with assets yet.
\<close>

definition loaded_from :: "DigiByteTransaction \<Rightarrow> DigiByteTransaction \<Rightarrow> bool" where
  "loaded_from t u \<longleftrightarrow>
     t_inputs u = t_inputs t \<and> assetFound u \<and> \<not> unintentionalBurn u \<and> length (t_outputs t) \<le> length (t_outputs u) \<and>
     (\<forall>k<length (t_outputs t). ut_address (t_outputs u ! k) = ut_address (t_outputs t ! k)) \<and>
     list_all (\<lambda>o'. ut_assets o' = []) (t_outputs u)"

lemma decode_encoded_transfer:
  assumes enc: "encodeAssetOpReturn t = Inr hex" and ty: "txType t = DIGIASSET_TRANSFER \<or> txType t = DIGIASSET_BURN"
    and bn: "t_burns t = [] \<or> txType t = DIGIASSET_BURN"
    and pos: "\<forall>v\<in>set (t_inputs t). \<forall>a\<in>set (ut_assets v). da_count a \<noteq> 0 \<and> rules_empty (da_rules a)"
    and adr: "\<forall>v\<in>set (t_outputs t). ut_assets v \<noteq> [] \<longrightarrow> ut_address v \<noteq> []"
    and dat: "asset_data tx (hex_image hex)" and ld: "loaded_from t u"
  shows "\<exists>u'. decodeAssetTX chain tx u = (Inr (True, []), u') \<and> txType u' = txType t \<and> \<not> unintentionalBurn u' \<and>
    length (t_outputs u') = length (t_outputs u) \<and>
    (\<forall>k i. k < length (t_outputs u) \<longrightarrow> asset_sum i (ut_assets (t_outputs u' ! k)) =
       (if k < length (t_outputs t) then asset_sum i (ut_assets (t_outputs t ! k)) else 0))"
proof -
  let ?ty = "txType t"
  have ni: "?ty \<noteq> DIGIASSET_ISSUANCE" using ty by (auto simp: tx_type_defs)
  have ti: "transfer_inputs t = asset_inputs (t_inputs t)" using ni by (simp add: transfer_inputs_def)
  have nz: "\<forall>c\<in>set (concat (transfer_inputs t)). da_count c \<noteq> 0" using pos unfolding ti by (auto simp: asset_inputs_def)
  obtain ps gs where p: "hex_image hex = transfer_header ?ty @ plan_bits ps"
    "follow ps (concat (transfer_inputs t)) = Some (gs, [])" "plan_ok ?ty (length (t_outputs t)) ps"
    "\<forall>i k. k < length (t_outputs t) \<longrightarrow> gift_sum ?ty k i gs = asset_sum i (ut_assets (t_outputs t ! k))"
    "\<forall>k<length (t_outputs t). ut_assets (t_outputs t ! k) = [] \<longrightarrow> (\<forall>g\<in>set gs. fst g = k \<longrightarrow> ?ty = DIGIASSET_BURN \<and> k = 31)"
    using encoded_transfer[OF enc ty bn nz] by blast
  obtain s where s: "decodeAssetTxHeader tx = Inr (3, if ?ty = DIGIASSET_BURN then 0x25 else 0x15, s)"
    "ahead s (plan_bits ps)" "blength s = position s + length (plan_bits ps)"
    using decodeAssetTxHeader_transfer dat p(1) by metis
  define u1 where "u1 = u\<lparr>assetTransactionVersion := 3\<rparr>"
  have len: "length (t_outputs t) \<le> length (t_outputs u1)" using ld by (simp add: loaded_from_def u1_def)
  have w: "wasted_input u1 ?ty = Inr False" by (simp add: wasted_input_def u1_def)
  have ft: "length [] = footerBitCount ?ty" using ni by (simp add: footerBitCount_def)
  obtain inputs' where l: "transfer_loop u1 ?ty (t_inputs t) s ((asset_inputs (t_inputs t), 0, True), t_outputs u1) =
      (Inr inputs', give_all ?ty gs (t_outputs u1))" "concat inputs' = []"
    using transfer_loop_follow[OF p(2)[unfolded ti] asset_inputs_cursor, of s "[]" ?ty "t_outputs u1" u1 "t_inputs t" True]
      s(2,3) ft plan_ok_mono[OF p(3) len] w by auto
  define u2 where "u2 = u1\<lparr>t_outputs := give_all ?ty gs (t_outputs u1)\<rparr>"
  have rules: "checkRulesPass (ch_node chain) u2 = Inr ()"
    using pos ld by (intro no_rules_pass) (auto simp: u2_def u1_def loaded_from_def)
  have bare: "ut_assets (t_outputs u1 ! k) = []" if "k < length (t_outputs u1)" for k
    using ld that by (auto simp: loaded_from_def u1_def list_all_length)
  have none: "\<forall>g\<in>set gs. fst g = k \<longrightarrow> ?ty = DIGIASSET_BURN \<and> k = 31"
    if "k < length (t_outputs t) \<Longrightarrow> ut_assets (t_outputs t ! k) = []" for k
  proof (cases "k < length (t_outputs t)")
    case False
    have im: "fst ` set gs = fst ` set ps" using follow_outputs[OF p(2)] by (metis list.set_map)
    show ?thesis
    proof (intro ballI impI)
      fix g assume "g \<in> set gs" "fst g = k"
      then have "k \<in> fst ` set ps" using im by blast
      then obtain n where "(k, n) \<in> set ps" by auto
      then have "k < length (t_outputs t) \<or> k = 31 \<and> ?ty = DIGIASSET_BURN"
        using p(3) unfolding plan_ok_def by blast
      then show "?ty = DIGIASSET_BURN \<and> k = 31" using False by blast
    qed
  qed (use p(5) that in blast)
  have "list_all (\<lambda>o'. ut_address o' = [] \<longrightarrow> ut_assets o' = []) (t_outputs u2)"
    unfolding list_all_length
  proof (intro allI impI)
    fix k assume k: "k < length (t_outputs u2)" and ad: "ut_address (t_outputs u2 ! k) = []"
    have k1: "k < length (t_outputs u1)" using k by (simp add: u2_def)
    have "ut_address (t_outputs u1 ! k) = []"
      using ad k1 arg_cong[OF give_all_address, of "\<lambda>l. l ! k" ?ty gs "t_outputs u1"] by (simp add: u2_def)
    then have "ut_assets (t_outputs t ! k) = []" if "k < length (t_outputs t)"
      using adr ld that by (auto simp: loaded_from_def u1_def)
    then show "ut_assets (t_outputs u2 ! k) = []"
      using give_all_same[OF k1 none] bare[OF k1] by (simp add: u2_def)
  qed
  then have "clear_unaddressed u2 = u2" by (rule clear_unaddressed_id)
  then have d2: "decodeAssetTransfer (ch_node chain) s (t_inputs t) ?ty u1 = (Inr (), u2)"
  proof -
    have "change_loop (concat inputs') outs = (Inr (), outs)" for outs unfolding l(2) by simp
    then show ?thesis using l(1) rules ni \<open>clear_unaddressed u2 = u2\<close> by (simp add: decodeAssetTransfer_def u2_def Let_def)
  qed
  have dec: "decodeAssetTX chain tx u = (Inr (True, []), u2\<lparr>txType := ?ty\<rparr>)"
  proof -
    have u1: "assetFound u1" "t_inputs u1 = t_inputs t" using ld by (simp_all add: u1_def loaded_from_def)
    define opcode :: u8 where "opcode = (if ?ty = DIGIASSET_BURN then 0x25 else 0x15)"
    have op: "opcode \<noteq> 0" "\<not> opcode < 16" "opcode < 48" "opcode mod 16 = 5"
      "(if opcode \<ge> 0x20 then DIGIASSET_BURN else DIGIASSET_TRANSFER) = ?ty"
      using ty by (auto simp: opcode_def tx_type_defs)
    have "decodeTransfer chain opcode s u1 = (Inr (True, []), u2\<lparr>txType := ?ty\<rparr>)"
      unfolding decodeTransfer_def op(5) Let_def u1(2) using u1(1) op(4) d2 by simp
    then show ?thesis
      unfolding decodeAssetTX_def s(1)[folded opcode_def] using op(1-3) by (simp add: u1_def[symmetric])
  qed
  show ?thesis
  proof (intro exI[of _ "u2\<lparr>txType := ?ty\<rparr>"] conjI allI impI)
    fix k i assume "k < length (t_outputs u)"
    then have k: "k < length (t_outputs u1)" by (simp add: u1_def)
    have sm: "asset_sum i (ut_assets (t_outputs u2 ! k)) = gift_sum ?ty k i gs"
      using give_all_sum[OF k, of i ?ty gs] bare[OF k] by (simp add: u2_def)
    show "asset_sum i (ut_assets (t_outputs (u2\<lparr>txType := ?ty\<rparr>) ! k)) =
        (if k < length (t_outputs t) then asset_sum i (ut_assets (t_outputs t ! k)) else 0)"
    proof (cases "k < length (t_outputs t)")
      case False
      then have "t_outputs u2 ! k = t_outputs u1 ! k" using give_all_same[OF k none] by (simp add: u2_def)
      then show ?thesis using False bare[OF k] by simp
    qed (use sm p(4) in simp)
  qed (use dec ld in \<open>auto simp: u2_def u1_def loaded_from_def\<close>)
qed

end
