(* ===== verification/TransactionMachine.thy ===== *)
theory TransactionMachine
  imports TransferRoundTrip
begin

text \<open>
  The life of a transaction under construction. The calls of the wallet code are the steps of a state
  machine; a call that throws is no step. \<open>build_inv\<close> holds in every state the machine reaches from
  a new transaction, and gives the encoder what it relies on.
\<close>

inductive build_step :: "DigiByteTransaction \<Rightarrow> DigiByteTransaction \<Rightarrow> bool" where
  step_input: "addInput u t = Inr t' \<Longrightarrow> build_step t t'"
| step_issuance: "setIssuance a t = Inr t' \<Longrightarrow> build_step t t'"
| step_burn: "addAssetBurn as t = Inr t' \<Longrightarrow> build_step t t'"
| step_rules: "addRuleOutputs t = Inr t' \<Longrightarrow> build_step t t'"
| step_pay: "addDigiByteOutput adr n t = Inr t' \<Longrightarrow> build_step t t'"
| step_asset: "addDigiAssetOutput adr as t = Inr t' \<Longrightarrow> build_step t t'"

inductive reachable :: "DigiByteTransaction \<Rightarrow> bool" where
  reachable_new: "reachable (DigiByteTransaction_new time)"
| reachable_step: "reachable t \<Longrightarrow> build_step t t' \<Longrightarrow> reachable t'"

inductive_cases build_stepE: "build_step t t'"

text \<open>
  A transaction is being built for one purpose; it is on no chain; every output has an address; assets
  are on the first 32 outputs only, never in zero amounts; burns are declared in burn transactions only.
\<close>

definition output_ok :: "nat \<Rightarrow> AssetUTXO \<Rightarrow> bool" where
  "output_ok k u \<longleftrightarrow> ut_address u \<noteq> [] \<and> ut_vout u = of_nat k \<and>
     (ut_assets u \<noteq> [] \<longrightarrow> k < 32 \<and> list_all (\<lambda>a. getCount a \<noteq> 0) (ut_assets u))"

definition outputs_ok :: "AssetUTXO list \<Rightarrow> bool" where
  "outputs_ok us \<longleftrightarrow> (\<forall>k<length us. output_ok k (us ! k))"

lemma outputs_ok_snoc: "outputs_ok (us @ [u]) \<longleftrightarrow> outputs_ok us \<and> output_ok (length us) u"
  by (auto simp: outputs_ok_def nth_append less_Suc_eq)

definition build_inv :: "DigiByteTransaction \<Rightarrow> bool" where
  "build_inv t \<longleftrightarrow>
     isWritable t \<and> txType t \<in> {STANDARD, DIGIASSET_ISSUANCE, DIGIASSET_TRANSFER, DIGIASSET_BURN} \<and>
     outputs_ok (t_outputs t) \<and>
     (assetFound t \<longleftrightarrow> list_ex (\<lambda>u. ut_assets u \<noteq> []) (t_inputs t)) \<and>
     (assetFound t \<longleftrightarrow> txType t \<in> {DIGIASSET_TRANSFER, DIGIASSET_BURN}) \<and>
     (t_burns t \<noteq> [] \<longrightarrow> txType t = DIGIASSET_BURN) \<and> list_all (\<lambda>a. getCount a \<noteq> 0) (t_burns t) \<and>
     (ruleOutputsAdded t \<longrightarrow> txType t = DIGIASSET_ISSUANCE \<and> ruleOutputsStart t \<le> length (t_outputs t))"

lemma build_inv_new: "build_inv (DigiByteTransaction_new time)"
  by (simp add: build_inv_def DigiByteTransaction_new_def isWritable_def tx_type_defs outputs_ok_def)

lemma addInput_inv:
  assumes "addInput u t = Inr t'" "build_inv t"
  shows "build_inv t'"
proof -
  have ok: "\<not> (txType t = DIGIASSET_ISSUANCE \<and> ut_assets u \<noteq> [])"
    and t': "t' = (if ut_assets u \<noteq> []
        then t\<lparr>t_inputs := t_inputs t @ [u], assetFound := True, txType := (if txType t = STANDARD then DIGIASSET_TRANSFER else txType t)\<rparr>
        else t\<lparr>t_inputs := t_inputs t @ [u]\<rparr>)"
    using assms(1) by (auto simp: addInput_def Let_def elim!: bindE_E split: if_split_asm)
  show ?thesis
  proof (cases "ut_assets u = []")
    case True
    then show ?thesis using assms(2) t' by (auto simp: build_inv_def isWritable_def)
  next
    case False
    then show ?thesis using assms(2) t' ok by (auto simp: build_inv_def isWritable_def tx_type_defs)
  qed
qed

lemma setIssuance_inv:
  assumes "setIssuance a t = Inr t'" "build_inv t"
  shows "build_inv t'"
proof -
  have "\<not> assetFound t" "t' = t\<lparr>newAsset := a, txType := DIGIASSET_ISSUANCE\<rparr>"
    using assms(1) by (auto simp: setIssuance_def elim!: bindE_E split: if_split_asm)
  then show ?thesis using assms(2) by (auto simp: build_inv_def isWritable_def tx_type_defs)
qed

lemma burns_fold:
  "foldE (\<lambda>asset t. if getCount asset = 0 then Inl (TransactionException m)
      else Inr (t\<lparr>t_burns := t_burns t @ [asset]\<rparr>)) as t = Inr t' \<Longrightarrow>
     t' = t\<lparr>t_burns := t_burns t @ as\<rparr> \<and> list_all (\<lambda>a. getCount a \<noteq> 0) as"
proof (induction as arbitrary: t)
  case (Cons a as)
  then have "getCount a \<noteq> 0" by (auto split: if_split_asm)
  then show ?case using Cons.prems Cons.IH[of "t\<lparr>t_burns := t_burns t @ [a]\<rparr>"] by simp
qed simp

lemma addAssetBurn_inv:
  assumes "addAssetBurn as t = Inr t'" "build_inv t"
  shows "build_inv t'"
proof -
  obtain t1 where b: "assetFound t" "txType t \<noteq> DIGIASSET_ISSUANCE" "t' = t1\<lparr>txType := DIGIASSET_BURN\<rparr>"
    "foldE (\<lambda>asset t. if getCount asset = 0 then Inl (TransactionException ''Can not burn 0 of an asset'')
      else Inr (t\<lparr>t_burns := t_burns t @ [asset]\<rparr>)) as t = Inr t1"
    using assms(1) by (auto simp: addAssetBurn_def elim!: bindE_E split: if_split_asm)
  have "t1 = t\<lparr>t_burns := t_burns t @ as\<rparr>" "list_all (\<lambda>a. getCount a \<noteq> 0) as"
    using burns_fold[OF b(4)] by auto
  then show ?thesis using assms(2) b(1-3) by (auto simp: build_inv_def isWritable_def tx_type_defs)
qed

lemma add_output_inv: "build_inv t \<Longrightarrow> output_ok (length (t_outputs t)) u \<Longrightarrow> build_inv (t\<lparr>t_outputs := t_outputs t @ [u]\<rparr>)"
  by (auto simp: build_inv_def isWritable_def outputs_ok_snoc)

lemma addDigiByteOutput_inv: "addDigiByteOutput adr n t = Inr t' \<Longrightarrow> build_inv t \<Longrightarrow> build_inv t'"
  by (auto simp: addDigiByteOutput_def output_ok_def elim!: bindE_E intro!: add_output_inv split: if_split_asm)

lemma addDigiAssetOutput_inv: "addDigiAssetOutput adr as t = Inr t' \<Longrightarrow> build_inv t \<Longrightarrow> build_inv t'"
  by (auto simp: addDigiAssetOutput_def output_ok_def list_all_iff list_ex_iff elim!: bindE_E intro!: add_output_inv split: if_split_asm)

lemma addRuleOutputs_inv:
  assumes "addRuleOutputs t = Inr t'" "build_inv t"
  shows "build_inv t'"
proof -
  obtain required where r: "getRequiredOutputs (da_rules (newAsset t)) = Inr required"
    and f: "foldE (\<lambda>r. addDigiByteOutput (ro_address r) (ro_sats r)) required
         (t\<lparr>ruleOutputsStart := length (t_outputs t), ruleOutputsAdded := True\<rparr>) = Inr t'"
    and ty: "txType t = DIGIASSET_ISSUANCE"
    using assms(1) by (auto simp: addRuleOutputs_def elim!: bindE_E split: if_split_asm)
  have "build_inv (t\<lparr>ruleOutputsStart := length (t_outputs t), ruleOutputsAdded := True\<rparr>)"
    using assms(2) ty by (auto simp: build_inv_def isWritable_def tx_type_defs)
  then show ?thesis using foldE_invariant[OF f] addDigiByteOutput_inv by blast
qed

lemma build_step_inv: "build_step t t' \<Longrightarrow> build_inv t \<Longrightarrow> build_inv t'"
  by (erule build_stepE) (metis addInput_inv setIssuance_inv addAssetBurn_inv addRuleOutputs_inv addDigiByteOutput_inv
      addDigiAssetOutput_inv)+

lemma reachable_inv: "reachable t \<Longrightarrow> build_inv t"
  by (induction rule: reachable.induct) (auto intro: build_inv_new build_step_inv)

end
