(* ===== verification/RuleLaws.thy ===== *)
theory RuleLaws
  imports TransactionDecode
begin

text \<open>
  What the rule check of a transfer enforces, and where its 64-bit arithmetic departs from the
  amounts it stands for.
\<close>

unbundle bit_operations_syntax

subsection \<open>The single checks\<close>

lemma check_signers_ok:
  "check_signers node ins r = Inr () \<Longrightarrow> 0 < signersRequired r \<Longrightarrow>
     \<exists>as. input_addresses node ins = Inr as \<and> signersRequired r \<le> total_weight (signers r) as"
  by (auto simp: check_signers_def getRequiredSignerWeight_def getSigners_def guardE_Inr_iff elim!: bindE_E)

lemma check_royalties_ok:
  "check_royalties node i outs h r = Inr () \<Longrightarrow> royalties r \<noteq> [] \<Longrightarrow>
     \<exists>rate count. acceptedExchangeRate node (exchangeRate r) h = Inr rate \<and> recipient_count i outs = Inr count \<and>
       list_all (royalty_paid count rate outs) (royalties r)"
  by (auto simp: check_royalties_def getIfRequiresRoyalty_def getRoyaltyCurrency_def getRoyalties_def guardE_Inr_iff elim!: bindE_E)

lemma check_kyc_ok:
  assumes "check_kyc node cs h r = Inr ()" "getIfGeoFenced r" "(adr, d) \<in> set cs" "sint d > 0"
  shows "\<exists>k c. getAddressKYC node adr = Inr k \<and> KYC_valid (sint h) k \<and> KYC_getCountry k = Inr c \<and>
    getIfCountryAllowedToReceive c r"
proof -
  define f where "f = (\<lambda>(address, change :: u64) (_::unit).
          if sint change \<le> 0 then Inr ()
          else
            bindE (getAddressKYC node address) (\<lambda>kyc.
            if \<not> KYC_valid (sint h) kyc then Inl (RuleFailed ''KYC'')
            else bindE (KYC_getCountry kyc) (\<lambda>c. guardE (getIfCountryAllowedToReceive c r) (RuleFailed ''KYC''))))"
  have "foldE f cs () = Inr ()" using assms(1,2) by (simp add: check_kyc_def f_def)
  then have "f (adr, d) () = Inr ()" using assms(3) by (induction cs) (auto elim!: bindE_E)
  then show ?thesis using assms(4) by (auto simp: f_def guardE_Inr_iff elim!: bindE_E split: if_split_asm)
qed

lemma burns_total: "foldl (\<lambda>b (x, c). b - c) z cs = z - sum_list (map snd (cs :: changes))"
  by (induction cs arbitrary: z) (auto simp: algebra_simps)

lemma check_deflation_ok:
  assumes "check_deflation cs r = Inr ()" "0 < deflate r" "asset_changes i ins outs = Inr cs"
  shows "deflate r \<le> asset_total i ins - asset_total i outs"
  using assms asset_changes_sum[OF assms(3)]
  by (simp add: check_deflation_def guardE_Inr_iff getRequiredBurn_def burns_total not_less)

subsection \<open>All of them\<close>

lemma rules_enforced:
  assumes pass: "DigiAsset_checkRulesPass node ins outs h time a = Inr ()" and r: "r = da_rules a" "\<not> rules_empty r"
    and ch: "asset_changes (assetIndex a) ins outs = Inr cs" "\<not> consolidation cs"
  shows "(0 < signersRequired r \<longrightarrow>
      (\<exists>as. input_addresses node ins = Inr as \<and> signersRequired r \<le> total_weight (signers r) as)) \<and>
    (royalties r \<noteq> [] \<longrightarrow>
      (\<exists>rate count. acceptedExchangeRate node (exchangeRate r) h = Inr rate \<and>
         recipient_count (assetIndex a) outs = Inr count \<and> list_all (royalty_paid count rate outs) (royalties r))) \<and>
    (\<forall>(adr, d) \<in> set cs. 0 < sint d \<longrightarrow>
      (getIfGeoFenced r \<longrightarrow> (\<exists>k c. getAddressKYC node adr = Inr k \<and> KYC_valid (sint h) k \<and> KYC_getCountry k = Inr c \<and>
         getIfCountryAllowedToReceive c r)) \<and>
      (\<not> movable r \<longrightarrow> getIfValidVoteAddress adr r)) \<and>
    \<not> getIfExpired h time r \<and>
    (0 < deflate r \<longrightarrow> deflate r \<le> asset_total (assetIndex a) ins - asset_total (assetIndex a) outs)"
proof -
  have c: "check_signers node ins r = Inr ()" "check_royalties node (assetIndex a) outs h r = Inr ()"
    "check_kyc node cs h r = Inr ()" "\<not> getIfExpired h time r" "check_vote cs r = Inr ()" "check_deflation cs r = Inr ()"
    using pass r ch by (auto simp: DigiAsset_checkRulesPass_def Let_def guardE_Inr_iff elim!: bindE_E)
  have v: "getIfValidVoteAddress adr r" if "(adr, d) \<in> set cs" "0 < sint d" "\<not> movable r" for adr d
    using c(5) that by (auto simp: check_vote_def guardE_Inr_iff getIfVoteRestricted_def list_all_iff)
  show ?thesis
    using check_signers_ok[OF c(1)] check_royalties_ok[OF c(2)] check_kyc_ok[OF c(3)] c(4) v check_deflation_ok[OF c(6) _ ch(1)]
    by (intro conjI) blast+
qed

lemma checkRulesPass_all:
  assumes "checkRulesPass node t = Inr ()" "u \<in> set (t_inputs t)" "a \<in> set (ut_assets u)"
  shows "DigiAsset_checkRulesPass node (t_inputs t) (t_outputs t) (t_height t) (t_time t) a = Inr ()"
proof -
  define f where "f = (\<lambda>a (_::unit). DigiAsset_checkRulesPass node (t_inputs t) (t_outputs t) (t_height t) (t_time t) a)"
  have in_fold: "foldE f as () = Inr () \<Longrightarrow> x \<in> set as \<Longrightarrow> f x () = Inr ()" for as x
    by (induction as) (auto elim!: bindE_E)
  have "foldE (\<lambda>u. foldE f (ut_assets u)) us () = Inr () \<Longrightarrow> v \<in> set us \<Longrightarrow> foldE f (ut_assets v) () = Inr ()" for us v
    by (induction us) (auto elim!: bindE_E)
  then have "foldE f (ut_assets u) () = Inr ()" using assms(1,2) by (simp add: checkRulesPass_def f_def)
  then show ?thesis using in_fold assms(3) by (simp add: f_def)
qed

subsection \<open>A recorded transfer obeys the rules\<close>

lemma decodeAssetTransfer_keeps:
  assumes "decodeAssetTransfer node s ins type t = (res, t')"
  shows "t_inputs t' = t_inputs t \<and> t_height t' = t_height t \<and> t_time t' = t_time t \<and> txType t' = txType t"
  using assms by (auto simp: decodeAssetTransfer_def Let_def clear_unaddressed_def split: prod.split_asm sum.split_asm)

lemma decodeAssetTransfer_rules:
  assumes d: "decodeAssetTransfer node s ins type t = (Inr (), t')" and ty: "type \<noteq> DIGIASSET_ISSUANCE"
    and nb: "\<not> unintentionalBurn t'"
  shows "checkRulesPass node t' = Inr ()"
proof -
  obtain outs where r: "checkRulesPass node (t\<lparr>t_outputs := outs\<rparr>) = Inr ()" "t' = clear_unaddressed (t\<lparr>t_outputs := outs\<rparr>)"
    using d ty by (auto simp: decodeAssetTransfer_def Let_def split: prod.split_asm sum.split_asm)
  have "t_outputs t' = outs" using clear_unaddressed_same nb unfolding r(2) by fastforce
  then show ?thesis using r decodeAssetTransfer_keeps[OF d] by (simp add: checkRulesPass_def)
qed

lemma recorded_transfer_rules:
  assumes "decodeAssetTX chain tx t = (Inr (True, w), t')" "txType t' \<noteq> DIGIASSET_ISSUANCE" "\<not> unintentionalBurn t'"
  shows "checkRulesPass (ch_node chain) t' = Inr ()"
proof -
  obtain version opcode s where h: "decodeAssetTxHeader tx = Inr (version, opcode, s)"
    using assms(1) by (auto simp: decodeAssetTX_def split: sum.split_asm)
  let ?t = "t\<lparr>assetTransactionVersion := version\<rparr>"
  have "\<not> (opcode < 16 \<and> opcode \<noteq> 0)"
    using assms(1,2) h by (auto simp: decodeAssetTX_def decodeIssuance_def Let_def split: sum.split_asm prod.split_asm if_split_asm)
  then have tr: "decodeTransfer chain opcode s ?t = (Inr (True, w), t')"
    using assms(1) h by (auto simp: decodeAssetTX_def Let_def split: if_split_asm)
  let ?type = "if opcode \<ge> 0x20 then DIGIASSET_BURN else DIGIASSET_TRANSFER"
  obtain t1 where d: "decodeAssetTransfer (ch_node chain) s (t_inputs ?t) ?type ?t = (Inr (), t1)" "t' = t1\<lparr>txType := ?type\<rparr>"
    using tr unfolding decodeTransfer_def Let_def
    by (cases "decodeAssetTransfer (ch_node chain) s (t_inputs ?t) ?type ?t")
      (auto split: sum.split_asm cpp_error.split_asm if_split_asm)
  have ty: "?type \<noteq> DIGIASSET_ISSUANCE" by (simp add: tx_type_defs)
  have "\<not> unintentionalBurn t1" using assms(3) d(2) by simp
  then have "checkRulesPass (ch_node chain) t1 = Inr ()" using decodeAssetTransfer_rules[OF d(1) ty] by simp
  then show ?thesis using d(2) by (simp add: checkRulesPass_def)
qed

subsection \<open>A broken rule\<close>

lemma broken_rule_destroys:
  assumes "decodeAssetTxHeader tx = Inr (version, opcode, s)" "16 \<le> opcode" "opcode < 48" "opcode mod 16 = 5" "assetFound t"
    and "decodeAssetTransfer (ch_node chain) s (t_inputs t) (if opcode \<ge> 0x20 then DIGIASSET_BURN else DIGIASSET_TRANSFER)
      (t\<lparr>assetTransactionVersion := version\<rparr>) = (Inl (RuleFailed m), t1)"
  shows "\<exists>t'. decodeAssetTX chain tx t = (Inr (False, []), t') \<and> isUnintentionalBurn t' \<and>
    list_all (\<lambda>u. ut_assets u = []) (t_outputs t') \<and> txType t' = txType t"
proof -
  have o: "opcode \<noteq> 0" "\<not> opcode < 16" using assms(2) by (auto simp: not_less)
  have k: "txType t1 = txType t" using decodeAssetTransfer_keeps[OF assms(6)] by simp
  have "decodeAssetTX chain tx t = (Inr (False, []), t1\<lparr>unintentionalBurn := True, t_outputs := map clear_assets (t_outputs t1)\<rparr>)"
    using assms o by (simp add: decodeAssetTX_def decodeTransfer_def Let_def)
  then show ?thesis using k by (simp add: isUnintentionalBurn_def list_all_iff clear_assets_def)
qed

subsection \<open>Royalties\<close>

definition royalty_owed :: "nat \<Rightarrow> nat \<Rightarrow> nat \<Rightarrow> nat" where
  "royalty_owed count amount rate = count * amount * rate div 10 ^ 8"

lemma royalty_exact:
  assumes "unat count * unat (ry_amount ry) * unat rate < 2 ^ 64" "0 < royalty_owed (unat count) (unat (ry_amount ry)) (unat rate)"
  shows "royalty_paid count rate outs ry \<longleftrightarrow>
    (\<exists>u\<in>set outs. ut_address u = ry_address ry \<and>
       royalty_owed (unat count) (unat (ry_amount ry)) (unat rate) - 1 \<le> unat (digibyte u))"
proof -
  let ?p = "count * ry_amount ry * rate"
  have p: "unat ?p = unat count * unat (ry_amount ry) * unat rate"
    using assms(1) by (simp add: unat_word_ariths mod_mult_left_eq)
  have d: "unat (?p div 100000000) = royalty_owed (unat count) (unat (ry_amount ry)) (unat rate)"
    by (simp add: unat_div p royalty_owed_def)
  have "1 \<le> ?p div 100000000" using assms(2) d by (simp add: word_le_nat_alt)
  then have "unat (?p div 100000000 - 1) = royalty_owed (unat count) (unat (ry_amount ry)) (unat rate) - 1"
    using d by (simp add: unat_sub)
  then show ?thesis by (auto simp: royalty_paid_def Let_def list_ex_iff word_le_nat_alt)
qed

end
