(* ===== verification/IssuancePayload.thy ===== *)
theory IssuancePayload
  imports TransferRoundTrip AssetId
begin

text \<open>
  The payload of an issuance: what \<open>encodeAssetOpReturn\<close> writes for a new asset, section by section.
\<close>

unbundle bit_operations_syntax

subsection \<open>A stream is its bits\<close>

lemma holds_unique:
  assumes "holds a bl" "holds b bl"
  shows "a = b"
proof -
  have bl: "blength a = length bl" "blength b = length bl" using assms by (auto simp: holds_def dest: arg_cong[of _ _ length])
  then have len: "length (bits a) = length (bits b)" using assms by (simp add: holds_def bitio_inv_def)
  have lb: "long_bit (bits a) i = long_bit (bits b) i" if "i < 64 * length (bits a)" for i
  proof (cases "i < length bl")
    case True
    then show ?thesis using nth_to_bits[of i a] nth_to_bits[of i b] assms bl by (simp add: holds_def)
  next
    case False
    then show ?thesis using assms bl len that by (auto simp: holds_def bitio_inv_def list_all_iff)
  qed
  have "bits a = bits b"
  proof (rule nth_equalityI[OF len])
    fix q assume q: "q < length (bits a)"
    show "bits a ! q = bits b ! q"
    proof (rule bit_word_eqI)
      fix n assume "n < LENGTH(64)"
      then have n: "n < 64" by simp
      have "64 * q + (63 - n) < 64 * length (bits a)" using q n by linarith
      from lb[OF this] show "bit (bits a ! q) n = bit (bits b ! q) n"
        using n long_bit_add[of "63 - n" _ q] by simp
    qed
  qed
  then show ?thesis using assms bl by (simp add: holds_def)
qed

lemma tolower_idem_hex: "tolower c \<in> set BITIO_CHARSET_HEX \<Longrightarrow> tolower (tolower c) = tolower c"
proof -
  have "list_all (\<lambda>c. tolower c = c) BITIO_CHARSET_HEX" by code_simp
  then show "tolower c \<in> set BITIO_CHARSET_HEX \<Longrightarrow> tolower (tolower c) = tolower c" by (simp add: list_all_iff)
qed

lemma hex_lower:
  assumes "hex_chars m"
  shows "hex_chars (map tolower m)" "hex_image (map tolower m) = hex_image m"
  using assms tolower_idem_hex by (auto simp: hex_chars_def hex_image_def image_subset_iff intro!: arg_cong[of _ _ fields_image])

text \<open>The metadata hash behind a CID: written from the CID, and turned back into it.\<close>

definition cid_of_hash :: "string \<Rightarrow> string \<Rightarrow> bool" where
  "cid_of_hash cid m \<longleftrightarrow> hex_chars m \<and> length m = 64 \<and> sha256ToCID_hex m = Inr cid"

lemma length_hex_image [simp]: "length (hex_image m) = 4 * length m"
  by (simp add: hex_image_def length_fields_image o_def sum_list_triv)

lemma cid_not_empty: "cid_of_hash cid m \<Longrightarrow> cid \<noteq> []"
  by (auto simp: cid_of_hash_def sha256ToCID_hex_def sha256ToCID_def elim!: bindE_E split: if_split_asm)

lemma cid_writes:
  assumes "cid_of_hash cid m"
  shows "writes (\<lambda>s. bindE (cidToSha256 cid) (\<lambda>h. bindE (makeHexString h) (\<lambda>h. appendBits_stream h s))) (hex_image m)"
proof -
  have m: "hex_chars m" "length m = 64" "sha256ToCID_hex m = Inr cid" using assms by (auto simp: cid_of_hash_def)
  have "cidToSha256 cid = Inr (map tolower m)" using cid_round_trip[OF m(1,2)] m(3) by simp
  moreover obtain b where "makeHexString (map tolower m) = Inr b" "holds b (hex_image m)"
    using makeHexString_holds[OF hex_lower(1)[OF m(1)]] hex_lower(2)[OF m(1)] by auto
  ultimately show ?thesis using writes_stream[of b] by (simp add: holds_def)
qed

lemma cid_reads:
  assumes "cid_of_hash cid m" "holds b (hex_image m)"
  shows "sha256ToCID (movePositionToBeginning b) = Inr cid" "getLength b = 256"
proof -
  obtain d where d: "makeHexString m = Inr d" "holds d (hex_image m)" "sha256ToCID d = Inr cid"
    using assms(1) makeHexString_holds[of m] by (auto simp: cid_of_hash_def sha256ToCID_hex_def)
  have "movePositionToBeginning b = b" using assms(2) by (simp add: holds_def movePositionToBeginning_def)
  then show "sha256ToCID (movePositionToBeginning b) = Inr cid" using d(3) holds_unique[OF d(2) assms(2)] by simp
  show "getLength b = 256" using assms by (auto simp: holds_def getLength_def cid_of_hash_def dest: arg_cong[of _ _ length])
qed

subsection \<open>The sections\<close>

definition issuance_code :: "DigiAsset \<Rightarrow> u64" where
  "issuance_code a =
     (if rules_empty (da_rules a) then (if da_cid a \<noteq> [] then 0x01 else 0x05)
      else if isRewritable (da_rules a) then 0x03 else 0x04)"

text \<open>An asset a wallet can issue; \<open>m\<close> are the hex digits of its metadata hash, if it has metadata.\<close>

definition issuable :: "DigiAsset \<Rightarrow> string \<Rightarrow> bool" where
  "issuable a m \<longleftrightarrow>
     (if da_cid a = [] then m = [] \<and> rules_empty (da_rules a) else cid_of_hash (da_cid a) m) \<and>
     (rules_empty (da_rules a) \<or> rules_encodable (da_cid a) (da_rules a)) \<and>
     fp_valid (da_count a) \<and> da_count a \<noteq> 0 \<and> divisibility a \<le> 7 \<and> aggregation a \<le> DISPERSED"

definition rules_section :: "DigiAsset \<Rightarrow> nat \<Rightarrow> bool list" where
  "rules_section a n = (if rules_empty (da_rules a) then [] else rules_image (da_rules a) n)"

definition issuance_header :: "DigiAsset \<Rightarrow> bool list" where
  "issuance_header a = val_bits 16 0x4441 @ val_bits 8 3 @ val_bits 8 (issuance_code a)"

definition issuance_front :: "DigiAsset \<Rightarrow> string \<Rightarrow> nat \<Rightarrow> bool list" where
  "issuance_front a m n = hex_image m @ fp_bits (da_count a) @ rules_section a n"

definition flag_bits :: "DigiAsset \<Rightarrow> bool list" where
  "flag_bits a = val_bits 8 (ucast (getIssuanceFlags a))"

lemma length_issuance_header [simp]: "length (issuance_header a) = 32"
  by (simp add: issuance_header_def)

lemma length_flag_bits [simp]: "length (flag_bits a) = 8"
  by (simp add: flag_bits_def)

lemma issuance_code_ok: "field_ok 8 (issuance_code a)" "issuance_code a \<noteq> 0" "issuance_code a < 16" "issuance_code a \<noteq> 2"
  by (simp_all add: issuance_code_def field_ok_def fits_def)

lemma front_aligned: "issuable a m \<Longrightarrow> 8 dvd length (issuance_front a m n)"
  using fp_bits_aligned[of "da_count a"] rules_image_aligned[of "da_rules a" n]
  by (auto simp: issuance_front_def rules_section_def issuable_def cid_of_hash_def intro!: dvd_add split: if_split_asm)

lemma metadata_writes:
  assumes "issuable a m"
  shows "writes (\<lambda>s. if da_cid a \<noteq> [] then bindE (cidToSha256 (da_cid a)) (\<lambda>h. bindE (makeHexString h) (\<lambda>h. appendBits_stream h s))
    else Inr s) (hex_image m)"
  using assms cid_writes[of "da_cid a" m] by (cases "da_cid a = []") (auto simp: issuable_def hex_image_def)

text \<open>Where the rules find their outputs: from \<open>n\<close> on, below the largest output number the format has.\<close>

definition rule_room :: "DigiAsset \<Rightarrow> nat \<Rightarrow> bool" where
  "rule_room a n \<longleftrightarrow> rules_empty (da_rules a) \<or>
     n + length (signers (da_rules a)) + length (royalties (da_rules a)) + length (voteOptions (da_rules a)) < max_output"

lemma rules_append:
  assumes "issuable a m" "bitio_inv s" "blength s mod 8 = 0"
    and "rule_room a n"
  shows "\<exists>s'. (if rules_empty (da_rules a) then Inr s else encode (da_rules a) (of_nat n) s) = Inr s' \<and>
    appended s (rules_section a n) s'"
proof (cases "rules_empty (da_rules a)")
  case True
  then show ?thesis using assms(2) by (simp add: rules_section_def appended_def)
next
  case False
  then show ?thesis using encode_image[OF _ _ assms(2,3), of "da_cid a" "da_rules a" n] assms(1,4)
    by (simp add: issuable_def rules_section_def rule_room_def)
qed

lemma issuance_opcode_code:
  assumes "issuance_opcode t = Inr c"
  shows "c = issuance_code (newAsset t)"
  using assms by (auto simp: issuance_opcode_def issuance_code_def Let_def split: if_split_asm)

subsection \<open>The whole payload\<close>

lemma encoded_issuance:
  assumes enc: "encodeAssetOpReturn t = Inr hex" and ty: "txType t = DIGIASSET_ISSUANCE" and bn: "t_burns t = []"
    and ok: "issuable (newAsset t) m" "rule_room (newAsset t) (ruleOutputsStart t)"
  shows "\<exists>ps gs. hex_image hex = issuance_header (newAsset t) @ issuance_front (newAsset t) m (ruleOutputsStart t) @
      plan_bits ps @ flag_bits (newAsset t) \<and>
    follow ps [newAsset t] = Some (gs, []) \<and> plan_ok DIGIASSET_ISSUANCE (length (t_outputs t)) ps \<and>
    (\<forall>i k. k < length (t_outputs t) \<longrightarrow> gift_sum DIGIASSET_ISSUANCE k i gs = asset_sum i (ut_assets (t_outputs t ! k))) \<and>
    (\<forall>k<length (t_outputs t). ut_assets (t_outputs t ! k) = [] \<longrightarrow> (\<forall>g\<in>set gs. fst g \<noteq> k))"
proof -
  let ?a = "newAsset t" and ?n = "ruleOutputsStart t"
  obtain c s1 s2 s3 s4 s5 s6 s7 s8 x where s: "appendBits 0x4441 16 BitIO_empty = Inr s1" "appendBits 3 8 s1 = Inr s2"
    "issuance_opcode t = Inr c" "appendBits c 8 s2 = Inr s3"
    "(if da_cid ?a \<noteq> [] then bindE (cidToSha256 (da_cid ?a)) (\<lambda>h. bindE (makeHexString h) (\<lambda>h. appendBits_stream h s3)) else Inr s3) = Inr s4"
    "appendFixedPrecision (getCount ?a) s4 = Inr s5"
    "(if rules_empty (da_rules ?a) then Inr s5 else encode (da_rules ?a) (of_nat ?n) s5) = Inr s6"
    "buildTransferInstructions t s6 = Inr s7" "appendBits (ucast (getIssuanceFlags ?a)) 8 s7 = Inr s8"
    "getHexString (getLength s8 div 4) (movePositionToBeginning s8) = Inr (hex, x)"
    using enc ty by (auto simp: encodeAssetOpReturn_def encode_issuance_def elim!: bindE_E simp del: if_split_asm split del: if_split)
  have e: "bitio_inv BitIO_empty" "to_bits BitIO_empty = []" by (code_simp, code_simp)
  have c: "c = issuance_code ?a" by (rule issuance_opcode_code[OF s(3)])
  have "writes (\<lambda>s. bindE (appendBits 0x4441 16 s) (\<lambda>s. bindE (appendBits 3 8 s) (appendBits c 8))) (issuance_header ?a)"
    unfolding issuance_header_def c by (intro writes_bind writes_bits issuance_code_ok) (simp_all add: field_ok_def fits_def)
  then have a3: "appended BitIO_empty (issuance_header ?a) s3" using writesD[OF _ e(1)] s(1,2,4) by fastforce
  have a4: "appended s3 (hex_image m) s4" by (rule writes_got[OF metadata_writes[OF ok(1)] s(5) appended_inv[OF a3]])
  have "fp_valid (da_count ?a)" using ok(1) by (simp add: issuable_def)
  then have a5: "appended s4 (fp_bits (da_count ?a)) s5"
    using writes_got[OF writes_fp s(6)[unfolded getCount_def] appended_inv[OF a4]] by simp
  have "8 dvd length (fp_bits (da_count ?a))" using ok(1) by (intro fp_bits_aligned) (simp add: issuable_def)
  moreover have "8 dvd length (hex_image m)" using ok(1) by (auto simp: issuable_def cid_of_hash_def split: if_split_asm)
  moreover have "blength s5 = 32 + length (hex_image m) + length (fp_bits (da_count ?a))"
    using appended_length[OF a3] appended_length[OF a4] appended_length[OF a5] by (simp add: BitIO_empty_def)
  ultimately have "8 dvd blength s5" by (simp del: length_to_bits length_hex_image)
  then have "blength s5 mod 8 = 0" by (rule dvd_imp_mod_0)
  then have a6: "appended s5 (rules_section ?a ?n) s6"
    using rules_append[OF ok(1) appended_inv[OF a5] _ ok(2)] s(7) by fastforce
  have "\<forall>c\<in>set (concat (transfer_inputs t)). da_count c \<noteq> 0" using ok(1) ty by (simp add: transfer_inputs_def issuable_def)
  from buildTransferInstructions_plan[OF s(8) appended_inv[OF a6] _ this] bn obtain ps gs where p: "appended s6 (plan_bits ps) s7"
    "follow ps (concat (transfer_inputs t)) = Some (gs, [])" "plan_ok (txType t) (length (t_outputs t)) ps"
    "\<forall>i k. k < length (t_outputs t) \<longrightarrow> gift_sum (txType t) k i gs = asset_sum i (ut_assets (t_outputs t ! k))"
    "\<forall>k<length (t_outputs t). ut_assets (t_outputs t ! k) = [] \<longrightarrow>
       (\<forall>g\<in>set gs. fst g = k \<longrightarrow> txType t = DIGIASSET_BURN \<and> k = 31)"
    by blast
  have "field_ok 8 (ucast (getIssuanceFlags ?a) :: u64)"
    using unat_byte[of "getIssuanceFlags ?a"] by (simp add: field_ok_def fits_def)
  then have a8: "appended s7 (flag_bits ?a) s8" unfolding flag_bits_def by (rule writes_got[OF writes_bits s(9) appended_inv[OF p(1)]])
  have tb: "to_bits s8 = issuance_header ?a @ issuance_front ?a m ?n @ plan_bits ps @ flag_bits ?a" "bitio_inv s8"
    using a3 a4 a5 a6 p(1) a8 e(2) by (simp_all add: appended_def issuance_front_def)
  have "8 dvd length (to_bits s8)"
    using front_aligned[OF ok(1), of ?n] plan_bits_aligned[OF p(3)] unfolding tb(1) by (simp add: dvd_add)
  then have "4 dvd blength s8" by (simp add: dvd_trans[of 4 8])
  then have "4 * (getLength s8 div 4) = blength s8" by (simp add: getLength_def)
  moreover have "rest_bits (movePositionToBeginning s8) = to_bits s8" "bitio_inv (movePositionToBeginning s8)"
    using tb(2) by (simp_all add: movePositionToBeginning_def rest_bits_def)
  ultimately have "hex_image hex = to_bits s8" using getHexString_digits[OF s(10)] by simp
  moreover have "\<forall>k<length (t_outputs t). ut_assets (t_outputs t ! k) = [] \<longrightarrow> (\<forall>g\<in>set gs. fst g \<noteq> k)"
    using p(5) ty by (auto simp: tx_type_defs)
  ultimately show ?thesis using p ty tb(1) by (auto simp: transfer_inputs_def)
qed

end
