(* ===== verification/IssuanceRoundTrip.thy ===== *)
theory IssuanceRoundTrip
  imports IssuancePayload AssetLaws
begin

text \<open>
  An issuance read back from the chain: the asset the decoder builds is the asset that was issued, and
  the outputs receive what they were assigned.
\<close>

unbundle bit_operations_syntax

subsection \<open>The asset\<close>

text \<open>What the node answers for the first issuance of an asset: its identifier is new, or without rules.\<close>

definition fresh_issuer :: "Node \<Rightarrow> getrawtransaction_t \<Rightarrow> u32 \<Rightarrow> DigiAsset \<Rightarrow> string \<Rightarrow> KYC \<Rightarrow> bool" where
  "fresh_issuer node tx height a aid kyc \<longleftrightarrow>
     tx_vin tx \<noteq> [] \<and> calculateAssetId (da_locked a) (hd (tx_vin tx)) (getIssuanceFlags a) = Inr aid \<and>
     (\<not> da_locked a \<and> isAggregable a \<longrightarrow>
        (case getAssetHeightCreated node aid height 0 of Inl _ \<Rightarrow> False | Inr _ \<Rightarrow> True) \<and>
        (case getRules node aid of Inl _ \<Rightarrow> False | Inr old \<Rightarrow> rules_empty old)) \<and>
     (case getSendingAddress node (vin_txid (hd (tx_vin tx))) (vin_n (hd (tx_vin tx))) of
        Inl _ \<Rightarrow> False | Inr sender \<Rightarrow> getAddressKYC node sender = Inr kyc)"

text \<open>The asset the chain records for the issued asset \<open>a\<close>.\<close>

definition recorded :: "DigiAsset \<Rightarrow> string \<Rightarrow> KYC \<Rightarrow> DigiAsset \<Rightarrow> bool" where
  "recorded a aid kyc b \<longleftrightarrow>
     assetId b = aid \<and> da_cid b = da_cid a \<and> da_count b = da_count a \<and> divisibility b = divisibility a \<and>
     da_locked b = da_locked a \<and> aggregation b = aggregation a \<and> issuer b = kyc \<and>
     da_rules b = (if rules_empty (da_rules a) then DigiAssetRules_default else da_rules a)"

lemma metadata_reads:
  assumes "issuable a m" "ahead s (hex_image m)"
  shows "\<exists>h. issuance_metadata tx (ucast (issuance_code a)) s = Inr (h, skip_bits (length (hex_image m)) s) \<and>
    (if getLength h = 256 then sha256ToCID (movePositionToBeginning h) else Inr []) = Inr (da_cid a)"
proof (cases "da_cid a = []")
  case True
  then have "m = []" "issuance_code a = 5" using assms(1) by (auto simp: issuable_def issuance_code_def)
  then show ?thesis using True
    by (simp add: issuance_metadata_def hex_image_def getLength_def BitIO_empty_def)
next
  case False
  then have m: "cid_of_hash (da_cid a) m" using assms(1) by (simp add: issuable_def)
  then have l: "length (hex_image m) = 256" by (simp add: cid_of_hash_def)
  have c: "issuance_code a = 1 \<or> issuance_code a = 3 \<or> issuance_code a = 4" using False by (simp add: issuance_code_def)
  obtain r where r: "copyBits 256 s = Inr (r, skip_bits 256 s)" "holds r (hex_image m)"
    using copyBits_ahead[OF assms(2)] unfolding l by blast
  have "issuance_metadata tx (ucast (issuance_code a)) s = Inr (r, skip_bits 256 s)"
    using c r(1) by (auto simp: issuance_metadata_def)
  then show ?thesis unfolding l using cid_reads[OF m r(2)] by simp
qed

lemma rules_read:
  assumes ok: "issuable a m" "rule_room a n" and al: "position s mod 8 = 0" and a: "ahead s (rules_section a n)"
    and out: "rules_empty (da_rules a) \<or> outputs_at (tx_vout tx) n (required_outputs (da_rules a))"
  shows "DigiAssetRules_decode tx s (da_cid a) (ucast (issuance_code a)) =
    Inr ((if rules_empty (da_rules a) then DigiAssetRules_default else da_rules a,
      skip_bits (length (rules_section a n)) s), [])"
proof (cases "rules_empty (da_rules a)")
  case True
  then show ?thesis by (simp add: DigiAssetRules_decode_def issuance_code_def rules_section_def)
next
  case False
  then have "rules_encodable (da_cid a) (da_rules a)" using ok(1) by (simp add: issuable_def)
  moreover have "ucast (issuance_code a) = (if rewritable (da_rules a) then 3 else 4 :: u8)"
    using False by (simp add: issuance_code_def isRewritable_def)
  ultimately show ?thesis
    using decode_image[of "da_cid a" "da_rules a" n tx s] False ok(2) al a out
    by (simp add: rule_room_def rules_section_def)
qed

lemma issuance_body_reads:
  assumes ok: "issuable a m" "rule_room a n" and fr: "fresh_issuer node tx height a aid kyc"
    and a: "ahead s (issuance_front a m n @ rest @ flag_bits a)"
    and len: "blength s = position s + length (issuance_front a m n @ rest @ flag_bits a)" and al: "position s mod 8 = 0"
    and out: "rules_empty (da_rules a) \<or> outputs_at (tx_vout tx) n (required_outputs (da_rules a))"
  shows "\<exists>b. issuance_body node tx height 3 (ucast (issuance_code a)) s =
      Inr (Some (b, skip_bits (length (issuance_front a m n)) s, [])) \<and> recorded a aid kyc b"
proof -
  let ?op = "ucast (issuance_code a) :: u8" and ?L = "length (issuance_front a m n)"
  let ?f = "getIssuanceFlags a"
  define s1 s2 where "s1 = skip_bits (length (hex_image m)) s" and "s2 = skip_bits (length (fp_bits (da_count a))) s1"
  note front = a[unfolded issuance_front_def append_assoc]
  have h0: "ahead s (hex_image m)" and h1: "ahead s1 (fp_bits (da_count a))" and h2: "ahead s2 (rules_section a n)"
    using front by (simp_all only: ahead_append_iff s1_def s2_def)
  have fl: "ahead (skip_bits (?L + length rest) s) (flag_bits a)" using a by (simp add: ahead_append_iff)
  obtain h where h: "issuance_metadata tx ?op s = Inr (h, s1)"
      "(if getLength h = 256 then sha256ToCID (movePositionToBeginning h) else Inr []) = Inr (da_cid a)"
    using metadata_reads[OF ok(1) h0] unfolding s1_def by blast
  have cnt: "getFixedPrecision s1 = Inr (da_count a, s2)"
    using readsD[OF reads_fp h1] ok(1) by (simp add: issuable_def s2_def)
  have ps2: "position s2 + length (rules_section a n) + length rest + 8 = blength s" "blength s2 = blength s"
    using len by (simp_all add: s1_def s2_def issuance_front_def)
  then have ln: "8 \<le> getLength s2" "\<not> getLength s2 - 8 < getPosition s2" "getLength s2 - 8 \<le> blength s2"
    by (simp_all add: getLength_def getPosition_def)
  have mv: "movePositionTo s2 (getLength s2 - 8) = Inr (skip_bits (?L + length rest) s)"
  proof -
    have "getLength s2 - 8 = position s + ?L + length rest" using ps2 by (simp add: getLength_def len)
    then show ?thesis using ln(3) ps2(2) by (simp add: movePositionTo_def checkPosition_def s2_def s1_def skip_bits_def)
  qed
  have ff: "field_ok 8 (ucast ?f :: u64)" using unat_byte[of ?f] by (simp add: field_ok_def fits_def)
  have gf: "getBits 8 (skip_bits (?L + length rest) s) = Inr (ucast ?f, skip_bits (?L + length rest + 8) s)"
    using ahead_get[OF fl[unfolded flag_bits_def] ff] by simp
  have mb: "movePositionTo (skip_bits (?L + length rest + 8) s) (getPosition s2) = Inr s2"
    using ps2 by (simp add: movePositionTo_def checkPosition_def getPosition_def s2_def s1_def skip_bits_def)
  have dv: "divisibility a \<le> 7" "aggregation a \<le> DISPERSED" using ok(1) by (simp_all add: issuable_def)
  note fs = issuance_flags[OF dv]
  have fs1: "(0 < ?f AND 0x10) = da_locked a" using fs(1) by (simp add: word_neq_0_conv)
  have g3: "aggregation a \<noteq> 3" using dv(2) by (auto simp: DISPERSED_def)
  have cl: "da_count a \<noteq> 0" "\<not> 18014398509481983 < da_count a"
    using ok(1) by (auto simp: issuable_def fp_valid_def)
  have s2al: "position s2 mod 8 = 0"
  proof -
    have "8 dvd length (hex_image m) + length (fp_bits (da_count a))"
      using ok(1) fp_bits_aligned[of "da_count a"] by (auto simp: issuable_def cid_of_hash_def split: if_split_asm)
    then show ?thesis using al by (simp add: s1_def s2_def mod_eq_0_iff_dvd)
  qed
  define R where "R = (if rules_empty (da_rules a) then DigiAssetRules_default else da_rules a)"
  have rl: "DigiAssetRules_decode tx s2 (da_cid a) ?op = Inr ((R, skip_bits ?L s), [])"
    using rules_read[OF ok s2al h2 out] by (simp add: R_def s1_def s2_def issuance_front_def)
  obtain v vs where v: "tx_vin tx = v # vs" using fr by (cases "tx_vin tx") (auto simp: fresh_issuer_def)
  have id: "calculateAssetId (da_locked a) v ?f = Inr aid" using fr v by (simp add: fresh_issuer_def)
  obtain sender where sd: "getSendingAddress node (vin_txid v) (vin_n v) = Inr sender" "getAddressKYC node sender = Inr kyc"
    using fr v by (auto simp: fresh_issuer_def split: sum.split_asm)
  obtain hc ix where hc: "\<not> da_locked a \<and> isAggregable a \<Longrightarrow> getAssetHeightCreated node aid height 0 = Inr (hc, ix)"
    using fr by (cases "getAssetHeightCreated node aid height 0") (auto simp: fresh_issuer_def)
  obtain old where old: "\<not> da_locked a \<and> isAggregable a \<Longrightarrow> getRules node aid = Inr old \<and> rules_empty old"
    using fr by (cases "getRules node aid") (auto simp: fresh_issuer_def)
  define b0 where "b0 = DigiAsset_default\<lparr>existingAsset := True, da_heightCreated := height, heightUpdated := height,
    da_cid := da_cid a, da_count := da_count a, divisibility := divisibility a, da_locked := da_locked a,
    aggregation := aggregation a, da_rules := R, assetId := aid\<rparr>"
  define b1 where "b1 = (if \<not> da_locked a \<and> isAggregable a then b0\<lparr>da_heightCreated := hc, assetIndex := ix\<rparr> else b0)"
  have z: "assetIndex DigiAsset_default = 0" by (simp add: DigiAsset_default_def)
  have keep: "handleRulesConflict node b1 = Inr b1"
    using old by (auto simp: handleRulesConflict_def b1_def isAggregable_def b0_def)
  have "issuance_body node tx height 3 ?op s = Inr (Some (b1\<lparr>issuer := kyc\<rparr>, skip_bits ?L s, []))"
    using h(1) cnt mv gf mb v id sd keep ln(1) fs(2,3) fs1 g3
    by (cases "da_locked a"; cases "aggregation a = AGGREGABLE")
      (simp_all add: hc z b1_def b0_def issuance_body_def Let_def h(2) vec_get_def ln(2) cl rl isAggregable_def split del: if_split)
  moreover have "recorded a aid kyc (b1\<lparr>issuer := kyc\<rparr>)"
    by (simp add: recorded_def b1_def b0_def R_def)
  ultimately show ?thesis by blast
qed

subsection \<open>A plan does not depend on the asset it moves\<close>

lemma follow_nothing: "follow ps [] = Some (gs, ds) \<Longrightarrow> ps = [] \<and> gs = [] \<and> ds = []"
  by (cases ps) auto

lemma follow_rename:
  "follow ps [c] = Some (gs, []) \<Longrightarrow> da_count c' = da_count c \<Longrightarrow>
     \<exists>gs'. follow ps [c'] = Some (gs', []) \<and> map fst gs' = map fst gs \<and>
       (\<forall>type k. gift_sum type k (assetIndex c') gs' = gift_sum type k (assetIndex c) gs)"
proof (induction ps arbitrary: c c' gs)
  case (Cons p ps)
  obtain out n where p: "p = (out, n)" by (cases p)
  have n: "\<not> (n = 0 \<or> da_count c < n)" using Cons.prems(1) p by (auto split: if_split_asm)
  show ?case
  proof (cases "n = da_count c")
    case True
    then have "follow ps [] = Some (tl gs, [])" "gs = (out, c\<lparr>da_count := n\<rparr>) # tl gs"
      using Cons.prems(1) p n by auto
    then have "ps = []" "gs = [(out, c\<lparr>da_count := n\<rparr>)]" using follow_nothing by metis+
    then show ?thesis using True p n Cons.prems(2) by simp
  next
    case False
    then obtain hs where h: "follow ps [c\<lparr>da_count := da_count c - n\<rparr>] = Some (hs, [])" "gs = (out, c\<lparr>da_count := n\<rparr>) # hs"
      using Cons.prems(1) p n by auto
    obtain hs' where "follow ps [c'\<lparr>da_count := da_count c - n\<rparr>] = Some (hs', [])"
      "map fst hs' = map fst hs" "\<forall>type k. gift_sum type k (assetIndex c') hs' = gift_sum type k (assetIndex c) hs"
      using Cons.IH[OF h(1), of "c'\<lparr>da_count := da_count c - n\<rparr>"] by auto
    then show ?thesis using False p n h(2) Cons.prems(2) by auto
  qed
qed simp

subsection \<open>The transaction\<close>

text \<open>\<open>u\<close> is the transaction as loaded: no assets on its inputs, and the outputs of \<open>t\<close> first.\<close>

definition loaded_issuance :: "DigiByteTransaction \<Rightarrow> DigiByteTransaction \<Rightarrow> bool" where
  "loaded_issuance t u \<longleftrightarrow>
     \<not> assetFound u \<and> \<not> unintentionalBurn u \<and> length (t_outputs t) \<le> length (t_outputs u) \<and>
     (\<forall>k<length (t_outputs t). ut_address (t_outputs u ! k) = ut_address (t_outputs t ! k)) \<and>
     list_all (\<lambda>o'. ut_assets o' = []) (t_outputs u)"

lemma gifts_addressed:
  "list_all (\<lambda>u. ut_address u = [] \<longrightarrow> ut_assets u = []) outs \<Longrightarrow>
     \<forall>g\<in>set gs. fst g < length outs \<and> ut_address (outs ! fst g) \<noteq> [] \<Longrightarrow>
     list_all (\<lambda>u. ut_address u = [] \<longrightarrow> ut_assets u = []) (give_all type gs outs)"
proof (induction type gs outs rule: give_all.induct)
  case (2 type out a gs outs)
  let ?o = "if type = DIGIASSET_BURN \<and> out = 31 then outs else outs[out := put_asset a (outs ! out)]"
  have ad: "ut_address (?o ! k) = ut_address (outs ! k)" if "k < length outs" for k
    using that by (cases "k = out") (simp_all add: put_asset_address)
  have "list_all (\<lambda>u. ut_address u = [] \<longrightarrow> ut_assets u = []) ?o"
    using 2(2,3) by (auto simp: list_all_length nth_list_update)
  moreover have "\<forall>g\<in>set gs. fst g < length ?o \<and> ut_address (?o ! fst g) \<noteq> []"
    using 2(3) ad by auto
  ultimately show ?case using 2(1) by simp
qed simp

lemma decode_encoded_issuance:
  assumes enc: "encodeAssetOpReturn t = Inr hex" and ty: "txType t = DIGIASSET_ISSUANCE" and bn: "t_burns t = []"
    and ok: "issuable (newAsset t) m" "rule_room (newAsset t) (ruleOutputsStart t)"
    and adr: "\<forall>v\<in>set (t_outputs t). ut_assets v \<noteq> [] \<longrightarrow> ut_address v \<noteq> []"
    and dat: "asset_data tx (hex_image hex)" and ld: "loaded_issuance t u"
    and out: "rules_empty (da_rules (newAsset t)) \<or>
      outputs_at (tx_vout tx) (ruleOutputsStart t) (required_outputs (da_rules (newAsset t)))"
    and fr: "fresh_issuer (ch_node chain) tx (t_height u) (newAsset t) aid kyc"
  shows "\<exists>u'. decodeAssetTX chain tx u = (Inr (True, []), u') \<and> txType u' = DIGIASSET_ISSUANCE \<and> \<not> unintentionalBurn u' \<and>
    recorded (newAsset t) aid kyc (newAsset u') \<and> length (t_outputs u') = length (t_outputs u) \<and>
    (\<forall>k<length (t_outputs u). asset_sum (assetIndex (newAsset u')) (ut_assets (t_outputs u' ! k)) =
       (if k < length (t_outputs t) then asset_sum (assetIndex (newAsset t)) (ut_assets (t_outputs t ! k)) else 0))"
proof -
  let ?a = "newAsset t" and ?ty = "DIGIASSET_ISSUANCE"
  obtain ps gs where p: "hex_image hex = issuance_header ?a @ issuance_front ?a m (ruleOutputsStart t) @ plan_bits ps @ flag_bits ?a"
    "follow ps [?a] = Some (gs, [])" "plan_ok ?ty (length (t_outputs t)) ps"
    "\<forall>i k. k < length (t_outputs t) \<longrightarrow> gift_sum ?ty k i gs = asset_sum i (ut_assets (t_outputs t ! k))"
    "\<forall>k<length (t_outputs t). ut_assets (t_outputs t ! k) = [] \<longrightarrow> (\<forall>g\<in>set gs. fst g \<noteq> k)"
    using encoded_issuance[OF enc ty bn ok] by blast
  let ?L = "length (issuance_front ?a m (ruleOutputsStart t))"
  obtain s where s: "decodeAssetTxHeader tx = Inr (3, ucast (issuance_code ?a), s)"
    "ahead s (issuance_front ?a m (ruleOutputsStart t) @ plan_bits ps @ flag_bits ?a)"
    "blength s = position s + length (issuance_front ?a m (ruleOutputsStart t) @ plan_bits ps @ flag_bits ?a)" "position s = 32"
    using decodeAssetTxHeader_payload[OF _ issuance_code_ok(1), of tx ?a] dat
    unfolding p(1) issuance_header_def append_assoc by blast
  obtain b where b: "issuance_body (ch_node chain) tx (t_height u) 3 (ucast (issuance_code ?a)) s = Inr (Some (b, skip_bits ?L s, []))"
    "recorded ?a aid kyc b"
    using issuance_body_reads[OF ok fr s(2,3) _ out] s(4) by auto
  then have made: "DigiAsset_of_tx (ch_node chain) tx (t_height u) 3 (ucast (issuance_code ?a)) s = Inr (b, skip_bits ?L s, [])"
    by (simp add: DigiAsset_of_tx_def processIssuance_def catch_out_of_range_def)
  have cnt: "da_count b = da_count ?a" using b(2) by (simp add: recorded_def)
  obtain hs where h: "follow ps [b] = Some (hs, [])" "map fst hs = map fst gs"
    "\<forall>type k. gift_sum type k (assetIndex b) hs = gift_sum type k (assetIndex ?a) gs"
    using follow_rename[OF p(2) cnt] by auto
  have fh: "fst ` set hs = fst ` set gs" using h(2) by (metis list.set_map)
  have gk: "fst g < length (t_outputs t) \<and> ut_assets (t_outputs t ! fst g) \<noteq> []" if "g \<in> set hs" for g
  proof -
    have "fst g \<in> fst ` set gs" "fst g \<in> fst ` set ps" using that fh follow_outputs[OF p(2)] by (metis image_eqI list.set_map)+
    then show ?thesis using p(3,5) by (fastforce simp: plan_ok_def tx_type_defs)
  qed
  define u1 where "u1 = u\<lparr>assetTransactionVersion := 3, newAsset := b\<rparr>"
  have len: "length (t_outputs t) \<le> length (t_outputs u1)" using ld by (simp add: loaded_issuance_def u1_def)
  have s': "ahead (skip_bits ?L s) (plan_bits ps @ flag_bits ?a)"
    "blength (skip_bits ?L s) = position (skip_bits ?L s) + length (plan_bits ps @ flag_bits ?a)"
    using s(2,3) by (simp_all add: ahead_append_iff)
  have ai: "asset_inputs [issuance_input b] = [[b]]" by (simp add: asset_inputs_def issuance_input_def)
  have cu: "cursor_at [[b]] 0 [b]" using asset_inputs_cursor[of "[issuance_input b]"] by (simp add: ai)
  obtain inputs' where l: "transfer_loop u1 ?ty [issuance_input b] (skip_bits ?L s) (([[b]], 0, True), t_outputs u1) =
      (Inr inputs', give_all ?ty hs (t_outputs u1))" "concat inputs' = []"
    using transfer_loop_follow[OF h(1) cu s' _ plan_ok_mono[OF p(3) len], of u1 "[issuance_input b]" True]
    by (auto simp: footerBitCount_def wasted_input_def)
  define u2 where "u2 = u1\<lparr>t_outputs := give_all ?ty hs (t_outputs u1)\<rparr>"
  have "list_all (\<lambda>o'. ut_address o' = [] \<longrightarrow> ut_assets o' = []) (give_all ?ty hs (t_outputs u1))"
  proof (rule gifts_addressed)
    show "\<forall>g\<in>set hs. fst g < length (t_outputs u1) \<and> ut_address (t_outputs u1 ! fst g) \<noteq> []"
      using gk adr ld len by (fastforce simp: loaded_issuance_def u1_def)
  qed (use ld in \<open>auto simp: loaded_issuance_def u1_def list_all_iff\<close>)
  then have cl: "clear_unaddressed u2 = u2" by (intro clear_unaddressed_id) (simp add: u2_def)
  have d2: "decodeAssetTransfer (ch_node chain) (skip_bits ?L s) [issuance_input b] ?ty u1 = (Inr (), u2)"
  proof -
    have "change_loop (concat inputs') outs = (Inr (), outs)" for outs unfolding l(2) by simp
    then show ?thesis using l(1) cl by (simp add: decodeAssetTransfer_def ai u2_def Let_def)
  qed
  have dec: "decodeAssetTX chain tx u = (Inr (True, []), u2\<lparr>txType := ?ty\<rparr>)"
  proof -
    have op: "(ucast (issuance_code ?a) :: u8) \<noteq> 0" "(ucast (issuance_code ?a) :: u8) < 16"
      by (simp_all add: issuance_code_def)
    show ?thesis using s(1) op made d2 ld
      by (simp add: decodeAssetTX_def decodeIssuance_def Let_def loaded_issuance_def u1_def)
  qed
  have "asset_sum (assetIndex b) (ut_assets (t_outputs u2 ! k)) =
      (if k < length (t_outputs t) then asset_sum (assetIndex ?a) (ut_assets (t_outputs t ! k)) else 0)"
    if k: "k < length (t_outputs u)" for k
  proof -
    have bare: "ut_assets (t_outputs u1 ! k) = []" using ld k by (simp add: loaded_issuance_def u1_def list_all_length)
    have k1: "k < length (t_outputs u1)" using k by (simp add: u1_def)
    have "asset_sum (assetIndex b) (ut_assets (t_outputs u2 ! k)) = gift_sum ?ty k (assetIndex b) hs"
      using give_all_sum[OF k1, of "assetIndex b" ?ty hs] bare by (simp add: u2_def)
    moreover have "gift_sum ?ty k (assetIndex b) hs = 0" if "\<not> k < length (t_outputs t)"
      using gk that by (intro gift_sum_other) blast
    ultimately show ?thesis using h(3) p(4) by simp
  qed
  then show ?thesis using dec b(2) ld
    by (intro exI[of _ "u2\<lparr>txType := ?ty\<rparr>"]) (simp add: u2_def u1_def loaded_issuance_def)
qed

end
