(* ===== verification/Samples.thy ===== *)
theory Samples
  imports TransactionMachine IssuanceRoundTrip
begin

text \<open>
  Concrete values at which the properties of transactions are witnessed: a node, a wallet's transfer of
  100 units to two outputs and an issuance of 1000 units, as built and as loaded from the chain.
\<close>

subsection \<open>A node\<close>

definition sample_node :: Node where
  "sample_node = \<lparr>getAssetHeightCreated = (\<lambda>_ h _. Inr (h, 0)), getRules = (\<lambda>_. Inr DigiAssetRules_default),
     getSendingAddress = (\<lambda>_ _. Inr ''S''), getAddressKYC = (\<lambda>_. Inr KYC_default),
     acceptedExchangeRate = (\<lambda>_ _. Inr 100000000), coreRawTransaction = None, lookupIndex = (\<lambda>_ _ _. Inr 1),
     originalAssetCount = (\<lambda>_. Inr 1), poolsAssetIsIn = (\<lambda>_. Inr []), badInPool = []\<rparr>"

definition sample_chain :: Chain where
  "sample_chain = \<lparr>ch_node = sample_node, getRawTransaction = (\<lambda>_. Inl (RuntimeError [])), getBlockHeight = (\<lambda>_. Inr 1),
     getAssetUTXO = (\<lambda>_ _ _. Inl (RuntimeError [])), isWatchAddress = (\<lambda>_. Inr False)\<rparr>"

subsection \<open>Transactions\<close>

definition asset_output :: "u16 \<Rightarrow> string \<Rightarrow> DigiAsset list \<Rightarrow> AssetUTXO" where
  "asset_output n adr as = \<lparr>ut_txid = [], ut_vout = n, ut_address = adr, digibyte = 10000, ut_assets = as\<rparr>"

definition data_output :: "nat \<Rightarrow> string \<Rightarrow> vout_t" where
  "data_output n hex = \<lparr>valueS = 0, out_n = n, spk_hex = hex, spk_type = ''nulldata'', spk_addresses = []\<rparr>"

definition pay_output :: "nat \<Rightarrow> string \<Rightarrow> vout_t" where
  "pay_output n adr = \<lparr>valueS = 10000, out_n = n, spk_hex = [], spk_type = ''pubkeyhash'', spk_addresses = [adr]\<rparr>"

definition sample_vin :: vin_t where
  "sample_vin = \<lparr>vin_txid = ''f'', vin_n = 0, scriptSig_hex = [], txinwitness = []\<rparr>"

definition chain_tx :: "string \<Rightarrow> getrawtransaction_t" where
  "chain_tx hex = \<lparr>tx_txid = ''x'', tx_version = 2, tx_vin = [sample_vin],
     tx_vout = [pay_output 0 ''A'', pay_output 1 ''B'', data_output 2 hex], tx_blockhash = [], tx_time = 0\<rparr>"

definition as_loaded :: "DigiByteTransaction \<Rightarrow> DigiByteTransaction" where
  "as_loaded t = (DigiByteTransaction_new 0)\<lparr>t_inputs := t_inputs t, assetFound := assetFound t,
     t_outputs := map clear_assets (t_outputs t) @ [asset_output 2 [] []]\<rparr>"

lemma carries_small:
  assumes "spk_type v = ''nulldata''" "hex_chars (spk_hex v)" "length bl = 8 * n" "0 < n" "n \<le> 75"
    and "hex_image (spk_hex v) = val_bits 8 106 @ val_bits 8 (of_nat n) @ bl"
  shows "carries v bl"
  using assms by (simp add: carries_def push_header_def)

subsection \<open>A transfer\<close>

definition sample_asset :: DigiAsset where
  "sample_asset = DigiAsset_default\<lparr>assetIndex := 7, da_count := 100\<rparr>"

definition sample_input :: AssetUTXO where
  "sample_input = \<lparr>ut_txid = ''t'', ut_vout = 0, ut_address = ''W'', digibyte = 600, ut_assets = [sample_asset]\<rparr>"

definition sample_transfer :: DigiByteTransaction where
  "sample_transfer = (DigiByteTransaction_new 0)\<lparr>t_inputs := [sample_input], assetFound := True, txType := DIGIASSET_TRANSFER,
     t_outputs := [asset_output 0 ''A'' [setCount 60 sample_asset], asset_output 1 ''B'' [setCount 40 sample_asset]]\<rparr>"

lemma sample_transfer_encoded: "encodeAssetOpReturn sample_transfer = Inr ''44410315002061012041''"
  by code_simp

lemma sample_transfer_data: "asset_data (chain_tx ''6a0a44410315002061012041'') (hex_image ''44410315002061012041'')"
proof -
  have "carries (data_output 2 ''6a0a44410315002061012041'') (hex_image ''44410315002061012041'')"
    by (rule carries_small[where n = 10]) (code_simp, code_simp, code_simp, simp, simp, code_simp)
  moreover have "header_output (chain_tx ''6a0a44410315002061012041'') = Some 2" by code_simp
  ultimately show ?thesis by (simp add: asset_data_def chain_tx_def)
qed

lemma sample_transfer_loaded: "loaded_from sample_transfer (as_loaded sample_transfer)"
  unfolding loaded_from_def
  by (simp add: as_loaded_def sample_transfer_def DigiByteTransaction_new_def clear_assets_def asset_output_def
      less_Suc_eq numeral_2_eq_2)

lemma sample_transfer_reachable: "reachable sample_transfer"
proof -
  let ?t0 = "DigiByteTransaction_new 0"
  let ?t1 = "?t0\<lparr>t_inputs := [sample_input], assetFound := True, txType := DIGIASSET_TRANSFER\<rparr>"
  let ?t2 = "?t1\<lparr>t_outputs := [asset_output 0 ''A'' [setCount 60 sample_asset]]\<rparr>"
  note defs = checkWritable_def isWritable_def sample_input_def DigiByteTransaction_new_def tx_type_defs
    addDigiAssetOutput_def addInput_def asset_output_def getCount_def setCount_def DIGIBYTE_DUST_def sample_transfer_def
  have "addInput sample_input ?t0 = Inr ?t1" by (simp add: defs)
  moreover have "addDigiAssetOutput ''A'' [setCount 60 sample_asset] ?t1 = Inr ?t2" by (simp add: defs)
  moreover have "addDigiAssetOutput ''B'' [setCount 40 sample_asset] ?t2 = Inr sample_transfer" by (simp add: defs)
  ultimately show ?thesis by (meson reachable.intros build_step.intros)
qed

subsection \<open>An issuance\<close>

definition new_asset :: DigiAsset where
  "new_asset = DigiAsset_default\<lparr>da_count := 1000, divisibility := 2, da_locked := True\<rparr>"

definition sample_issuance :: DigiByteTransaction where
  "sample_issuance = (DigiByteTransaction_new 0)\<lparr>newAsset := new_asset, txType := DIGIASSET_ISSUANCE,
     t_outputs := [asset_output 0 ''A'' [setCount 600 new_asset], asset_output 1 ''B'' [setCount 400 new_asset]]\<rparr>"

lemma sample_issuance_encoded: "encodeAssetOpReturn sample_issuance = Inr ''44410305201300206201204250''"
  by code_simp

lemma sample_issuance_data: "asset_data (chain_tx ''6a0d44410305201300206201204250'') (hex_image ''44410305201300206201204250'')"
proof -
  have "carries (data_output 2 ''6a0d44410305201300206201204250'') (hex_image ''44410305201300206201204250'')"
    by (rule carries_small[where n = 13]) (code_simp, code_simp, code_simp, simp, simp, code_simp)
  moreover have "header_output (chain_tx ''6a0d44410305201300206201204250'') = Some 2" by code_simp
  ultimately show ?thesis by (simp add: asset_data_def chain_tx_def)
qed

lemma sample_issuance_reachable: "reachable sample_issuance"
proof -
  let ?t0 = "DigiByteTransaction_new 0"
  let ?t1 = "?t0\<lparr>newAsset := new_asset, txType := DIGIASSET_ISSUANCE\<rparr>"
  let ?t2 = "?t1\<lparr>t_outputs := [asset_output 0 ''A'' [setCount 600 new_asset]]\<rparr>"
  note defs = checkWritable_def isWritable_def DigiByteTransaction_new_def tx_type_defs addDigiAssetOutput_def setIssuance_def
    asset_output_def getCount_def setCount_def DIGIBYTE_DUST_def sample_issuance_def
  have "setIssuance new_asset ?t0 = Inr ?t1" by (simp add: defs)
  moreover have "addDigiAssetOutput ''A'' [setCount 600 new_asset] ?t1 = Inr ?t2" by (simp add: defs)
  moreover have "addDigiAssetOutput ''B'' [setCount 400 new_asset] ?t2 = Inr sample_issuance" by (simp add: defs)
  ultimately show ?thesis by (meson reachable.intros build_step.intros)
qed

lemma sample_issuance_loaded: "loaded_issuance sample_issuance (as_loaded sample_issuance)"
  unfolding loaded_issuance_def
  by (simp add: as_loaded_def sample_issuance_def DigiByteTransaction_new_def clear_assets_def asset_output_def
      less_Suc_eq numeral_2_eq_2)

lemma sample_issuable: "issuable (newAsset sample_issuance) []" "rules_empty (da_rules (newAsset sample_issuance))"
  by (simp_all add: issuable_def sample_issuance_def new_asset_def DigiAsset_default_def DigiAssetRules_default_def
      rules_empty_def fp_valid_def DISPERSED_def)

text \<open>A locked asset always gets an identifier.\<close>

lemma calculateAssetId_locked: "\<exists>aid. calculateAssetId True vin f = Inr aid"
proof -
  define hd :: "16 word" where "hd = headerOptions ! unat (drop_bit 2 (f AND 0x1c))"
  define r :: "u8 list" where "r = (replicate 28 0)[0 := ucast (drop_bit 8 hd), 1 := ucast (hd AND 0xff)]"
  define d where "d = map char_to_u8 (vin_txid vin @ '':'' @ to_string (vin_n vin))"
  have i: "insertSRHash d r 2 = Inr (take 2 r @ ripemd160 (sha256 d) @ drop 22 r)"
    using insertSRHash_ok[of 2 r d] by (simp add: r_def)
  define b where "b = (take 2 r @ ripemd160 (sha256 d) @ drop 22 r)[22 := 0, 23 := drop_bit 5 f]"
  have l: "length b = 28" by (simp add: b_def r_def)
  define c where "c = take 24 b @ map ((!) (sha256 (sha256 (take 24 b)))) [0..<4] @ drop 28 b"
  have "assetIdCheck b = Inr c"
    using foldE_vec_set[of 24 4 b "(!) (sha256 (sha256 (take 24 b)))"] l
    by (simp add: assetIdCheck_def Let_def c_def add.commute[of _ "24::nat"])
  moreover have "c \<noteq> []" using l by (auto simp: c_def)
  ultimately show ?thesis using i base58_encode_ok[of c]
    unfolding calculateAssetId_def insertSRHash_string_def d_def[symmetric] Let_def hd_def[symmetric] r_def[symmetric]
    by (auto simp: b_def)
qed

lemma sample_issuer:
  "\<exists>aid. fresh_issuer (ch_node sample_chain) (chain_tx hex) 0 (newAsset sample_issuance) aid KYC_default"
  using calculateAssetId_locked[of sample_vin "getIssuanceFlags (newAsset sample_issuance)"]
  by (auto simp: fresh_issuer_def sample_chain_def sample_node_def chain_tx_def sample_issuance_def new_asset_def)

subsection \<open>An asset with rules\<close>

text \<open>A signer, a royalty of 5 satoshi and a deflation of 10 units: 100 units become 60 and 30.\<close>

definition ruled_asset :: DigiAsset where
  "ruled_asset = sample_asset\<lparr>da_rules := DigiAssetRules_default\<lparr>noRules := False, signersRequired := 1,
     signers := [\<lparr>sg_address = ''W'', sg_weight = 1\<rparr>], royalties := [\<lparr>ry_address = ''R'', ry_amount = 5\<rparr>], deflate := 10\<rparr>\<rparr>"

definition ruled_input :: AssetUTXO where
  "ruled_input = sample_input\<lparr>ut_assets := [ruled_asset]\<rparr>"

definition ruled_outputs :: "AssetUTXO list" where
  "ruled_outputs = [asset_output 0 ''A'' [setCount 60 ruled_asset], asset_output 1 ''W'' [setCount 30 ruled_asset],
     asset_output 2 ''R'' []]"

lemma ruled_changes: "asset_changes (assetIndex ruled_asset) [ruled_input] ruled_outputs = Inr [(''A'', 60), (''W'', - 70)]"
  by code_simp

lemma ruled_consolidation: "\<not> consolidation [(''A'', 60), (''W'', - 70)]" by code_simp

lemma ruled_pass: "DigiAsset_checkRulesPass sample_node [ruled_input] ruled_outputs 1 1 ruled_asset = Inr ()"
  by code_simp

text \<open>The transaction that makes this transfer, with and without the royalty.\<close>

definition ruled_tx :: "string \<Rightarrow> getrawtransaction_t" where
  "ruled_tx hex = (chain_tx hex)\<lparr>tx_vout := [pay_output 0 ''A'', pay_output 1 ''W'', pay_output 2 ''R'', data_output 3 hex]\<rparr>"

definition ruled_loaded :: "AssetUTXO list \<Rightarrow> DigiByteTransaction" where
  "ruled_loaded outs = (DigiByteTransaction_new 0)\<lparr>t_inputs := [ruled_input], assetFound := True, t_height := 1,
     t_outputs := map clear_assets outs @ [asset_output 3 [] []]\<rparr>"

lemma ruled_decoded:
  "\<exists>t. decodeAssetTX sample_chain (ruled_tx ''6a0b44410325002061011e1f0a'') (ruled_loaded ruled_outputs) = (Inr (True, []), t) \<and>
     txType t = DIGIASSET_BURN \<and> \<not> unintentionalBurn t"
proof -
  have "case decodeAssetTX sample_chain (ruled_tx ''6a0b44410325002061011e1f0a'') (ruled_loaded ruled_outputs) of
    (r, t) \<Rightarrow> r = Inr (True, []) \<and> txType t = DIGIASSET_BURN \<and> \<not> unintentionalBurn t" by code_simp
  then show ?thesis by (auto split: prod.splits)
qed

lemma unpaid:
  "\<exists>s t. decodeAssetTxHeader (ruled_tx ''6a0b44410325002061011e1f0a'') = Inr (3, 0x25, s) \<and>
    decodeAssetTransfer sample_node s [ruled_input] DIGIASSET_BURN ((ruled_loaded (take 2 ruled_outputs))\<lparr>assetTransactionVersion := 3\<rparr>) =
      (Inl (RuleFailed ''Royalty''), t)"
proof -
  have "case decodeAssetTxHeader (ruled_tx ''6a0b44410325002061011e1f0a'') of Inl _ \<Rightarrow> False | Inr (v, op, s) \<Rightarrow>
     v = 3 \<and> op = 0x25 \<and> fst (decodeAssetTransfer sample_node s [ruled_input] DIGIASSET_BURN
       ((ruled_loaded (take 2 ruled_outputs))\<lparr>assetTransactionVersion := 3\<rparr>)) = Inl (RuleFailed ''Royalty'')" by code_simp
  then show ?thesis by (auto split: sum.splits) (metis prod.collapse)
qed

text \<open>The registration of Bob from the USA by the verifier.\<close>

definition kyc_output :: "u64 \<Rightarrow> string \<Rightarrow> vout_t" where
  "kyc_output v adr = (pay_output 0 adr)\<lparr>valueS := v\<rparr>"

definition kyc_tx :: getrawtransaction_t where
  "kyc_tx = (chain_tx [])\<lparr>tx_vout := [kyc_output 600 ''B'', data_output 1 ''6a08825cbfea03426f62'', kyc_output 5 ''V'']\<rparr>"

definition kyc_verifier :: address_getter where
  "kyc_verifier = (\<lambda>_ _. Inr ''dgb1qm3wmsga7tmwlxnphjue2569z05dcj8uxjx69p6'')"

lemma kyc_tag_bits: "tb40_image ''kyc'' =
  [True, False, False, False, False, False, True, False, False, True, False, True, True, True, False, False]" (is "_ = ?b")
proof -
  have p: "map tpos ''kyc'' = [20, 34, 12]" by code_simp
  have "tb40_image ''kyc'' = val_bits 16 33372" unfolding tb40_image_def p by (simp add: fields_image_def)
  also have "\<dots> = ?b" by code_simp
  finally show ?thesis .
qed

lemma kyc_country_bits: "tb40_image ''usa'' =
  [True, False, True, True, True, True, True, True, True, True, True, False, True, False, True, False]" (is "_ = ?b")
proof -
  have p: "map tpos ''usa'' = [30, 28, 10]" by code_simp
  have "tb40_image ''usa'' = val_bits 16 49130" unfolding tb40_image_def p by (simp add: fields_image_def)
  also have "\<dots> = ?b" by code_simp
  finally show ?thesis .
qed

lemma kyc_count_bits: "fp_bits 3 = [False, False, False, False, False, False, True, True]"
  by code_simp

lemma kyc_bob_bits: "utf8_image [''B'', ''o'', ''b''] =
  [False, True, False, False, False, False, True, False, False, True, True, False, True, True, True, True,
   False, True, True, False, False, False, True, False]"
  by code_simp

lemma kyc_script_bits: "hex_image ''6a08825cbfea03426f62'' = val_bits 8 106 @ val_bits 8 8 @
  [True, False, False, False, False, False, True, False, False, True, False, True, True, True, False, False] @
  [True, False, True, True, True, True, True, True, True, True, True, False, True, False, True, False] @
  [False, False, False, False, False, False, True, True] @
  [False, True, False, False, False, False, True, False, False, True, True, False, True, True, True, True,
   False, True, True, False, False, False, True, False]"
  by code_simp

lemma kyc_carries: "carries (data_output 1 ''6a08825cbfea03426f62'') (kyc_name_bits ''usa'' [''B'', ''o'', ''b''])"
proof -
  have h: "hex_chars ''6a08825cbfea03426f62''" by code_simp
  show ?thesis
    by (rule carries_small[where n = 8])
      (use h in \<open>simp_all add: data_output_def kyc_name_bits_def kyc_tag_bits kyc_country_bits kyc_count_bits kyc_bob_bits
        kyc_script_bits\<close>)
qed

lemma kyc_tx_verifies: "kyc_verify_tx kyc_tx 1 kyc_verifier ''B'' (kyc_name_bits ''usa'' [''B'', ''o'', ''b''])"
  using kyc_carries
  by (simp add: kyc_verify_tx_def kyc_tx_def kyc_output_def pay_output_def chain_tx_def kyc_verifier_def isKYCVerifier_def
      data_output_def)

end
