(* ===== verification/TransferLimits.thy ===== *)
theory TransferLimits
  imports RuleLaws
begin

text \<open>
  Where the 64-bit arithmetic of transfers departs from the amounts it stands for: the total of a range
  instruction and the royalty of a payment wrap.
\<close>

unbundle bit_operations_syntax

subsection \<open>A range over 2048 outputs\<close>

definition range_all :: instruction where
  "range_all = \<lparr>i_skip = False, i_range = True, i_percent = False, i_output = 2047, i_percentByte = 0,
     i_fixedAmount = 9007199254740993\<rparr>"

lemma range_all_total: "instruction_total range_all (i_fixedAmount range_all) = 2048"
  by (simp add: instruction_total_def range_all_def)

lemma range_all_inflates:
  assumes "front inputs index = Inr cur" "2048 < da_count cur" "2048 \<le> length outs"
  shows "apply_instruction type range_all ((inputs, index, b), outs) =
    Inr ((inputs[index := cur\<lparr>da_count := da_count cur - 2048\<rparr> # tl (inputs ! index)], index, True),
      map (put_asset (setCount 9007199254740993 cur)) (take 2048 outs) @ drop 2048 outs)"
  using apply_range[OF assms(1) refl _ _ _ _ range_all_total _ assms(2), of outs type b] assms(3)
  by (simp add: range_all_def)

subsection \<open>Royalties\<close>

text \<open>A royalty below one satoshi asks for \<open>2 ^ 64 - 1\<close> of them.\<close>

lemma royalty_tiny:
  assumes "unat count * unat (ry_amount ry) * unat rate < 10 ^ 8"
  shows "royalty_paid count rate outs ry \<longleftrightarrow> (\<exists>u\<in>set outs. ut_address u = ry_address ry \<and> digibyte u = 2 ^ 64 - 1)"
proof -
  let ?p = "count * ry_amount ry * rate"
  have p: "unat ?p = unat count * unat (ry_amount ry) * unat rate"
    using assms by (simp add: unat_word_ariths mod_mult_left_eq)
  have "?p div 100000000 = 0" using assms unfolding p[symmetric] by (simp add: div_word_less word_less_nat_alt)
  moreover have "(0 - 1 \<le> x) = (x = 2 ^ 64 - 1)" for x :: u64
  proof -
    have m: "2 ^ 64 - 1 = (- 1 :: u64)" "0 - 1 = (- 1 :: u64)" by simp_all
    show ?thesis unfolding m using word_n1_ge[of x] order.antisym[of x "- 1"] by blast
  qed
  ultimately show ?thesis unfolding royalty_paid_def Let_def list_ex_iff by (simp only:)
qed

lemma royalty_wraps:
  assumes "ry_amount ry = 5000000000" "u \<in> set outs" "ut_address u = ry_address ry" "131065118524 \<le> digibyte u"
  shows "royalty_paid 1 10000000000 outs ry"
  using assms by (auto simp: royalty_paid_def Let_def list_ex_iff)

end
