(* ===== verification/WalletAmounts.thy ===== *)
theory WalletAmounts
  imports Asset
begin

text \<open>
  The amounts of \<^verbatim>\<open>src/src/AssetWallet.cpp\<close>: texts and JSON numbers to the smallest units and back
  (\<^verbatim>\<open>parseAssetAmount\<close>, \<^verbatim>\<open>satsToDecimal\<close>, \<^verbatim>\<open>dgbToSats\<close>).

  A JSON value of the library jsoncpp is what the code asks of it: its kind, \<^verbatim>\<open>asInt64\<close> and
  \<^verbatim>\<open>asString\<close> (both may throw), and what \<^verbatim>\<open>snprintf\<close> prints for its double with a number of decimals
  into the buffer of 32 characters.
\<close>

unbundle bit_operations_syntax

record json_value =
  jv_isIntegral :: bool
  jv_isString :: bool
  jv_isDouble :: bool
  jv_asInt64 :: "u64 result"
  jv_asString :: "string result"
  jv_printed :: "nat \<Rightarrow> string"

subsection \<open>Digits\<close>

text \<open>\<^verbatim>\<open>isdigit\<close>; of a negative \<^verbatim>\<open>char\<close> it is undefined.\<close>

definition is_digit :: "char \<Rightarrow> bool" where
  "is_digit c \<longleftrightarrow> 48 \<le> (of_char c :: nat) \<and> (of_char c :: nat) \<le> 57"

definition isdigit_char :: "char \<Rightarrow> bool result" where
  "isdigit_char c = (if 128 \<le> (of_char c :: nat) then Inl UndefinedBehaviour else Inr (is_digit c))"

definition dec_value :: "string \<Rightarrow> nat" where
  "dec_value ds = foldl (\<lambda>n c. n * 10 + (of_char c - 48)) 0 ds"

text \<open>\<^verbatim>\<open>std::stoull\<close> and \<^verbatim>\<open>std::stoll\<close> of a text of digits (not empty): out of range beyond the type.\<close>

definition stoull :: "string \<Rightarrow> u64 result" where
  "stoull ds = (if dec_value ds < 2 ^ 64 then Inr (of_nat (dec_value ds)) else Inl (OutOfRange ''stoull''))"

definition stoll :: "string \<Rightarrow> int result" where
  "stoll ds = (if dec_value ds < 2 ^ 63 then Inr (int (dec_value ds)) else Inl (OutOfRange ''stoll''))"

text \<open>The text before and after the first point; without a point all of it is before.\<close>

definition before_point :: "string \<Rightarrow> string" where
  "before_point s = takeWhile (\<lambda>c. c \<noteq> CHR ''.'') s"

definition after_point :: "string \<Rightarrow> string" where
  "after_point s = drop 1 (dropWhile (\<lambda>c. c \<noteq> CHR ''.'') s)"

definition strip_trailing_zeros :: "string \<Rightarrow> string" where
  "strip_trailing_zeros s = rev (dropWhile (\<lambda>c. c = CHR ''0'') (rev s))"

definition pad_zeros :: "nat \<Rightarrow> string \<Rightarrow> string" where
  "pad_zeros n s = s @ replicate (n - length s) (CHR ''0'')"

subsection \<open>Amounts of an asset\<close>

definition MAX_ASSET_COUNT :: u64 where "MAX_ASSET_COUNT = 18014398509481983"

definition check_digits :: "string \<Rightarrow> unit result" where
  "check_digits s = foldE (\<lambda>c _. bindE (isdigit_char c) (\<lambda>d. guardE d (OutOfRange ''Invalid amount''))) s ()"

text \<open>A text with a decimal point, or the printed double.\<close>

definition parse_amount_text :: "u8 \<Rightarrow> u64 \<Rightarrow> string \<Rightarrow> u64 result" where
  "parse_amount_text decimals multiplier str =
     (if str = [] then Inl (OutOfRange ''Invalid amount'')
      else
        let whole = before_point str;
            frac = strip_trailing_zeros (after_point str)
        in if length frac > unat decimals then Inl (OutOfRange ''Amount has more decimals than the asset allows'')
           else
             let frac = pad_zeros (unat decimals) frac
             in if whole = [] \<and> frac = [] then Inl (OutOfRange ''Invalid amount'')
                else
                  bindE (check_digits (whole @ frac)) (\<lambda>_.
                  bindE (if whole = [] then Inr 0 else stoull whole) (\<lambda>wholeVal.
                  if multiplier \<noteq> 0 \<and> wholeVal > MAX_ASSET_COUNT div multiplier then Inl (OutOfRange ''Amount too large'')
                  else
                    bindE (if frac = [] then Inr 0 else stoull frac) (\<lambda>fracVal.
                    let r = fracVal + wholeVal * multiplier
                    in if r = 0 then Inl (OutOfRange ''Amount must be positive'')
                       else if r > MAX_ASSET_COUNT then Inl (OutOfRange ''Amount too large'')
                       else Inr r))))"

definition parseAssetAmount :: "json_value \<Rightarrow> u8 \<Rightarrow> u64 result" where
  "parseAssetAmount amount decimals =
     bindE (pow10 (ucast decimals)) (\<lambda>multiplier.
     if jv_isIntegral amount then
       bindE (jv_asInt64 amount) (\<lambda>whole.
       if sint whole \<le> 0 then Inl (OutOfRange ''Amount must be positive'')
       else if multiplier \<noteq> 0 \<and> whole > MAX_ASSET_COUNT div multiplier then Inl (OutOfRange ''Amount too large'')
       else Inr (whole * multiplier))
     else
       bindE (if jv_isDouble amount then Inr (jv_printed amount (unat decimals)) else jv_asString amount)
         (parse_amount_text decimals multiplier))"

subsection \<open>Amounts of DigiByte\<close>

definition satsToDecimal :: "u64 \<Rightarrow> string" where
  "satsToDecimal sats =
     (let whole = to_string (unat (sats div 100000000));
          frac = to_string (unat (sats mod 100000000));
          frac = replicate (8 - length frac) (CHR ''0'') @ frac
      in whole @ ''.'' @ frac)"

definition dgb_error :: "string \<Rightarrow> cpp_error" where
  "dgb_error m = DigiByteException (-32602) m"

text \<open>The loop over the text: the digits before and after the point.\<close>

fun dgb_digits :: "bool \<Rightarrow> string \<Rightarrow> string \<Rightarrow> string \<Rightarrow> (string \<times> string) result" where
  "dgb_digits dot whole frac [] = Inr (whole, frac)"
| "dgb_digits dot whole frac (c # s) =
     (if c = CHR ''.'' then
        (if dot then Inl (dgb_error ''Invalid DigiByte amount'') else dgb_digits True whole frac s)
      else if is_digit c then
        (if dot then dgb_digits dot whole (frac @ [c]) s else dgb_digits dot (whole @ [c]) frac s)
      else Inl (dgb_error ''Invalid DigiByte amount''))"

text \<open>The arithmetic is on signed 64-bit integers, whose overflow is undefined.\<close>

definition dgb_value :: "string \<Rightarrow> string \<Rightarrow> int result" where
  "dgb_value whole frac =
     catchE (bindE (if whole = [] then Inr 0 else stoll whole) (\<lambda>w.
             if w * 100000000 \<ge> 2 ^ 63 then Inl UndefinedBehaviour
             else
               bindE (if frac = [] then Inr 0 else stoll frac) (\<lambda>f.
               if w * 100000000 + f \<ge> 2 ^ 63 then Inl UndefinedBehaviour
               else Inr (w * 100000000 + f))))
       (\<lambda>_. Inl (dgb_error ''DigiByte amount out of range''))"

definition dgb_text_to_sats :: "string \<Rightarrow> int result" where
  "dgb_text_to_sats s =
     (let s = (if s \<noteq> [] \<and> hd s = CHR ''+'' then tl s else s)
      in if s \<noteq> [] \<and> hd s = CHR ''-'' then Inl (dgb_error ''DigiByte amount must not be negative'')
         else
           bindE (dgb_digits False [] [] s) (\<lambda>(whole, frac).
           if whole = [] \<and> frac = [] then Inl (dgb_error ''Invalid DigiByte amount'')
           else if length frac > 8 then Inl (dgb_error ''DigiByte amount has more than 8 decimals'')
           else dgb_value whole (pad_zeros 8 frac)))"

definition dgbToSats :: "json_value \<Rightarrow> int result" where
  "dgbToSats amount =
     bindE (if jv_isString amount \<or> jv_isIntegral amount then jv_asString amount
            else if jv_isDouble amount then Inr (jv_printed amount 8)
            else Inl (dgb_error ''Invalid DigiByte amount'')) dgb_text_to_sats"

subsection \<open>Decimal texts\<close>

lemma dec_value_snoc [simp]: "dec_value (ds @ [c]) = dec_value ds * 10 + (of_char c - 48)"
  by (simp add: dec_value_def)

lemma dec_value_Nil [simp]: "dec_value [] = 0"
  by (simp add: dec_value_def)

lemma dec_value_zeros [simp]: "dec_value (replicate n (CHR ''0'') @ ds) = dec_value ds"
proof -
  have "foldl (\<lambda>n c. n * 10 + (of_char c - 48)) (0::nat) (replicate n (CHR ''0'')) = 0"
    by (induction n) simp_all
  then show ?thesis by (simp add: dec_value_def)
qed

lemma dec_value_append: "dec_value (ds @ es) = dec_value ds * 10 ^ length es + dec_value es"
proof (induction es rule: rev_induct)
  case (snoc c es)
  have "dec_value (ds @ es @ [c]) = dec_value ((ds @ es) @ [c])" by simp
  also have "\<dots> = (dec_value ds * 10 ^ length es + dec_value es) * 10 + (of_char c - 48)"
    unfolding dec_value_snoc snoc ..
  finally show ?case by (simp add: algebra_simps)
qed simp

lemma digit_char:
  assumes "n < (10::nat)"
  shows "is_digit (char_of (48 + n)) \<and> (of_char (char_of (48 + n) :: char) :: nat) = 48 + n"
proof -
  have v: "(of_char (char_of (48 + n) :: char) :: nat) = 48 + n" using assms by (simp add: of_char_of)
  then show ?thesis using assms by (simp add: is_digit_def)
qed

lemma digit_not_point: "is_digit c \<Longrightarrow> c \<noteq> CHR ''.'' \<and> c \<noteq> CHR ''+'' \<and> c \<noteq> CHR ''-''"
  by (auto simp: is_digit_def)

lemma to_string_digits: "list_all is_digit (to_string n) \<and> to_string n \<noteq> [] \<and> dec_value (to_string n) = n"
proof (induction n rule: to_string.induct)
  case (1 n)
  show ?case
  proof (cases "n < 10")
    case True
    then show ?thesis using digit_char[of n] by (simp add: to_string.simps[of n] dec_value_def)
  next
    case False
    then show ?thesis using 1 digit_char[of "n mod 10"] by (simp add: to_string.simps[of n])
  qed
qed

lemma dec_value_less: "list_all is_digit ds \<Longrightarrow> dec_value ds < 10 ^ length ds"
proof (induction ds rule: rev_induct)
  case (snoc c ds)
  then have "of_char c - 48 \<le> (9::nat)" "dec_value ds + 1 \<le> 10 ^ length ds" by (auto simp: is_digit_def)
  then show ?case by (simp only: dec_value_snoc length_append_singleton power_Suc)
qed simp

lemma to_string_length: "n < 10 ^ k \<Longrightarrow> 0 < k \<Longrightarrow> length (to_string n) \<le> k"
proof (induction n arbitrary: k rule: to_string.induct)
  case (1 n)
  show ?case
  proof (cases "n < 10")
    case True
    then show ?thesis using 1(3) by (simp add: to_string.simps[of n])
  next
    case False
    obtain j where k: "k = Suc j" using 1(3) by (cases k) auto
    then have "n div 10 < 10 ^ j" using 1(2) by (simp add: less_mult_imp_div_less mult.commute)
    moreover have "0 < j" using False 1(2) k by (cases j) auto
    ultimately have "length (to_string (n div 10)) \<le> j" using 1(1)[OF False] by simp
    then show ?thesis using False k by (simp add: to_string.simps[of n])
  qed
qed

lemma dec_value_split: "dec_value s = dec_value (take p s) * 10 ^ (length s - p) + dec_value (drop p s)"
  using dec_value_append[of "take p s" "drop p s"] by simp

lemma strip_pad: "pad_zeros (length s) (strip_trailing_zeros s) = s"
proof -
  let ?z = "takeWhile (\<lambda>c. c = CHR ''0'') (rev s)"
  have z: "?z = replicate (length ?z) (CHR ''0'')" by (rule replicate_eqI[symmetric, THEN sym]) (auto dest: set_takeWhileD)
  have s: "s = strip_trailing_zeros s @ rev ?z"
    unfolding strip_trailing_zeros_def rev_append[symmetric] takeWhile_dropWhile_id by simp
  then have "length s = length (strip_trailing_zeros s) + length ?z" by (metis length_append length_rev)
  then show ?thesis using s z by (metis add_diff_cancel_left' pad_zeros_def rev_replicate)
qed

lemma strip_length: "length (strip_trailing_zeros s) \<le> length s"
  using length_dropWhile_le[of "\<lambda>c. c = CHR ''0''" "rev s"] by (simp add: strip_trailing_zeros_def)

lemma point_split:
  assumes "list_all is_digit w"
  shows "before_point (w @ ''.'' @ f) = w" "after_point (w @ ''.'' @ f) = f"
  using assms digit_not_point
  by (auto simp: before_point_def after_point_def list_all_iff takeWhile_append dropWhile_append)

lemma check_digits_ok: "list_all is_digit s \<Longrightarrow> check_digits s = Inr ()"
  by (induction s) (auto simp: check_digits_def isdigit_char_def is_digit_def)

lemma dgb_digits_text:
  assumes "list_all is_digit w" "list_all is_digit f"
  shows "dgb_digits False w0 f0 (w @ ''.'' @ f) = Inr (w0 @ w, f0 @ f)"
proof -
  have "list_all is_digit f \<Longrightarrow> dgb_digits True w1 f1 f = Inr (w1, f1 @ f)" for w1 f1
    by (induction f arbitrary: f1) (auto dest: digit_not_point)
  then show ?thesis using assms by (induction w arbitrary: w0) (auto dest: digit_not_point)
qed

subsection \<open>Printing and reading back\<close>

lemma satsToDecimal_text:
  "\<exists>w f. satsToDecimal sats = w @ ''.'' @ f \<and> list_all is_digit w \<and> w \<noteq> [] \<and> list_all is_digit f \<and> length f = 8 \<and>
     dec_value w = unat sats div 100000000 \<and> dec_value f = unat sats mod 100000000"
proof -
  let ?f = "to_string (unat (sats mod 100000000))" and ?w = "to_string (unat (sats div 100000000))"
  have l: "length ?f \<le> 8" by (rule to_string_length) (simp_all add: unat_mod)
  have z: "list_all is_digit (replicate n (CHR ''0''))" for n by (induction n) (simp_all add: is_digit_def)
  have "satsToDecimal sats = ?w @ ''.'' @ (replicate (8 - length ?f) (CHR ''0'') @ ?f)" by (simp add: satsToDecimal_def Let_def)
  then show ?thesis
    using l z to_string_digits by (intro exI conjI) (assumption, auto simp: unat_div unat_mod)
qed

lemma dgb_value_exact:
  assumes "list_all is_digit w" "list_all is_digit f" "dec_value w * 100000000 + dec_value f < 2 ^ 63"
  shows "dgb_value w f = Inr (int (dec_value w) * 100000000 + int (dec_value f))"
proof -
  have "stoll w = Inr (int (dec_value w))" "stoll f = Inr (int (dec_value f))" using assms(3) by (simp_all add: stoll_def)
  moreover have "int (dec_value w) * 100000000 + int (dec_value f) < 2 ^ 63"
    using assms(3) by (simp flip: of_nat_less_iff[where 'a = int])
  ultimately show ?thesis by (auto simp: dgb_value_def catchE_def)
qed

lemma dgb_of_sats:
  assumes "unat sats < 2 ^ 63"
  shows "dgb_text_to_sats (satsToDecimal sats) = Inr (uint sats)"
proof -
  obtain w f where t: "satsToDecimal sats = w @ ''.'' @ f" "list_all is_digit w" "w \<noteq> []" "list_all is_digit f" "length f = 8"
    and v: "dec_value w = unat sats div 100000000" "dec_value f = unat sats mod 100000000"
    using satsToDecimal_text by blast
  have n: "dec_value w * 100000000 + dec_value f = unat sats" unfolding v by simp
  obtain c cs where c: "w = c # cs" "is_digit c" using t(2,3) by (cases w) auto
  have "hd (satsToDecimal sats) \<noteq> CHR ''+''" "hd (satsToDecimal sats) \<noteq> CHR ''-''" "satsToDecimal sats \<noteq> []"
    using c digit_not_point[OF c(2)] by (simp_all add: t(1))
  then have "dgb_text_to_sats (satsToDecimal sats) = dgb_value w f"
    using dgb_digits_text[OF t(2,4), of "[]" "[]"] t(3,5) unfolding t(1)
    by (auto simp: dgb_text_to_sats_def pad_zeros_def)
  also have "\<dots> = Inr (int (dec_value w) * 100000000 + int (dec_value f))"
    by (rule dgb_value_exact[OF t(2,4)]) (use n assms in simp)
  also have "int (dec_value w) * 100000000 + int (dec_value f) = int (unat sats)"
    using arg_cong[OF n, of int] by simp
  finally show ?thesis by simp
qed

lemma dgb_value_overflow:
  assumes "2 ^ 63 \<le> dec_value w * 100000000" "dec_value w < 2 ^ 63" "list_all is_digit w"
  shows "dgb_value w f = Inl UndefinedBehaviour"
proof -
  have "w \<noteq> []" using assms(1) by auto
  moreover have "2 ^ 63 \<le> int (dec_value w) * 100000000"
    using assms(1) by (simp flip: of_nat_le_iff[where 'a = int])
  ultimately show ?thesis using assms(2) by (simp add: dgb_value_def stoll_def catchE_def)
qed

lemma dgb_text_overflow:
  assumes "list_all is_digit w" "92233720369 \<le> dec_value w" "dec_value w < 2 ^ 63"
  shows "dgb_text_to_sats (w @ ''.'' @ replicate 8 (CHR ''0'')) = Inl UndefinedBehaviour"
proof -
  have z: "list_all is_digit (replicate 8 (CHR ''0''))" by (simp add: is_digit_def numeral_eq_Suc)
  have "w \<noteq> []" using assms(2) by auto
  then obtain c cs where c: "w = c # cs" "is_digit c" using assms(1) by (cases w) auto
  then have h: "c \<noteq> CHR ''+''" "c \<noteq> CHR ''-''" using digit_not_point by auto
  have "dgb_text_to_sats (w @ ''.'' @ replicate 8 (CHR ''0'')) = dgb_value w (replicate 8 (CHR ''0''))"
    using dgb_digits_text[OF assms(1) z, of "[]" "[]"] h unfolding c(1)
    by (simp add: dgb_text_to_sats_def pad_zeros_def)
  also have "\<dots> = Inl UndefinedBehaviour" by (rule dgb_value_overflow) (use assms in simp_all)
  finally show ?thesis .
qed

lemma parse_getStrCount:
  assumes "divisibility a \<le> 7" "0 < da_count a" "da_count a \<le> MAX_ASSET_COUNT"
    and "\<not> jv_isIntegral j" "\<not> jv_isDouble j" "jv_asString j = Inr (getStrCount a)"
  shows "parseAssetAmount j (divisibility a) = Inr (da_count a)"
proof -
  define d where "d = unat (divisibility a)"
  have d7: "d \<le> 7" using assms(1) by (simp add: d_def word_le_nat_alt)
  define r where "r = replicate (Suc d - length (to_string (unat (da_count a)))) (CHR ''0'') @ to_string (unat (da_count a))"
  define w f where "w = take (length r - d) r" and "f = drop (length r - d) r"
  have "nat (int d + 1 - int (length (to_string (unat (da_count a))))) = Suc d - length (to_string (unat (da_count a)))"
    by simp
  moreover have "int d + 1 - int (length (to_string (unat (da_count a)))) > 0 \<longleftrightarrow> 0 < Suc d - length (to_string (unat (da_count a)))"
    by auto
  ultimately have g: "getStrCount a = w @ ''.'' @ f"
    by (simp add: getStrCount_def Let_def d_def[symmetric] w_def f_def r_def)
  have l: "Suc d \<le> length r" by (simp add: r_def)
  have z: "list_all is_digit (replicate n (CHR ''0''))" for n by (induction n) (simp_all add: is_digit_def)
  have rd: "list_all is_digit r" "dec_value r = unat (da_count a)"
    using to_string_digits[of "unat (da_count a)"] z by (simp_all add: r_def)
  have wf: "list_all is_digit w" "list_all is_digit f" "length f = d" "w \<noteq> []" "w @ f = r"
    using rd(1) l by (auto simp: w_def f_def list_all_iff dest: in_set_takeD in_set_dropD)
  have v: "dec_value w * 10 ^ d + dec_value f = unat (da_count a)"
    using dec_value_append[of w f] wf(3,5) rd(2) by simp
  have max: "unat (da_count a) \<le> 18014398509481983" using assms(3) by (simp add: word_le_nat_alt MAX_ASSET_COUNT_def)
  have p: "10 ^ d \<le> (10 :: nat) ^ 7" "1 \<le> (10 :: nat) ^ d" by (rule power_increasing[OF d7]) simp_all
  define m :: u64 where "m = of_nat (10 ^ d)"
  have m: "unat m = 10 ^ d" "m \<noteq> 0" proof -
    show "unat m = 10 ^ d" unfolding m_def unat_of_nat take_bit_eq_mod by (rule mod_less) (use p in simp)
    then show "m \<noteq> 0" by (metis p(2) not_one_le_zero unat_0)
  qed
  have pw: "pow10 (ucast (divisibility a)) = Inr m"
  proof -
    have "ucast (divisibility a) = (of_nat d :: u64)" by (simp add: d_def)
    then show ?thesis using pow10_power[of d] d7 by (simp add: m_def)
  qed
  have wle: "dec_value w \<le> 18014398509481983 div 10 ^ d"
    using v max p by (simp add: less_eq_div_iff_mult_less_eq)
  then have "dec_value w \<le> 18014398509481983" by (meson div_le_dividend le_trans)
  then have wv: "stoull w = Inr (of_nat (dec_value w))" "unat (of_nat (dec_value w) :: u64) = dec_value w"
    by (simp_all add: stoull_def unat_of_nat)
  have fv: "stoull f = Inr (of_nat (dec_value f))" using v max by (simp add: stoull_def)
  have small: "\<not> of_nat (dec_value w) > MAX_ASSET_COUNT div m"
    using wle wv(2) m by (simp add: word_less_nat_alt unat_div MAX_ASSET_COUNT_def)
  have sum_eq: "of_nat (dec_value f) + of_nat (dec_value w) * m = da_count a"
    using arg_cong[OF v, of "of_nat :: nat \<Rightarrow> u64"] by (simp add: m_def add.commute)
  have pt: "before_point (w @ ''.'' @ f) = w" "pad_zeros d (strip_trailing_zeros (after_point (w @ ''.'' @ f))) = f"
    "length (strip_trailing_zeros (after_point (w @ ''.'' @ f))) \<le> d"
    using point_split[OF wf(1), of f] strip_pad[of f] strip_length[of f] wf(3) by simp_all
  have chk: "check_digits (w @ f) = Inr ()" unfolding wf(5) by (rule check_digits_ok[OF rd(1)])
  have "parse_amount_text (divisibility a) m (w @ ''.'' @ f) = Inr (da_count a)"
    unfolding parse_amount_text_def Let_def d_def[symmetric] pt(1,2)
    using pt(3) wf(4) chk wv(1) fv small sum_eq assms(2,3) by (cases "f = []") auto
  then show ?thesis using assms(4-6) pw g by (simp add: parseAssetAmount_def)
qed

end
