(* ===== verification/AssetWallet.thy ===== *)
theory AssetWallet
  imports TransactionBuild TransactionDecode WalletAmounts
begin

text \<open>
  The wallet functions of \<^verbatim>\<open>src/src/AssetWallet.cpp\<close>: choosing the coins of an asset transfer, funding,
  signing and sending a transaction.

  DigiByte Core and the database are parameters: a record of the answers they give. An answer may
  depend on everything the wallet has asked before, so each field takes the list of the commands
  issued so far. A function that talks to them is a function of that list, which it extends.
\<close>

unbundle bit_operations_syntax

subsection \<open>Commands and answers\<close>

type_synonym outpoint = "string \<times> u32"

datatype command =
    GetBlockCount
  | ListUnspent nat
  | LockUnspent bool "outpoint list"  \<comment> \<open>the flag is the command's own: true unlocks\<close>
  | GetTxOut outpoint
  | CreateRawTransaction "(string \<times> u16) list" "(string \<times> string) list" string
  | FundRawTransaction string nat
  | SignWithWallet string
  | SignRaw string
  | DecodeRaw string
  | SendRaw string
  | GetWalletInfo
  | EstimateSmartFee nat

record unspenttxout_t =
  u_txid :: string
  u_n :: u32
  u_address :: string
  u_sats :: u64           \<comment> \<open>\<^verbatim>\<open>llround(amount * 100000000.0)\<close>\<close>
  confirmations :: int

type_synonym 'a answer = "command list \<Rightarrow> 'a result"

record Backend =
  bk_node :: Node
  bk_now :: u64                                              \<comment> \<open>seconds\<close>
  bk_height :: u32                                           \<comment> \<open>\<^verbatim>\<open>db->getBlockHeight()\<close>\<close>
  bk_assetUTXO :: "string \<Rightarrow> u32 \<Rightarrow> AssetUTXO answer"
  bk_isHeightIndexed :: "u32 \<Rightarrow> bool answer"
  bk_blockCount :: "u32 answer"
  bk_unspent :: "nat \<Rightarrow> unspenttxout_t list answer"
  bk_lock :: "bool \<Rightarrow> outpoint list \<Rightarrow> unit answer"
  bk_txOutIsNull :: "outpoint \<Rightarrow> bool answer"
  bk_create :: "string answer"
  bk_fund :: "string \<Rightarrow> nat \<Rightarrow> (string \<times> u64) answer"          \<comment> \<open>the hex text, and the fee in satoshis\<close>
  bk_signWithWallet :: "string \<Rightarrow> (bool \<times> string) answer"   \<comment> \<open>complete, and the hex text\<close>
  bk_sign :: "string \<Rightarrow> (bool \<times> string) answer"
  bk_decode :: "string \<Rightarrow> outpoint list answer"              \<comment> \<open>the inputs\<close>
  bk_send :: "string \<Rightarrow> string answer"
  bk_paytxfee :: "u64 option answer"                         \<comment> \<open>in satoshis, when present and positive\<close>
  bk_feerate :: "u64 option answer"

type_synonym 'a step = "command list \<Rightarrow> 'a result \<times> command list"

definition bindW :: "'a step \<Rightarrow> ('a \<Rightarrow> 'b step) \<Rightarrow> 'b step" where
  "bindW m f h = (case m h of (Inl e, h) \<Rightarrow> (Inl e, h) | (Inr x, h) \<Rightarrow> f x h)"

definition retW :: "'a result \<Rightarrow> 'a step" where
  "retW r h = (r, h)"

definition askW :: "'a answer \<Rightarrow> 'a step" where
  "askW a h = (a h, h)"

definition callW :: "command \<Rightarrow> 'a answer \<Rightarrow> 'a step" where
  "callW c a h = (a h, h @ [c])"

fun foldW :: "('a \<Rightarrow> 's \<Rightarrow> 's step) \<Rightarrow> 'a list \<Rightarrow> 's \<Rightarrow> 's step" where
  "foldW f [] s = retW (Inr s)"
| "foldW f (x # xs) s = bindW (f x s) (foldW f xs)"

text \<open>\<^verbatim>\<open>std::string::find(...) != npos\<close>.\<close>

fun starts_with :: "string \<Rightarrow> string \<Rightarrow> bool" where
  "starts_with [] s = True"
| "starts_with (p # ps) (c # s) = (p = c \<and> starts_with ps s)"
| "starts_with (p # ps) [] = False"

fun str_contains :: "string \<Rightarrow> string \<Rightarrow> bool" where
  "str_contains p [] = starts_with p []"
| "str_contains p (c # s) = (starts_with p (c # s) \<or> str_contains p s)"

subsection \<open>The coins of the wallet\<close>

definition wallet_coin :: "Backend \<Rightarrow> unspenttxout_t \<Rightarrow> AssetUTXO step" where
  "wallet_coin bk utxo h =
     (let put = (\<lambda>assets. \<lparr>ut_txid = u_txid utxo, ut_vout = ucast (u_n utxo), ut_address = u_address utxo,
                           digibyte = u_sats utxo, ut_assets = assets\<rparr>)
      in case bk_assetUTXO bk (u_txid utxo) (u_n utxo) h of
           Inr entry \<Rightarrow> (Inr (entry\<lparr>ut_address := u_address utxo, digibyte := u_sats utxo\<rparr>), h)
         | Inl DataPruned \<Rightarrow> (Inr (put []), h)
         | Inl e \<Rightarrow> (Inl e, h))"

definition getWalletUTXOs :: "Backend \<Rightarrow> nat \<Rightarrow> AssetUTXO list step" where
  "getWalletUTXOs bk minconf =
     bindW (callW (ListUnspent minconf) (bk_unspent bk minconf)) (\<lambda>unspent.
     foldW (\<lambda>utxo results. bindW (wallet_coin bk utxo) (\<lambda>entry. retW (Inr (results @ [entry])))) unspent [])"

subsection \<open>Assets that can not be transferred\<close>

definition refuse_output :: "string \<Rightarrow> cpp_error" where
  "refuse_output rule = DigiByteException (-1) (''This asset has a '' @ rule @
     '' rule.  A wallet built transfer cannot add the output that rule requires, so the transfer would fail validation'' @
     '' and every unit in the transaction would be destroyed, including the change.  Refusing.'')"

definition refuse_signer :: cpp_error where
  "refuse_signer = DigiByteException (-1) (''This asset has a required signer rule.  A wallet built transfer cannot '' @
     ''collect the signatures that rule requires, so the transfer would fail validation and every unit in the '' @
     ''transaction would be destroyed, including the change.  Refusing.'')"

definition refuse_expired :: cpp_error where
  "refuse_expired = DigiByteException (-1) (''This asset has expired.  No transfer of it can pass validation any more, '' @
     ''and attempting one would destroy every unit in the transaction, including the change.  Refusing.'')"

definition assertTransferableAsset :: "DigiAsset \<Rightarrow> u32 \<Rightarrow> u64 \<Rightarrow> unit result" where
  "assertTransferableAsset asset chainHeight nowSeconds =
     (let rules = da_rules asset in
      if rules_empty rules then Inr ()
      else if getIfRequiresRoyalty rules then Inl (refuse_output ''royalty'')
      else if getRequiredBurn rules > 0 then Inl (refuse_output ''required burn'')
      else if getRequiredSignerWeight rules > 0 then Inl refuse_signer
      else if getIfExpired chainHeight nowSeconds rules then Inl refuse_expired
      else Inr ())"

subsection \<open>Choosing the coins of a transfer\<close>

text \<open>The loop over the assets of one coin: the first with the wanted index decides.\<close>

fun holds_index :: "(DigiAsset \<Rightarrow> unit result) \<Rightarrow> u64 \<Rightarrow> DigiAsset list \<Rightarrow> bool result" where
  "holds_index check index [] = Inr False"
| "holds_index check index (asset # assets) =
     bindE (getAssetIndex False asset) (\<lambda>i.
     if i = index then bindE (check asset) (\<lambda>_. Inr True) else holds_index check index assets)"

definition candidate_coins :: "(DigiAsset \<Rightarrow> unit result) \<Rightarrow> u64 \<Rightarrow> AssetUTXO list \<Rightarrow> AssetUTXO list result" where
  "candidate_coins check index coins =
     foldE (\<lambda>utxo candidates. bindE (holds_index check index (ut_assets utxo)) (\<lambda>found.
       Inr (if found then candidates @ [utxo] else candidates))) coins []"

definition countOf :: "u64 \<Rightarrow> AssetUTXO \<Rightarrow> u64 result" where
  "countOf index utxo =
     foldE (\<lambda>asset total. bindE (getAssetIndex False asset) (\<lambda>i.
       Inr (if i = index then total + getCount asset else total))) (ut_assets utxo) 0"

definition is_pure :: "AssetUTXO \<Rightarrow> bool" where
  "is_pure utxo \<longleftrightarrow> length (ut_assets utxo) = 1"

text \<open>The comparison \<^verbatim>\<open>std::sort\<close> is given.\<close>

definition coin_before :: "u64 \<Rightarrow> AssetUTXO \<Rightarrow> AssetUTXO \<Rightarrow> bool result" where
  "coin_before index a b =
     (if is_pure a \<noteq> is_pure b then Inr (is_pure a)
      else bindE (countOf index a) (\<lambda>ca. bindE (countOf index b) (\<lambda>cb. Inr (ca > cb))))"

text \<open>The loop that looks for one coin that is enough: an exact match ends it.\<close>

fun single_coin :: "u64 \<Rightarrow> u64 \<Rightarrow> AssetUTXO option \<Rightarrow> AssetUTXO list \<Rightarrow> AssetUTXO option result" where
  "single_coin index amount single [] = Inr single"
| "single_coin index amount single (utxo # coins) =
     (if \<not> is_pure utxo then single_coin index amount single coins
      else
        bindE (countOf index utxo) (\<lambda>have_count.
        if have_count < amount then single_coin index amount single coins
        else if have_count = amount then Inr (Some utxo)
        else
          (case single of
             None \<Rightarrow> single_coin index amount (Some utxo) coins
           | Some s \<Rightarrow>
               bindE (countOf index s) (\<lambda>best.
               single_coin index amount (if have_count < best then Some utxo else single) coins))))"

fun gather_coins :: "u64 \<Rightarrow> u64 \<Rightarrow> AssetUTXO list \<Rightarrow> u64 \<Rightarrow> AssetUTXO list \<Rightarrow> (AssetUTXO list \<times> u64) result" where
  "gather_coins index amount selected got [] = Inr (selected, got)"
| "gather_coins index amount selected got (utxo # coins) =
     (if got \<ge> amount then Inr (selected, got)
      else bindE (countOf index utxo) (\<lambda>c. gather_coins index amount (selected @ [utxo]) (got + c) coins))"

definition pick_coins :: "u64 \<Rightarrow> u64 \<Rightarrow> AssetUTXO list \<Rightarrow> AssetUTXO list result" where
  "pick_coins index amount candidates =
     bindE (single_coin index amount None candidates) (\<lambda>single.
     case single of
       Some s \<Rightarrow> Inr [s]
     | None \<Rightarrow>
         bindE (gather_coins index amount [] 0 candidates) (\<lambda>(selected, got).
         if got < amount then Inl NotEnoughFunds else Inr selected))"

text \<open>
  \<^verbatim>\<open>std::sort\<close> leaves the order of equivalent elements open; it is a parameter, of which
  \<open>sorter_ok\<close> states what the standard promises.
\<close>

type_synonym sorter = "(AssetUTXO \<Rightarrow> AssetUTXO \<Rightarrow> bool result) \<Rightarrow> AssetUTXO list \<Rightarrow> AssetUTXO list result"

definition selectAssetInputs :: "sorter \<Rightarrow> Backend \<Rightarrow> u64 \<Rightarrow> u64 \<Rightarrow> AssetUTXO list step" where
  "selectAssetInputs std_sort bk index amount =
     bindW (getWalletUTXOs bk 1) (\<lambda>coins.
     retW (bindE (candidate_coins (\<lambda>a. assertTransferableAsset a (bk_height bk) (bk_now bk)) index coins) (\<lambda>candidates.
           bindE (std_sort (coin_before index) candidates) (\<lambda>candidates.
           pick_coins index amount candidates))))"

end
