(* ===== verification/WalletFunding.thy ===== *)
theory WalletFunding
  imports AssetWallet
begin

text \<open>
  Funding, signing and sending of \<^verbatim>\<open>src/src/AssetWallet.cpp\<close>: \<^verbatim>\<open>buildRawTransaction\<close>, \<^verbatim>\<open>fundOnce\<close>,
  \<^verbatim>\<open>estimateMinerFee\<close>, \<^verbatim>\<open>fundSignSend\<close>.
\<close>

unbundle bit_operations_syntax

subsection \<open>The raw transaction\<close>

definition buildRawTransaction :: "Backend \<Rightarrow> DigiByteTransaction \<Rightarrow> string step" where
  "buildRawTransaction bk tx =
     (let inputs = map (\<lambda>u. (ut_txid u, ut_vout u)) (t_inputs tx);
          outputs = map (\<lambda>u. (ut_address u, satsToDecimal (digibyte u))) (t_outputs tx)
      in bindW (retW (encodeAssetOpReturn tx)) (\<lambda>data.
         callW (CreateRawTransaction inputs outputs data) (bk_create bk)))"

subsection \<open>The coins that must not pay the fee\<close>

definition is_input :: "DigiByteTransaction \<Rightarrow> unspenttxout_t \<Rightarrow> bool" where
  "is_input tx utxo \<longleftrightarrow> list_ex (\<lambda>u. ut_txid u = u_txid utxo \<and> ucast (ut_vout u) = u_n utxo) (t_inputs tx)"

definition utxo_height :: "u32 \<Rightarrow> unspenttxout_t \<Rightarrow> u32" where
  "utxo_height chainHeight utxo =
     (if confirmations utxo > 0 \<and> word_of_int (confirmations utxo) \<le> chainHeight
      then chainHeight - word_of_int (confirmations utxo) + 1 else 0)"

definition db_needs_lock :: "Backend \<Rightarrow> u32 \<Rightarrow> unspenttxout_t \<Rightarrow> bool answer" where
  "db_needs_lock bk height utxo h =
     (case bk_assetUTXO bk (u_txid utxo) (u_n utxo) h of
        Inr u \<Rightarrow> Inr (ut_assets u \<noteq> [])
      | Inl DataPruned \<Rightarrow> bindE (bk_isHeightIndexed bk height h) (\<lambda>b. Inr (\<not> b))
      | Inl e \<Rightarrow> Inl e)"

definition outpoint_of :: "unspenttxout_t \<Rightarrow> outpoint" where
  "outpoint_of utxo = (u_txid utxo, u_n utxo)"

definition needs_lock :: "Backend \<Rightarrow> u32 \<Rightarrow> unspenttxout_t \<Rightarrow> bool step" where
  "needs_lock bk chainHeight utxo =
     (let height = utxo_height chainHeight utxo in
      bindW (if height = 0 then retW (Inr True) else askW (db_needs_lock bk height utxo)) (\<lambda>needsLock.
      if needsLock then retW (Inr True) else callW (GetTxOut (outpoint_of utxo)) (bk_txOutIsNull bk (outpoint_of utxo))))"

definition lock_step :: "Backend \<Rightarrow> DigiByteTransaction \<Rightarrow> u32 \<Rightarrow> unspenttxout_t \<Rightarrow> outpoint list \<times> bool \<Rightarrow> (outpoint list \<times> bool) step" where
  "lock_step bk tx chainHeight utxo st =
     (if is_input tx utxo then retW (Inr st)
      else bindW (needs_lock bk chainHeight utxo) (\<lambda>needsLock.
           retW (Inr (if needsLock then (fst st @ [outpoint_of utxo], snd st \<or> confirmations utxo = 0) else st))))"

subsection \<open>One attempt\<close>

definition lock_call :: "Backend \<Rightarrow> bool \<Rightarrow> outpoint list \<Rightarrow> unit step" where
  "lock_call bk unlock toLock =
     (if toLock = [] then retW (Inr ()) else callW (LockUnspent unlock toLock) (bk_lock bk unlock toLock))"

text \<open>
  \<open>None\<close>: try again after a confirmation. \<open>Some\<close>: the funded transaction and its fee. The handlers
  release the locks before they decide.
\<close>

definition fund_locked :: "Backend \<Rightarrow> DigiByteTransaction \<Rightarrow> string \<Rightarrow> nat \<Rightarrow> outpoint list \<Rightarrow> bool \<Rightarrow> (string \<times> u64) option step" where
  "fund_locked bk tx rawHex attempt toLock lockedUnconfirmed h =
     (let changePosition = length (t_outputs tx) + 1 in
      case callW (FundRawTransaction rawHex changePosition) (bk_fund bk rawHex changePosition) h of
        (Inr r, h) \<Rightarrow> bindW (lock_call bk True toLock) (\<lambda>_. retW (Inr (Some r))) h
      | (Inl UndefinedBehaviour, h) \<Rightarrow> (Inl UndefinedBehaviour, h)
      | (Inl (DigiByteException c m), h) \<Rightarrow>
          bindW (lock_call bk True toLock) (\<lambda>_.
            if \<not> str_contains ''nsufficient'' m \<or> \<not> lockedUnconfirmed \<or> attempt \<ge> 4
            then retW (Inl (DigiByteException c m)) else retW (Inr None)) h
      | (Inl e, h) \<Rightarrow> bindW (lock_call bk True toLock) (\<lambda>_. retW (Inl e)) h)"

definition fundOnce :: "Backend \<Rightarrow> DigiByteTransaction \<Rightarrow> string \<Rightarrow> nat \<Rightarrow> (string \<times> u64) option step" where
  "fundOnce bk tx rawHex attempt =
     bindW (callW GetBlockCount (bk_blockCount bk)) (\<lambda>chainHeight.
     bindW (callW (ListUnspent 0) (bk_unspent bk 0)) (\<lambda>coins.
     bindW (foldW (lock_step bk tx chainHeight) coins ([], False)) (\<lambda>(toLock, lockedUnconfirmed).
     bindW (lock_call bk False toLock) (\<lambda>_.
     fund_locked bk tx rawHex attempt toLock lockedUnconfirmed))))"

subsection \<open>The fee of a transaction not sent\<close>

definition catchW :: "'a step \<Rightarrow> 'a step \<Rightarrow> 'a step" where
  "catchW m k h =
     (case m h of
        (Inr x, h) \<Rightarrow> (Inr x, h)
      | (Inl UndefinedBehaviour, h) \<Rightarrow> (Inl UndefinedBehaviour, h)
      | (Inl _, h) \<Rightarrow> k h)"

definition estimated_size :: "DigiByteTransaction \<Rightarrow> string \<Rightarrow> u64" where
  "estimated_size tx data =
     200 + of_nat (length data div 2) + of_nat (length (t_outputs tx)) * 35 + of_nat (length (t_inputs tx)) * 70 + 150"

text \<open>The three sources of a quote; \<open>None\<close> falls through to the next.\<close>

definition quote_funded :: "Backend \<Rightarrow> DigiByteTransaction \<Rightarrow> u64 option step" where
  "quote_funded bk tx =
     catchW (bindW (buildRawTransaction bk tx) (\<lambda>raw.
             bindW (fundOnce bk tx raw 4) (\<lambda>r.
             retW (Inr (case r of Some (hex, feeSats) \<Rightarrow> (if feeSats > 0 then Some feeSats else None) | None \<Rightarrow> None)))))
       (retW (Inr None))"

definition quote_paytxfee :: "Backend \<Rightarrow> DigiByteTransaction \<Rightarrow> (u64 option \<times> u64) step" where
  "quote_paytxfee bk tx h =
     (case callW GetWalletInfo (bk_paytxfee bk) h of
        (Inr (Some feeRate), h) \<Rightarrow>
          (case encodeAssetOpReturn tx of
             Inr data \<Rightarrow> (Inr (Some (feeRate * estimated_size tx data div 1000), feeRate), h)
           | Inl UndefinedBehaviour \<Rightarrow> (Inl UndefinedBehaviour, h)
           | Inl _ \<Rightarrow> (Inr (None, feeRate), h))
      | (Inr None, h) \<Rightarrow> (Inr (None, 100000), h)
      | (Inl UndefinedBehaviour, h) \<Rightarrow> (Inl UndefinedBehaviour, h)
      | (Inl _, h) \<Rightarrow> (Inr (None, 100000), h))"

definition quote_estimate :: "Backend \<Rightarrow> DigiByteTransaction \<Rightarrow> u64 \<Rightarrow> u64 step" where
  "quote_estimate bk tx feeRate =
     bindW (catchW (bindW (callW (EstimateSmartFee 6) (bk_feerate bk)) (\<lambda>r.
                    retW (Inr (case r of Some rate \<Rightarrow> rate | None \<Rightarrow> feeRate))))
              (retW (Inr feeRate))) (\<lambda>feeRate.
     bindW (retW (encodeAssetOpReturn tx)) (\<lambda>data.
     retW (Inr (feeRate * estimated_size tx data div 1000))))"

definition estimateMinerFee :: "Backend \<Rightarrow> DigiByteTransaction \<Rightarrow> u64 step" where
  "estimateMinerFee bk tx =
     bindW (quote_funded bk tx) (\<lambda>q.
     case q of
       Some fee \<Rightarrow> retW (Inr fee)
     | None \<Rightarrow>
         bindW (quote_paytxfee bk tx) (\<lambda>(q, feeRate).
         case q of Some fee \<Rightarrow> retW (Inr fee) | None \<Rightarrow> quote_estimate bk tx feeRate))"

subsection \<open>Sending\<close>

definition throwIfWalletLocked :: "int \<Rightarrow> string \<Rightarrow> unit result" where
  "throwIfWalletLocked code message =
     (if code = -13 \<or> str_contains ''walletpassphrase'' message
      then Inl (DigiByteException (-1) (''Wallet is encrypted and locked.  Unlock it first with: walletpassphrase '' @
        [CHR 0x22] @ ''<passphrase>'' @ [CHR 0x22] @ '' <seconds>''))
      else Inr ())"

definition signFunded :: "Backend \<Rightarrow> string \<Rightarrow> (bool \<times> string) step" where
  "signFunded bk fundedHex h =
     (case callW (SignWithWallet fundedHex) (bk_signWithWallet bk fundedHex) h of
        (Inl (DigiByteException c m), h) \<Rightarrow>
          bindW (retW (throwIfWalletLocked c m)) (\<lambda>_ h.
            case callW (SignRaw fundedHex) (bk_sign bk fundedHex) h of
              (Inl (DigiByteException c2 m2), h) \<Rightarrow>
                bindW (retW (throwIfWalletLocked c2 m2)) (\<lambda>_. retW (Inl (DigiByteException c2 m2))) h
            | r \<Rightarrow> r) h
      | r \<Rightarrow> r)"

definition signed_text :: "Backend \<Rightarrow> DigiByteTransaction \<Rightarrow> string \<Rightarrow> string step" where
  "signed_text bk tx fundedHex =
     bindW (signFunded bk fundedHex) (\<lambda>(complete, hex).
     if \<not> complete then retW (Inl (TransactionException ''Wallet could not fully sign the transaction.  Is the wallet unlocked?''))
     else if t_inputs tx = [] then retW (Inr hex)
     else
       bindW (callW (DecodeRaw hex) (bk_decode bk hex)) (\<lambda>vin.
       bindW (retW (vec_get vin 0)) (\<lambda>first.
       if fst first \<noteq> ut_txid (t_inputs tx ! 0) \<or> snd first \<noteq> ucast (ut_vout (t_inputs tx ! 0))
       then retW (Inl (TransactionException ''Wallet changed the transaction input order while funding''))
       else retW (Inr hex))))"

text \<open>
  The attempts. Both reasons to go round again need an attempt below 4; between them the code waits
  for five seconds.
\<close>

lemma fund_locked_retry:
  "fund_locked bk tx rawHex attempt toLock u h = (Inr None, h') \<Longrightarrow> attempt < 4"
  by (auto simp: fund_locked_def callW_def bindW_def retW_def Let_def split: sum.splits cpp_error.splits prod.splits if_splits)

lemma bindW_E:
  assumes "bindW m f h = (Inr x, h')"
  obtains y h1 where "m h = (Inr y, h1)" "f y h1 = (Inr x, h')"
  using assms by (auto simp: bindW_def split: prod.splits sum.splits)

lemma fundOnce_retry: "fundOnce bk tx rawHex attempt h = (Inr None, h') \<Longrightarrow> attempt < 4"
  by (auto simp: fundOnce_def elim!: bindW_E dest: fund_locked_retry)

function send_attempts :: "Backend \<Rightarrow> DigiByteTransaction \<Rightarrow> string \<Rightarrow> nat \<Rightarrow> (string \<times> string) step" where
  "send_attempts bk tx rawHex attempt h =
     (case fundOnce bk tx rawHex attempt h of
        (Inl e, h1) \<Rightarrow> (Inl e, h1)
      | (Inr None, h1) \<Rightarrow> send_attempts bk tx rawHex (attempt + 1) h1
      | (Inr (Some (fundedHex, fee)), h1) \<Rightarrow>
          (case signed_text bk tx fundedHex h1 of
             (Inl e, h2) \<Rightarrow> (Inl e, h2)
           | (Inr hex, h2) \<Rightarrow>
               (case callW (SendRaw hex) (bk_send bk hex) h2 of
                  (Inr txid, h3) \<Rightarrow> (Inr (txid, hex), h3)
                | (Inl (DigiByteException c m), h3) \<Rightarrow>
                    (if \<not> str_contains ''onflict'' m \<or> attempt \<ge> 4 then (Inl (DigiByteException c m), h3)
                     else send_attempts bk tx rawHex (attempt + 1) h3)
                | (Inl e, h3) \<Rightarrow> (Inl e, h3))))"
  by pat_completeness auto
termination
  by (relation "measure (\<lambda>(bk, tx, rawHex, attempt, h). 5 - attempt)") (auto dest!: fundOnce_retry[OF sym])

declare send_attempts.simps [simp del]

definition setChainContext :: "u32 \<Rightarrow> u64 \<Rightarrow> DigiByteTransaction \<Rightarrow> DigiByteTransaction" where
  "setChainContext height time tx = tx\<lparr>t_height := height, t_time := time\<rparr>"

definition refuse_broadcast :: "string \<Rightarrow> cpp_error" where
  "refuse_broadcast rule = DigiByteException (-1) (''Refusing to broadcast: this transfer would fail the asset's rules and burn the asset ('' @
     ''Transaction failed because '' @ rule @ '' rule failed'' @ '').'')"

definition rules_backstop :: "Backend \<Rightarrow> DigiByteTransaction \<Rightarrow> unit result" where
  "rules_backstop bk tx =
     (if isIssuance tx then Inr ()
      else
        (case checkRulesPass (bk_node bk) (setChainContext (bk_height bk) (bk_now bk) tx) of
           Inl (RuleFailed rule) \<Rightarrow> Inl (refuse_broadcast rule)
         | r \<Rightarrow> r))"

text \<open>The result is the transaction's id, and the signed text the caller may ask for.\<close>

definition fundSignSend :: "Backend \<Rightarrow> DigiByteTransaction \<Rightarrow> (string \<times> string) step" where
  "fundSignSend bk tx =
     bindW (retW (rules_backstop bk tx)) (\<lambda>_.
     bindW (buildRawTransaction bk tx) (\<lambda>rawHex.
     send_attempts bk tx rawHex 0))"

end
