(* ===== verification/WalletLaws.thy ===== *)
theory WalletLaws
  imports WalletFunding
begin

text \<open>
  What the wallet functions guarantee, over the list of commands they issue: which commands a step can
  issue and how often, that every lock taken is released, that no coin holding assets can pay a fee,
  and that sending ends.
\<close>

subsection \<open>The commands of a step\<close>

text \<open>From \<open>h\<close> to \<open>h'\<close> commands were added, at most \<open>n\<close> of which satisfy \<open>P\<close>.\<close>

definition issued :: "(command \<Rightarrow> bool) \<Rightarrow> nat \<Rightarrow> command list \<Rightarrow> command list \<Rightarrow> bool" where
  "issued P n h h' \<longleftrightarrow> (\<exists>t. h' = h @ t \<and> length (filter P t) \<le> n)"

lemma issued_refl [simp, intro]: "issued P n h h"
  by (simp add: issued_def)

lemma issued_snoc [simp]: "issued P n h (h @ [c]) \<longleftrightarrow> (P c \<longrightarrow> 1 \<le> n)"
  by (auto simp: issued_def)

lemma issued_trans: "issued P n h h1 \<Longrightarrow> issued P k h1 h2 \<Longrightarrow> issued P (n + k) h h2"
  unfolding issued_def by (elim exE conjE) (intro exI[of _ "_ @ _"], auto)

lemma issued_trans0: "issued P 0 h h1 \<Longrightarrow> issued P n h1 h2 \<Longrightarrow> issued P n h h2"
  using issued_trans[of P 0] by simp

lemma issued_trans1: "issued P n h h1 \<Longrightarrow> issued P 0 h1 h2 \<Longrightarrow> issued P n h h2"
  using issued_trans[of P n h h1 0] by simp

lemma bindW_cases:
  assumes "bindW m f h = (r, h')"
  obtains (error) e where "m h = (Inl e, h')" "r = Inl e"
    | (next_step) x h1 where "m h = (Inr x, h1)" "f x h1 = (r, h')"
  using assms by (auto simp: bindW_def split: prod.splits sum.splits)

lemmas step_defs = callW_def retW_def askW_def

lemma foldW_issued:
  assumes "\<And>x s h r h'. f x s h = (r, h') \<Longrightarrow> issued P 0 h h'" "foldW f xs s h = (r, h')"
  shows "issued P 0 h h'"
  using assms(2)
proof (induction xs arbitrary: s h)
  case (Cons x xs)
  then show ?case by (auto elim!: bindW_cases dest: assms(1) intro: issued_trans0)
qed (simp add: retW_def)

text \<open>The commands of the two moments that matter.\<close>

fun is_fund :: "command \<Rightarrow> bool" where
  "is_fund (FundRawTransaction _ _) = True"
| "is_fund _ = False"

fun is_send :: "command \<Rightarrow> bool" where
  "is_send (SendRaw _) = True"
| "is_send _ = False"

fun is_lock :: "command \<Rightarrow> bool" where
  "is_lock (LockUnspent _ _) = True"
| "is_lock _ = False"

definition lock_commands :: "bool \<Rightarrow> outpoint list \<Rightarrow> command list" where
  "lock_commands b L = (if L = [] then [] else [LockUnspent b L])"

lemma lock_call_trace: "lock_call bk b L h = (r, h') \<Longrightarrow> h' = h @ lock_commands b L"
  by (auto simp: lock_call_def lock_commands_def step_defs split: if_splits)

lemma lock_step_trace:
  assumes "lock_step bk tx ch u st h = (r, h')"
  shows "\<exists>ts. h' = h @ ts \<and> set ts \<subseteq> range GetTxOut"
proof -
  have "h' = h \<or> h' = h @ [GetTxOut (outpoint_of u)]"
    using assms by (auto simp: lock_step_def needs_lock_def Let_def step_defs elim!: bindW_cases split: if_splits)
  then show ?thesis by (intro exI[of _ "drop (length h) h'"]) auto
qed

lemma lock_loop_trace:
  assumes "foldW (lock_step bk tx ch) coins st h = (r, h')"
  shows "\<exists>ts. h' = h @ ts \<and> set ts \<subseteq> range GetTxOut"
  using assms
proof (induction coins arbitrary: st h)
  case (Cons u coins)
  from Cons.prems show ?case unfolding foldW.simps
  proof (cases rule: bindW_cases)
    case (error e)
    then show ?thesis using lock_step_trace by blast
  next
    case (next_step x h1)
    obtain t1 where "h1 = h @ t1" "set t1 \<subseteq> range GetTxOut" using lock_step_trace[OF next_step(1)] by blast
    moreover obtain t2 where "h' = h1 @ t2" "set t2 \<subseteq> range GetTxOut" using Cons.IH[OF next_step(2)] by blast
    ultimately show ?thesis by (intro exI[of _ "t1 @ t2"]) simp
  qed
qed (simp add: retW_def)

lemma fund_locked_trace:
  assumes "fund_locked bk tx raw a L u h = (r, h')"
  shows "h' = h @ [FundRawTransaction raw (length (t_outputs tx) + 1)] @ lock_commands True L \<or>
    h' = h @ [FundRawTransaction raw (length (t_outputs tx) + 1)] \<and> bk_fund bk raw (length (t_outputs tx) + 1) h = Inl UndefinedBehaviour"
proof -
  let ?n = "length (t_outputs tx) + 1"
  show ?thesis
  proof (cases "bk_fund bk raw ?n h")
    case (Inr x)
    then show ?thesis using assms
      by (auto simp: fund_locked_def Let_def callW_def retW_def elim!: bindW_cases dest!: lock_call_trace)
  next
    case (Inl e)
    show ?thesis
    proof (cases "e = UndefinedBehaviour")
      case True
      then show ?thesis using assms Inl by (auto simp: fund_locked_def Let_def callW_def)
    next
      case False
      then obtain k where "bindW (lock_call bk True L) (\<lambda>_. retW k) (h @ [FundRawTransaction raw ?n]) = (r, h')"
        using assms Inl by (cases e) (auto simp: fund_locked_def Let_def callW_def split: if_splits)
      then show ?thesis by (auto simp: retW_def elim!: bindW_cases dest!: lock_call_trace)
    qed
  qed
qed

text \<open>An attempt asks for the height and the coins, looks at the coins, locks, funds, unlocks.\<close>

lemma fundOnce_trace:
  assumes "fundOnce bk tx raw a h = (r, h')"
  obtains (early) ts where "h' = h @ ts" "set ts \<subseteq> {GetBlockCount, ListUnspent 0} \<union> range GetTxOut"
    | (lock_refused) ch coins L u ts e where
        "foldW (lock_step bk tx ch) coins ([], False) (h @ [GetBlockCount, ListUnspent 0]) = (Inr (L, u), h @ GetBlockCount # ListUnspent 0 # ts)"
        "set ts \<subseteq> range GetTxOut" "h' = h @ GetBlockCount # ListUnspent 0 # ts @ [LockUnspent False L]"
        "bk_lock bk False L (h @ GetBlockCount # ListUnspent 0 # ts) = Inl e"
    | (funded) ch coins L u ts where
        "bk_unspent bk 0 (h @ [GetBlockCount]) = Inr coins"
        "foldW (lock_step bk tx ch) coins ([], False) (h @ [GetBlockCount, ListUnspent 0]) = (Inr (L, u), h @ GetBlockCount # ListUnspent 0 # ts)"
        "set ts \<subseteq> range GetTxOut"
        "fund_locked bk tx raw a L u (h @ GetBlockCount # ListUnspent 0 # ts @ lock_commands False L) = (r, h')"
proof -
  note run = assms[unfolded fundOnce_def]
  show ?thesis using run
  proof (cases rule: bindW_cases)
    case (error e)
    then show ?thesis by (intro early[of "[GetBlockCount]"]) (auto simp: callW_def)
  next
    case (next_step ch h1)
    then have h1: "h1 = h @ [GetBlockCount]" by (simp add: callW_def)
    from next_step(2) show ?thesis
    proof (cases rule: bindW_cases)
      case (error e)
      then show ?thesis by (intro early[of "[GetBlockCount, ListUnspent 0]"]) (auto simp: callW_def h1)
    next
      case (next_step coins h2)
      then have c: "bk_unspent bk 0 (h @ [GetBlockCount]) = Inr coins" "h2 = h @ [GetBlockCount, ListUnspent 0]"
        by (simp_all add: callW_def h1)
      from next_step(2) show ?thesis
      proof (cases rule: bindW_cases)
        case (error e)
        obtain ts where "h' = h2 @ ts" "set ts \<subseteq> range GetTxOut" using lock_loop_trace[OF error(1)] by blast
        then show ?thesis by (intro early[of "GetBlockCount # ListUnspent 0 # ts"]) (auto simp: c)
      next
        case (next_step Lu h3)
        obtain L u where Lu: "Lu = (L, u)" by (cases Lu)
        obtain ts where ts: "h3 = h2 @ ts" "set ts \<subseteq> range GetTxOut" using lock_loop_trace[OF next_step(1)] by blast
        have loop: "foldW (lock_step bk tx ch) coins ([], False) (h @ [GetBlockCount, ListUnspent 0]) =
            (Inr (L, u), h @ GetBlockCount # ListUnspent 0 # ts)" using next_step(1) by (simp add: c(2) ts(1) Lu)
        have "bindW (lock_call bk False L) (\<lambda>_. fund_locked bk tx raw a L u) h3 = (r, h')" using next_step(2) by (simp add: Lu)
        then show ?thesis
        proof (cases rule: bindW_cases)
          case (error e)
          then have "L \<noteq> []" "bk_lock bk False L h3 = Inl e" "h' = h3 @ [LockUnspent False L]"
            by (auto simp: lock_call_def step_defs split: if_splits)
          then show ?thesis using lock_refused[OF loop ts(2)] by (simp add: c(2) ts(1))
        next
          case (next_step x h4)
          then show ?thesis using funded[OF c(1) loop ts(2)] lock_call_trace[OF next_step(1)] by (simp add: c(2) ts(1))
        qed
      qed
    qed
  qed
qed

subsection \<open>Locks\<close>

fun apply_lock :: "command \<Rightarrow> outpoint set \<Rightarrow> outpoint set" where
  "apply_lock (LockUnspent False L) S = S \<union> set L"
| "apply_lock (LockUnspent True L) S = S - set L"
| "apply_lock _ S = S"

text \<open>The coins the wallet has locked after the commands \<open>h\<close>, when it had locked \<open>S\<close> before.\<close>

definition locks :: "outpoint set \<Rightarrow> command list \<Rightarrow> outpoint set" where
  "locks S h = fold apply_lock h S"

lemma locks_simps [simp]:
  "locks S [] = S" "locks S (c # h) = locks (apply_lock c S) h" "locks S (h @ t) = locks (locks S h) t"
  by (simp_all add: locks_def)

lemma locks_neutral: "list_all (\<lambda>c. \<not> is_lock c) h \<Longrightarrow> locks S h = S"
proof (induction h arbitrary: S)
  case (Cons c h)
  then show ?case by (cases c) simp_all
qed simp

lemma txout_neutral: "set ts \<subseteq> range GetTxOut \<Longrightarrow> locks S ts = S"
  by (rule locks_neutral) (auto simp: list_all_iff)

lemma locks_commands [simp]: "locks S (lock_commands b L) = (if b then S - set L else S \<union> set L)"
  by (simp add: lock_commands_def)

text \<open>The loop locks a coin unless it is an input or known to hold no assets.\<close>

definition known_free :: "Backend \<Rightarrow> unspenttxout_t \<Rightarrow> bool" where
  "known_free bk u \<longleftrightarrow> (\<exists>height h. height \<noteq> 0 \<and> db_needs_lock bk height u h = Inr False)"

lemma known_freeI: "db_needs_lock bk height u h = Inr False \<Longrightarrow> height \<noteq> 0 \<Longrightarrow> known_free bk u"
  by (auto simp: known_free_def)

lemma lock_step_protects:
  assumes "lock_step bk tx ch u st h = (Inr st', h')"
  shows "(fst st' = fst st \<and> (is_input tx u \<or> known_free bk u)) \<or> fst st' = fst st @ [outpoint_of u]"
  using assms by (auto simp: lock_step_def needs_lock_def Let_def step_defs elim!: bindW_cases intro: known_freeI split: if_splits)

lemma lock_loop_protects:
  assumes "foldW (lock_step bk tx ch) coins st h = (Inr st', h')"
  shows "set (fst st) \<subseteq> set (fst st') \<and> set (fst st') \<subseteq> set (fst st) \<union> outpoint_of ` set coins \<and>
    (\<forall>u \<in> set coins. is_input tx u \<or> known_free bk u \<or> outpoint_of u \<in> set (fst st'))"
  using assms
proof (induction coins arbitrary: st h)
  case (Cons u coins)
  from Cons.prems obtain s1 h1 where s: "lock_step bk tx ch u st h = (Inr s1, h1)" "foldW (lock_step bk tx ch) coins s1 h1 = (Inr st', h')"
    by (auto elim: bindW_E)
  show ?case using Cons.IH[OF s(2)] lock_step_protects[OF s(1)] by auto
qed (simp add: retW_def)

lemma split_once:
  assumes "xs @ a # ys = us @ b # vs" "P a" "P b" "\<forall>c \<in> set us. \<not> P c" "\<forall>c \<in> set vs. \<not> P c"
  shows "xs = us"
  using assms by (auto simp: append_eq_append_conv2 append_eq_Cons_conv Cons_eq_append_conv)

text \<open>At the moment of funding every other coin is locked.\<close>

lemma fundOnce_protects:
  assumes run: "fundOnce bk tx raw a h = (r, h')" and at: "h' = h @ t1 @ FundRawTransaction x n # t2"
  shows "\<exists>coins. bk_unspent bk 0 (h @ [GetBlockCount]) = Inr coins \<and>
    (\<forall>u \<in> set coins. is_input tx u \<or> known_free bk u \<or> outpoint_of u \<in> locks S (h @ t1))"
  using run
proof (cases rule: fundOnce_trace)
  case (early ts)
  then have "FundRawTransaction x n \<in> set ts" using at by auto
  then show ?thesis using early(2) by auto
next
  case (lock_refused ch coins L u ts e)
  then have e: "GetBlockCount # ListUnspent 0 # ts @ [LockUnspent False L] = t1 @ FundRawTransaction x n # t2" using at by simp
  have "FundRawTransaction x n \<in> set (GetBlockCount # ListUnspent 0 # ts @ [LockUnspent False L])" unfolding e by simp
  then show ?thesis using lock_refused(2) by auto
next
  case (funded ch coins L u ts)
  define pre where "pre = GetBlockCount # ListUnspent 0 # ts @ lock_commands False L"
  obtain post where post: "h' = (h @ pre) @ FundRawTransaction raw (length (t_outputs tx) + 1) # post" "post = [] \<or> post = lock_commands True L"
    using fund_locked_trace[OF funded(4)] by (auto simp: pre_def)
  have no: "\<forall>c \<in> set pre. \<not> is_fund c" "\<forall>c \<in> set post. \<not> is_fund c"
    using funded(3) post(2) by (auto simp: pre_def lock_commands_def split: if_splits)
  have "t1 @ FundRawTransaction x n # t2 = pre @ FundRawTransaction raw (length (t_outputs tx) + 1) # post"
    using at post(1) by simp
  then have "t1 = pre" by (rule split_once[where P = is_fund]) (use no in simp_all)
  then have "set L \<subseteq> locks S (h @ t1)" using txout_neutral[OF funded(3)] by (simp add: pre_def)
  then show ?thesis using funded(1) lock_loop_protects[OF funded(2)] by (intro exI[of _ coins]) auto
qed

text \<open>What the node promises: it grants locks, and does not list coins that are locked.\<close>

definition honest_locks :: "Backend \<Rightarrow> outpoint set \<Rightarrow> bool" where
  "honest_locks bk S \<longleftrightarrow>
     (\<forall>L h. bk_lock bk False L h = Inr ()) \<and> (\<forall>raw n h. bk_fund bk raw n h \<noteq> Inl UndefinedBehaviour) \<and>
     (\<forall>n h coins. bk_unspent bk n h = Inr coins \<longrightarrow> outpoint_of ` set coins \<inter> locks S h = {})"

lemma fundOnce_releases:
  assumes run: "fundOnce bk tx raw a h = (r, h')" and honest: "honest_locks bk S"
  shows "locks S h' = locks S h"
  using run
proof (cases rule: fundOnce_trace)
  case (early ts)
  then have "list_all (\<lambda>c. \<not> is_lock c) ts" by (auto simp: list_all_iff)
  then show ?thesis using locks_neutral by (simp add: early(1))
next
  case (lock_refused ch coins L u ts e)
  then show ?thesis using honest by (simp add: honest_locks_def)
next
  case (funded ch coins L u ts)
  have "outpoint_of ` set coins \<inter> locks S (h @ [GetBlockCount]) = {}" using honest funded(1) unfolding honest_locks_def by blast
  moreover have "set L \<subseteq> outpoint_of ` set coins" using lock_loop_protects[OF funded(2)] by simp
  ultimately have d: "set L \<inter> locks S h = {}" by auto
  let ?h = "h @ GetBlockCount # ListUnspent 0 # ts @ lock_commands False L"
  have l: "locks S ?h = locks S h \<union> set L" using txout_neutral[OF funded(3)] by simp
  show ?thesis using fund_locked_trace[OF funded(4)]
  proof
    assume "h' = ?h @ [FundRawTransaction raw (length (t_outputs tx) + 1)] @ lock_commands True L"
    then show ?thesis using l d by auto
  next
    assume "h' = ?h @ [FundRawTransaction raw (length (t_outputs tx) + 1)] \<and>
      bk_fund bk raw (length (t_outputs tx) + 1) ?h = Inl UndefinedBehaviour"
    then show ?thesis using honest unfolding honest_locks_def by blast
  qed
qed

subsection \<open>Sending ends\<close>

lemma fundOnce_counts:
  assumes "fundOnce bk tx raw a h = (r, h')"
  shows "issued is_fund 1 h h' \<and> issued is_send 0 h h'"
  using assms
proof (cases rule: fundOnce_trace)
  case (early ts)
  then have "filter is_fund ts = [] \<and> filter is_send ts = []" by (auto simp: filter_empty_conv)
  then show ?thesis by (auto simp: issued_def early(1))
next
  case (lock_refused ch coins L u ts e)
  then have "filter is_fund ts = [] \<and> filter is_send ts = []" by (auto simp: filter_empty_conv)
  then show ?thesis by (auto simp: issued_def lock_refused(3))
next
  case (funded ch coins L u ts)
  then have f: "filter is_fund ts = [] \<and> filter is_send ts = []" by (auto simp: filter_empty_conv)
  show ?thesis using fund_locked_trace[OF funded(4)] f by (auto simp: issued_def lock_commands_def)
qed

lemma signFunded_trace:
  assumes "signFunded bk raw h = (r, h')"
  shows "\<exists>ts. h' = h @ ts \<and> set ts \<subseteq> range SignWithWallet \<union> range SignRaw"
proof -
  have "h' = h @ [SignWithWallet raw] \<or> h' = h @ [SignWithWallet raw, SignRaw raw]"
    using assms by (auto simp: signFunded_def step_defs split: sum.splits cpp_error.splits elim!: bindW_cases)
  then show ?thesis by (intro exI[of _ "drop (length h) h'"]) auto
qed

lemma signed_text_trace:
  assumes "signed_text bk tx raw h = (r, h')"
  shows "\<exists>ts. h' = h @ ts \<and> set ts \<subseteq> range SignWithWallet \<union> range SignRaw \<union> range DecodeRaw"
  using assms unfolding signed_text_def
proof (cases rule: bindW_cases)
  case (error e)
  then show ?thesis using signFunded_trace by blast
next
  case (next_step x h1)
  obtain ts where ts: "h1 = h @ ts" "set ts \<subseteq> range SignWithWallet \<union> range SignRaw" using signFunded_trace[OF next_step(1)] by blast
  have "h' = h1 \<or> (\<exists>c \<in> range DecodeRaw. h' = h1 @ [c])"
    using next_step(2) by (auto simp: step_defs split: prod.splits if_splits elim!: bindW_cases)
  then show ?thesis using ts by auto
qed

lemma signed_text_counts:
  assumes "signed_text bk tx raw h = (r, h')"
  shows "issued is_fund 0 h h' \<and> issued is_send 0 h h' \<and> (\<forall>S. locks S h' = locks S h)"
proof -
  obtain ts where ts: "h' = h @ ts" "set ts \<subseteq> range SignWithWallet \<union> range SignRaw \<union> range DecodeRaw"
    using signed_text_trace[OF assms] by blast
  then have "filter is_fund ts = [] \<and> filter is_send ts = [] \<and> list_all (\<lambda>c. \<not> is_lock c) ts" by (auto simp: filter_empty_conv list_all_iff)
  then show ?thesis using locks_neutral by (auto simp: issued_def ts(1))
qed

text \<open>One round of the loop.\<close>

lemma send_attempts_cases:
  assumes "send_attempts bk tx raw a h = (r, h')"
  obtains (funding_failed) e where "fundOnce bk tx raw a h = (Inl e, h')" "r = Inl e"
    | (funding_again) h1 where "fundOnce bk tx raw a h = (Inr None, h1)" "a < 4" "send_attempts bk tx raw (a + 1) h1 = (r, h')"
    | (not_signed) fundedHex fee h1 e where "fundOnce bk tx raw a h = (Inr (Some (fundedHex, fee)), h1)"
        "signed_text bk tx fundedHex h1 = (Inl e, h')" "r = Inl e"
    | (sent) fundedHex fee h1 hex h2 where "fundOnce bk tx raw a h = (Inr (Some (fundedHex, fee)), h1)"
        "signed_text bk tx fundedHex h1 = (Inr hex, h2)" "h' = h2 @ [SendRaw hex]"
        "r = (case bk_send bk hex h2 of Inr txid \<Rightarrow> Inr (txid, hex) | Inl e \<Rightarrow> Inl e)"
    | (sending_again) fundedHex fee h1 hex h2 where "fundOnce bk tx raw a h = (Inr (Some (fundedHex, fee)), h1)"
        "signed_text bk tx fundedHex h1 = (Inr hex, h2)" "a < 4" "send_attempts bk tx raw (a + 1) (h2 @ [SendRaw hex]) = (r, h')"
proof -
  obtain q h1 where q: "fundOnce bk tx raw a h = (q, h1)" by fastforce
  note run = assms[unfolded send_attempts.simps[of bk tx raw a h] q prod.case]
  show ?thesis
  proof (cases q)
    case (Inl e)
    then show ?thesis using run q funding_failed by simp
  next
    case (Inr o1)
    show ?thesis
    proof (cases o1)
      case None
      then show ?thesis using run q Inr funding_again fundOnce_retry[of bk tx raw a h h1] by simp
    next
      case (Some f)
      obtain fundedHex fee where f: "f = (fundedHex, fee)" by (cases f)
      have q': "fundOnce bk tx raw a h = (Inr (Some (fundedHex, fee)), h1)" using q Inr Some f by simp
      obtain t h2 where t: "signed_text bk tx fundedHex h1 = (t, h2)" by fastforce
      show ?thesis
      proof (cases t)
        case (Inl e)
        then show ?thesis using run Inr Some f t not_signed[OF q'] by simp
      next
        case (Inr hex)
        note run = run[unfolded \<open>q = Inr o1\<close> Some f t Inr sum.case option.case prod.case callW_def]
        show ?thesis
        proof (cases "bk_send bk hex h2")
          case (Inr txid)
          then show ?thesis using run sent[OF q' t[unfolded \<open>t = Inr hex\<close>]] by simp
        next
          case (Inl e)
          then show ?thesis
            using run sent[OF q' t[unfolded \<open>t = Inr hex\<close>]] sending_again[OF q' t[unfolded \<open>t = Inr hex\<close>]]
            by (cases e) (auto split: if_splits)
        qed
      qed
    qed
  qed
qed

lemma send_attempts_counts:
  "send_attempts bk tx raw a h = (r, h') \<Longrightarrow> a \<le> 4 \<Longrightarrow> issued is_fund (5 - a) h h' \<and> issued is_send (5 - a) h h'"
proof (induction "5 - a" arbitrary: a h rule: less_induct)
  case less
  have one: "1 \<le> 5 - a" "a < 4 \<Longrightarrow> 5 - a = 1 + (5 - (a + 1))" using less.prems(2) by simp_all
  note mono = issued_trans1 issued_trans0
  have up: "issued P n h1 h2 \<Longrightarrow> n \<le> k \<Longrightarrow> issued P k h1 h2" for P n k h1 h2 by (auto simp: issued_def)
  from less.prems(1) show ?case
  proof (cases rule: send_attempts_cases)
    case (funding_failed e)
    then show ?thesis using fundOnce_counts[OF funding_failed(1)] up one(1) by blast
  next
    case (funding_again h1)
    have ih: "issued is_fund (5 - (a + 1)) h1 h' \<and> issued is_send (5 - (a + 1)) h1 h'"
      by (rule less.hyps[OF _ funding_again(3)]) (use funding_again(2) in simp_all)
    show ?thesis unfolding one(2)[OF funding_again(2)]
      using ih fundOnce_counts[OF funding_again(1)] issued_trans up[of is_send 0 h h1 1] by blast
  next
    case (not_signed fundedHex fee h1 e)
    then show ?thesis
      using fundOnce_counts[OF not_signed(1)] signed_text_counts[OF not_signed(2)] up one(1) mono by (meson le0)
  next
    case (sent fundedHex fee h1 hex h2)
    have "issued is_fund 0 h2 h'" "issued is_send 1 h2 h'" by (simp_all add: sent(3))
    then show ?thesis
      using fundOnce_counts[OF sent(1)] signed_text_counts[OF sent(2)] up one(1) mono by meson
  next
    case (sending_again fundedHex fee h1 hex h2)
    have ih: "issued is_fund (5 - (a + 1)) (h2 @ [SendRaw hex]) h' \<and> issued is_send (5 - (a + 1)) (h2 @ [SendRaw hex]) h'"
      by (rule less.hyps[OF _ sending_again(4)]) (use sending_again(3) in simp_all)
    have "issued is_fund 0 h2 (h2 @ [SendRaw hex])" "issued is_send 1 h2 (h2 @ [SendRaw hex])" by simp_all
    then have "issued is_fund 1 h (h2 @ [SendRaw hex])" "issued is_send 1 h (h2 @ [SendRaw hex])"
      using fundOnce_counts[OF sending_again(1)] signed_text_counts[OF sending_again(2)] mono by meson+
    then show ?thesis unfolding one(2)[OF sending_again(3)] using ih issued_trans by blast
  qed
qed

lemma send_attempts_releases:
  assumes "honest_locks bk S"
  shows "send_attempts bk tx raw a h = (r, h') \<Longrightarrow> locks S h' = locks S h"
proof (induction "5 - a" arbitrary: a h rule: less_induct)
  case less
  from less.prems(1) show ?case
  proof (cases rule: send_attempts_cases)
    case (funding_failed e)
    then show ?thesis using fundOnce_releases[OF _ assms] by blast
  next
    case (funding_again h1)
    then have "locks S h' = locks S h1" by (intro less.hyps) simp_all
    then show ?thesis using fundOnce_releases[OF funding_again(1) assms] by simp
  next
    case (not_signed fundedHex fee h1 e)
    then show ?thesis using fundOnce_releases[OF not_signed(1) assms] signed_text_counts[OF not_signed(2)] by simp
  next
    case (sent fundedHex fee h1 hex h2)
    then show ?thesis using fundOnce_releases[OF sent(1) assms] signed_text_counts[OF sent(2)] by simp
  next
    case (sending_again fundedHex fee h1 hex h2)
    then have "locks S h' = locks S (h2 @ [SendRaw hex])" by (intro less.hyps) simp_all
    then show ?thesis using fundOnce_releases[OF sending_again(1) assms] signed_text_counts[OF sending_again(2)] by simp
  qed
qed

lemma buildRaw_trace:
  assumes "buildRawTransaction bk tx h = (r, h')"
  shows "\<exists>ts. h' = h @ ts \<and> set ts \<subseteq> {c. \<exists>i os d. c = CreateRawTransaction i os d}"
  using assms by (auto simp: buildRawTransaction_def Let_def step_defs elim!: bindW_cases)

lemma buildRaw_counts:
  assumes "buildRawTransaction bk tx h = (r, h')"
  shows "issued is_fund 0 h h' \<and> issued is_send 0 h h' \<and> (\<forall>S. locks S h' = locks S h)"
proof -
  obtain ts where ts: "h' = h @ ts" "set ts \<subseteq> {c. \<exists>i os d. c = CreateRawTransaction i os d}" using buildRaw_trace[OF assms] by blast
  then have "filter is_fund ts = [] \<and> filter is_send ts = [] \<and> list_all (\<lambda>c. \<not> is_lock c) ts" by (auto simp: filter_empty_conv list_all_iff)
  then show ?thesis using locks_neutral by (auto simp: issued_def ts(1))
qed

lemma fundSignSend_cases:
  assumes "fundSignSend bk tx h = (r, h')"
  obtains (refused) e where "rules_backstop bk tx = Inl e" "r = Inl e" "h' = h"
    | (not_built) e where "rules_backstop bk tx = Inr ()" "buildRawTransaction bk tx h = (Inl e, h')" "r = Inl e"
    | (attempts) raw h1 where "rules_backstop bk tx = Inr ()" "buildRawTransaction bk tx h = (Inr raw, h1)"
        "send_attempts bk tx raw 0 h1 = (r, h')"
proof -
  show ?thesis
  proof (cases "rules_backstop bk tx")
    case (Inl e)
    then show ?thesis using assms refused by (simp add: fundSignSend_def bindW_def retW_def)
  next
    case (Inr x)
    then have "bindW (buildRawTransaction bk tx) (\<lambda>raw. send_attempts bk tx raw 0) h = (r, h')"
      using assms by (simp add: fundSignSend_def bindW_def retW_def)
    then show ?thesis using Inr not_built attempts by (cases rule: bindW_cases) auto
  qed
qed

lemma fundSignSend_counts:
  assumes "fundSignSend bk tx h = (r, h')"
  shows "issued is_fund 5 h h' \<and> issued is_send 5 h h'"
  using assms
proof (cases rule: fundSignSend_cases)
  case (not_built e)
  then show ?thesis using buildRaw_counts[OF not_built(2)] by (auto simp: issued_def)
next
  case (attempts raw h1)
  then show ?thesis
    using buildRaw_counts[OF attempts(2)] send_attempts_counts[OF attempts(3)] issued_trans0[of _ h h1] by auto
qed simp

lemma fundSignSend_releases:
  assumes "fundSignSend bk tx h = (r, h')" "honest_locks bk S"
  shows "locks S h' = locks S h"
  using assms(1)
proof (cases rule: fundSignSend_cases)
  case (not_built e)
  then show ?thesis using buildRaw_counts[OF not_built(2)] by simp
next
  case (attempts raw h1)
  then show ?thesis using buildRaw_counts[OF attempts(2)] send_attempts_releases[OF assms(2) attempts(3)] by simp
qed simp

subsection \<open>What is sent\<close>

text \<open>A signed text keeps the first input of the transaction first.\<close>

definition keeps_first_input :: "Backend \<Rightarrow> DigiByteTransaction \<Rightarrow> string \<Rightarrow> bool" where
  "keeps_first_input bk tx hex \<longleftrightarrow>
     t_inputs tx \<noteq> [] \<longrightarrow>
     (\<exists>h vin. bk_decode bk hex h = Inr vin \<and> vin \<noteq> [] \<and> hd vin = (ut_txid (hd (t_inputs tx)), ucast (ut_vout (hd (t_inputs tx)))))"

lemma signed_text_keeps:
  assumes "signed_text bk tx raw h = (Inr hex, h')"
  shows "keeps_first_input bk tx hex"
proof (cases "t_inputs tx")
  case (Cons u us)
  then have "\<exists>h vin. bk_decode bk hex h = Inr vin \<and> vin \<noteq> [] \<and> vin ! 0 = (ut_txid u, ucast (ut_vout u))"
    using assms by (auto simp: signed_text_def step_defs vec_get_def split: if_splits elim!: bindW_E) fastforce
  then show ?thesis using Cons by (metis hd_conv_nth keeps_first_input_def list.sel(1))
qed (simp add: keeps_first_input_def)

lemma send_attempts_sends:
  "send_attempts bk tx raw a h = (r, h') \<Longrightarrow>
    \<exists>t. h' = h @ t \<and> (\<forall>hex. SendRaw hex \<in> set t \<longrightarrow> keeps_first_input bk tx hex) \<and>
      (\<forall>txid hex. r = Inr (txid, hex) \<longrightarrow> t \<noteq> [] \<and> last t = SendRaw hex)"
proof (induction "5 - a" arbitrary: a h rule: less_induct)
  case less
  have lt: "a < 4 \<Longrightarrow> 5 - (a + 1) < 5 - a" by arith
  have none: "\<exists>t. h2 = h1 @ t \<and> (\<forall>hex. SendRaw hex \<notin> set t)" if "issued is_send 0 h1 h2" for h1 h2
    using that by (fastforce simp: issued_def filter_empty_conv)
  from less.prems(1) show ?case
  proof (cases rule: send_attempts_cases)
    case (funding_failed e)
    then show ?thesis using none fundOnce_counts[OF funding_failed(1)] by blast
  next
    case (funding_again h1)
    obtain t where "h' = h1 @ t" "\<forall>hex. SendRaw hex \<in> set t \<longrightarrow> keeps_first_input bk tx hex"
      "\<forall>txid hex. r = Inr (txid, hex) \<longrightarrow> t \<noteq> [] \<and> last t = SendRaw hex"
      using less.hyps[OF lt[OF funding_again(2)] funding_again(3)] by blast
    moreover obtain t1 where "h1 = h @ t1" "\<forall>hex. SendRaw hex \<notin> set t1" using none fundOnce_counts[OF funding_again(1)] by blast
    ultimately show ?thesis by (intro exI[of _ "t1 @ t"]) auto
  next
    case (not_signed fundedHex fee h1 e)
    obtain t1 t2 where "h1 = h @ t1" "\<forall>hex. SendRaw hex \<notin> set t1" "h' = h1 @ t2" "\<forall>hex. SendRaw hex \<notin> set t2"
      using none fundOnce_counts[OF not_signed(1)] signed_text_counts[OF not_signed(2)] by metis
    then show ?thesis using not_signed(3) by (intro exI[of _ "t1 @ t2"]) auto
  next
    case (sent fundedHex fee h1 hex h2)
    obtain t1 t2 where "h1 = h @ t1" "\<forall>hex. SendRaw hex \<notin> set t1" "h2 = h1 @ t2" "\<forall>hex. SendRaw hex \<notin> set t2"
      using none fundOnce_counts[OF sent(1)] signed_text_counts[OF sent(2)] by metis
    then show ?thesis using sent(3,4) signed_text_keeps[OF sent(2)]
      by (intro exI[of _ "t1 @ t2 @ [SendRaw hex]"]) (auto split: sum.splits)
  next
    case (sending_again fundedHex fee h1 hex h2)
    obtain t1 t2 where "h1 = h @ t1" "\<forall>hex. SendRaw hex \<notin> set t1" "h2 = h1 @ t2" "\<forall>hex. SendRaw hex \<notin> set t2"
      using none fundOnce_counts[OF sending_again(1)] signed_text_counts[OF sending_again(2)] by metis
    moreover obtain t where "h' = (h2 @ [SendRaw hex]) @ t" "\<forall>hex. SendRaw hex \<in> set t \<longrightarrow> keeps_first_input bk tx hex"
      "\<forall>txid hex. r = Inr (txid, hex) \<longrightarrow> t \<noteq> [] \<and> last t = SendRaw hex"
      using less.hyps[OF lt[OF sending_again(3)] sending_again(4)] by blast
    ultimately show ?thesis using signed_text_keeps[OF sending_again(2)]
      by (intro exI[of _ "t1 @ t2 @ SendRaw hex # t"]) auto
  qed
qed

lemma fundSignSend_sends:
  assumes "fundSignSend bk tx h = (r, h')"
  shows "\<exists>t. h' = h @ t \<and>
    (\<forall>hex. SendRaw hex \<in> set t \<longrightarrow> rules_backstop bk tx = Inr () \<and> keeps_first_input bk tx hex) \<and>
    (\<forall>txid hex. r = Inr (txid, hex) \<longrightarrow> SendRaw hex \<in> set t)"
  using assms
proof (cases rule: fundSignSend_cases)
  case (not_built e)
  obtain ts where ts: "h' = h @ ts" "set ts \<subseteq> {c. \<exists>i os d. c = CreateRawTransaction i os d}" using buildRaw_trace[OF not_built(2)] by blast
  then show ?thesis using not_built(3) by auto
next
  case (attempts raw h1)
  obtain ts where ts: "h1 = h @ ts" "set ts \<subseteq> {c. \<exists>i os d. c = CreateRawTransaction i os d}" using buildRaw_trace[OF attempts(2)] by blast
  obtain t where "h' = h1 @ t" "\<forall>hex. SendRaw hex \<in> set t \<longrightarrow> keeps_first_input bk tx hex"
    "\<forall>txid hex. r = Inr (txid, hex) \<longrightarrow> t \<noteq> [] \<and> last t = SendRaw hex"
    using send_attempts_sends[OF attempts(3)] by blast
  then show ?thesis using ts attempts(1) by (intro exI[of _ "ts @ t"]) (auto, metis last_in_set)
qed simp

subsection \<open>Quoting a fee\<close>

lemma quote_rest_trace:
  "quote_paytxfee bk tx h = (r, h') \<Longrightarrow> h' = h @ [GetWalletInfo]"
  "quote_estimate bk tx fr h = (r2, h') \<Longrightarrow> h' = h @ [EstimateSmartFee 6]"
  by (auto simp: quote_paytxfee_def quote_estimate_def catchW_def bindW_def step_defs
      split: sum.splits prod.splits option.splits cpp_error.splits)

lemma quote_funded_quiet:
  assumes "quote_funded bk tx h = (r, h')"
  shows "issued is_send 0 h h' \<and> (honest_locks bk S \<longrightarrow> locks S h' = locks S h)"
proof -
  obtain m where m: "bindW (buildRawTransaction bk tx) (\<lambda>raw. bindW (fundOnce bk tx raw 4) (\<lambda>q. retW (Inr q))) h = (m, h')"
    using assms by (auto simp: quote_funded_def catchW_def bindW_def retW_def split: sum.splits prod.splits cpp_error.splits)
  from m show ?thesis
  proof (cases rule: bindW_cases)
    case (error e)
    then show ?thesis using buildRaw_counts[OF error(1)] by simp
  next
    case (next_step raw h2)
    then obtain q where q: "fundOnce bk tx raw 4 h2 = (q, h')" by (auto simp: retW_def elim!: bindW_cases)
    show ?thesis
      using buildRaw_counts[OF next_step(1)] fundOnce_counts[OF q] fundOnce_releases[OF q] issued_trans0 by metis
  qed
qed

lemma estimateMinerFee_quiet:
  assumes "estimateMinerFee bk tx h = (r, h')"
  shows "issued is_send 0 h h' \<and> (honest_locks bk S \<longrightarrow> locks S h' = locks S h)"
proof -
  obtain q h1 where q: "quote_funded bk tx h = (q, h1)" by fastforce
  obtain t where t: "h' = h1 @ t" "set t \<subseteq> {GetWalletInfo, EstimateSmartFee 6}"
    using assms q by (auto simp: estimateMinerFee_def retW_def dest!: quote_rest_trace elim!: bindW_cases split: option.splits prod.splits)
  then have "filter is_send t = []" "list_all (\<lambda>c. \<not> is_lock c) t" by (auto simp: filter_empty_conv list_all_iff)
  then have "issued is_send 0 h1 h'" "locks S h' = locks S h1" using locks_neutral by (auto simp: t(1) issued_def)
  then show ?thesis using quote_funded_quiet[OF q, of S] issued_trans0 by auto
qed

subsection \<open>Sending succeeds\<close>

text \<open>
  A node that answers: it signs, keeps the first input, and sends, after at most four conflicts with
  transactions it has not seen yet.
\<close>

definition obliging :: "Backend \<Rightarrow> DigiByteTransaction \<Rightarrow> bool" where
  "obliging bk tx \<longleftrightarrow>
     (\<forall>h. \<exists>n. bk_blockCount bk h = Inr n) \<and> (\<forall>n h. \<exists>coins. bk_unspent bk n h = Inr coins) \<and>
     (\<forall>i n h. bk_assetUTXO bk i n h = Inl DataPruned \<or> (\<exists>u. bk_assetUTXO bk i n h = Inr u)) \<and>
     (\<forall>n h. \<exists>b. bk_isHeightIndexed bk n h = Inr b) \<and> (\<forall>p h. \<exists>b. bk_txOutIsNull bk p h = Inr b) \<and>
     (\<forall>b L h. bk_lock bk b L h = Inr ()) \<and> (\<forall>h. \<exists>raw. bk_create bk h = Inr raw) \<and>
     (\<forall>raw n h. \<exists>f. bk_fund bk raw n h = Inr f) \<and> (\<forall>raw h. \<exists>hex. bk_signWithWallet bk raw h = Inr (True, hex)) \<and>
     (\<forall>hex h. \<exists>vin. bk_decode bk hex h = Inr vin \<and>
        (t_inputs tx \<noteq> [] \<longrightarrow> vin \<noteq> [] \<and> vin ! 0 = (ut_txid (t_inputs tx ! 0), ucast (ut_vout (t_inputs tx ! 0))))) \<and>
     (\<forall>hex h. (\<exists>txid. bk_send bk hex h = Inr txid) \<or>
        (\<exists>c m. bk_send bk hex h = Inl (DigiByteException c m) \<and> str_contains ''onflict'' m \<and> length (filter is_send h) < 4))"

lemma obligingD:
  assumes "obliging bk tx"
  shows "\<exists>n. bk_blockCount bk h = Inr n" "\<exists>coins. bk_unspent bk k h = Inr coins"
    "bk_assetUTXO bk i v h = Inl DataPruned \<or> (\<exists>e. bk_assetUTXO bk i v h = Inr e)"
    "\<exists>b. bk_isHeightIndexed bk ht h = Inr b" "\<exists>b. bk_txOutIsNull bk p h = Inr b"
    "bk_lock bk b L h = Inr ()" "\<exists>raw. bk_create bk h = Inr raw" "\<exists>f. bk_fund bk raw k h = Inr f"
    "\<exists>hex. bk_signWithWallet bk raw h = Inr (True, hex)"
    "\<exists>vin. bk_decode bk hex h = Inr vin \<and>
      (t_inputs tx \<noteq> [] \<longrightarrow> vin \<noteq> [] \<and> vin ! 0 = (ut_txid (t_inputs tx ! 0), ucast (ut_vout (t_inputs tx ! 0))))"
    "(\<exists>txid. bk_send bk hex h = Inr txid) \<or>
      (\<exists>c m. bk_send bk hex h = Inl (DigiByteException c m) \<and> str_contains ''onflict'' m \<and> length (filter is_send h) < 4)"
  using assms by (cases p; simp add: obliging_def)+

lemma foldW_ok:
  assumes "\<And>x s h. \<exists>s' h'. f x s h = (Inr s', h')"
  shows "\<exists>s' h'. foldW f xs s h = (Inr s', h')"
proof (induction xs arbitrary: s h)
  case (Cons x xs)
  obtain s1 h1 where "f x s h = (Inr s1, h1)" using assms by blast
  then show ?case using Cons.IH[of s1 h1] by (simp add: bindW_def)
qed (simp add: retW_def)

lemma lock_step_ok:
  assumes "obliging bk tx"
  shows "\<exists>st' h'. lock_step bk tx' ch u st h = (Inr st', h')"
proof -
  have "\<exists>b h'. needs_lock bk ch u h = (Inr b, h')"
  proof (cases "utxo_height ch u = 0")
    case False
    have "\<exists>b. db_needs_lock bk (utxo_height ch u) u h = Inr b"
    proof -
      have "bk_assetUTXO bk (u_txid u) (u_n u) h = Inl DataPruned \<or> (\<exists>e. bk_assetUTXO bk (u_txid u) (u_n u) h = Inr e)"
        "\<exists>b. bk_isHeightIndexed bk (utxo_height ch u) h = Inr b"
        using obligingD(3,4)[OF assms] by blast+
      then show ?thesis by (auto simp: db_needs_lock_def)
    qed
    moreover obtain b where "bk_txOutIsNull bk (outpoint_of u) h = Inr b" using obligingD(5)[OF assms] by blast
    ultimately show ?thesis using False by (auto simp: needs_lock_def Let_def bindW_def step_defs)
  qed (auto simp: needs_lock_def Let_def bindW_def retW_def)
  then show ?thesis by (auto simp: lock_step_def bindW_def retW_def)
qed

lemma fundOnce_ok:
  assumes "obliging bk tx"
  shows "\<exists>f h'. fundOnce bk tx raw a h = (Inr (Some f), h')"
proof -
  obtain n where n: "bk_blockCount bk h = Inr n" using obligingD(1)[OF assms] by blast
  obtain cs where cs: "bk_unspent bk 0 (h @ [GetBlockCount]) = Inr cs" using obligingD(2)[OF assms] by blast
  obtain Lu h1 where Lu: "foldW (lock_step bk tx n) cs ([], False) (h @ [GetBlockCount, ListUnspent 0]) = (Inr Lu, h1)"
    using foldW_ok[of "lock_step bk tx n" cs "([], False)" "h @ [GetBlockCount, ListUnspent 0]"] lock_step_ok[OF assms] by blast
  obtain L u where L: "foldW (lock_step bk tx n) cs ([], False) (h @ [GetBlockCount, ListUnspent 0]) = (Inr (L, u), h1)"
    using Lu by (cases Lu) simp
  have lk: "bk_lock bk b L' h' = Inr ()" for b L' h' using obligingD(6)[OF assms] by blast
  obtain f where f: "bk_fund bk raw (length (t_outputs tx) + 1) (h1 @ lock_commands False L) = Inr f"
    using obligingD(8)[OF assms] by blast
  have lc: "lock_call bk b L' h' = (Inr (), h' @ lock_commands b L')" for b L' h'
    using lk by (simp add: lock_call_def lock_commands_def step_defs)
  have fl: "fund_locked bk tx raw a L u (h1 @ lock_commands False L) = (Inr (Some f),
      (h1 @ lock_commands False L) @ [FundRawTransaction raw (length (t_outputs tx) + 1)] @ lock_commands True L)"
    using f by (simp add: fund_locked_def Let_def bindW_def lc callW_def retW_def)
  show ?thesis using n cs L by (simp add: fundOnce_def bindW_def callW_def lc fl)
qed

lemma signed_text_ok:
  assumes "obliging bk tx"
  shows "\<exists>hex h'. signed_text bk tx raw h = (Inr hex, h')"
proof -
  obtain hex where x: "bk_signWithWallet bk raw h = Inr (True, hex)" using obligingD(9)[OF assms] by blast
  obtain vin where "bk_decode bk hex (h @ [SignWithWallet raw]) = Inr vin"
    "t_inputs tx \<noteq> [] \<longrightarrow> vin \<noteq> [] \<and> vin ! 0 = (ut_txid (t_inputs tx ! 0), ucast (ut_vout (t_inputs tx ! 0)))"
    using obligingD(10)[OF assms] by blast
  then show ?thesis using x by (auto simp: signed_text_def signFunded_def bindW_def step_defs vec_get_def)
qed

lemma send_attempts_ok:
  assumes "obliging bk tx"
  shows "a \<le> 4 \<Longrightarrow> a \<le> length (filter is_send h) \<Longrightarrow> \<exists>sent h'. send_attempts bk tx raw a h = (Inr sent, h')"
proof (induction "5 - a" arbitrary: a h rule: less_induct)
  case less
  obtain x h1 where x: "fundOnce bk tx raw a h = (Inr (Some x), h1)" using fundOnce_ok[OF assms] by blast
  obtain fundedHex fee where f: "fundOnce bk tx raw a h = (Inr (Some (fundedHex, fee)), h1)" using x by (cases x) simp
  obtain hex h2 where t: "signed_text bk tx fundedHex h1 = (Inr hex, h2)" using signed_text_ok[OF assms] by blast
  have "issued is_send 0 h h1" "issued is_send 0 h1 h2" using fundOnce_counts[OF f] signed_text_counts[OF t] by simp_all
  then have n: "length (filter is_send h2) = length (filter is_send h)" by (auto simp: issued_def)
  note run = send_attempts.simps[of bk tx raw a h]
  have s: "(\<exists>txid. bk_send bk hex h2 = Inr txid) \<or>
      (\<exists>c m. bk_send bk hex h2 = Inl (DigiByteException c m) \<and> str_contains ''onflict'' m \<and> length (filter is_send h2) < 4)"
    using obligingD(11)[OF assms] by blast
  show ?case
  proof (cases "bk_send bk hex h2")
    case (Inr txid)
    then show ?thesis using f t by (simp add: run callW_def)
  next
    case (Inl e)
    then obtain c m where e: "e = DigiByteException c m" "str_contains ''onflict'' m" "length (filter is_send h2) < 4" using s by auto
    then have a: "a < 4" using less.prems(2) n by simp
    then have "\<exists>sent h'. send_attempts bk tx raw (a + 1) (h2 @ [SendRaw hex]) = (Inr sent, h')"
      using less.prems(2) n by (intro less.hyps) simp_all
    then show ?thesis using f t Inl e a by (simp add: run callW_def)
  qed
qed

lemma fundSignSend_ok:
  assumes "obliging bk tx" "rules_backstop bk tx = Inr ()" "encodeAssetOpReturn tx = Inr data"
  shows "\<exists>txid hex h'. fundSignSend bk tx h = (Inr (txid, hex), h')"
proof -
  obtain raw where "bk_create bk h = Inr raw" using obligingD(7)[OF assms(1)] by blast
  then obtain h1 where "buildRawTransaction bk tx h = (Inr raw, h1)"
    using assms(3) by (simp add: buildRawTransaction_def Let_def bindW_def step_defs)
  then show ?thesis using assms(2) send_attempts_ok[OF assms(1), of 0 h1 raw] by (simp add: fundSignSend_def bindW_def retW_def)
qed

subsection \<open>Expired assets\<close>

lemma expired_refused:
  assumes "assertTransferableAsset a height time = Inl refuse_expired" "asset_changes (assetIndex a) ins outs = Inr cs"
  shows "(DigiAsset_checkRulesPass node ins outs height time a = Inr ()) = consolidation cs"
proof -
  have e: "\<not> rules_empty (da_rules a)" "getIfExpired height time (da_rules a)"
    using assms(1) by (auto simp: assertTransferableAsset_def Let_def refuse_output_def refuse_signer_def refuse_expired_def split: if_splits)
  show ?thesis using e assms(2) by (auto simp: DigiAsset_checkRulesPass_def Let_def elim!: bindE_E)
qed

end
