(* ===== verification/WalletSelection.thy ===== *)
theory WalletSelection
  imports AssetWallet "HOL-Library.Multiset"
begin

text \<open>
  What \<^verbatim>\<open>selectAssetInputs\<close> chooses: coins of the wallet that cover the amount, one coin that
  is just enough when there is one, and otherwise as few coins as possible.
\<close>

subsection \<open>The units a coin holds\<close>

definition units :: "u64 \<Rightarrow> AssetUTXO \<Rightarrow> nat" where
  "units index u = (case countOf index u of Inr c \<Rightarrow> unat c | Inl _ \<Rightarrow> 0)"

definition numbered :: "u64 \<Rightarrow> AssetUTXO \<Rightarrow> bool" where
  "numbered index u \<longleftrightarrow> is_ok (countOf index u)"

lemma numbered_count: "numbered index u \<Longrightarrow> countOf index u = Inr (of_nat (units index u))"
  by (auto simp: numbered_def units_def is_ok_def split: sum.splits)

lemma unat_units: "unat (of_nat (units index u) :: u64) = units index u"
  by (auto simp: units_def split: sum.splits)

lemma units_less: "units index u < 2 ^ 64"
proof -
  have "unat (of_nat (units index u) :: u64) < 2 ^ LENGTH(64)" by (rule unsigned_less)
  then show ?thesis unfolding unat_units by simp
qed

abbreviation "total_units index us \<equiv> sum_list (map (units index) us)"

subsection \<open>One coin that is enough\<close>

definition enough_alone :: "u64 \<Rightarrow> u64 \<Rightarrow> AssetUTXO \<Rightarrow> bool" where
  "enough_alone index amount u \<longleftrightarrow> is_pure u \<and> unat amount \<le> units index u"

lemma single_coin_best:
  assumes "\<forall>u \<in> set cs. numbered index u" "\<forall>s. single = Some s \<longrightarrow> numbered index s \<and> enough_alone index amount s"
  shows "\<exists>r. single_coin index amount single cs = Inr r \<and>
    (case r of
       None \<Rightarrow> single = None \<and> (\<forall>u \<in> set cs. \<not> enough_alone index amount u)
     | Some s \<Rightarrow> s \<in> set_option single \<union> set cs \<and> enough_alone index amount s \<and>
         (\<forall>u \<in> set_option single \<union> set cs. enough_alone index amount u \<longrightarrow> units index s \<le> units index u))"
  using assms
proof (induction cs arbitrary: single)
  case Nil
  then show ?case by (auto split: option.splits)
next
  case (Cons u cs)
  have n: "countOf index u = Inr (of_nat (units index u))" using Cons.prems(1) numbered_count by simp
  have cmp: "of_nat (units index u) < amount \<longleftrightarrow> units index u < unat amount" "of_nat (units index u) = amount \<longleftrightarrow> units index u = unat amount"
    by (simp_all add: word_less_nat_alt unat_units word_unat_eq_iff)
  have cs: "\<forall>u \<in> set cs. numbered index u" using Cons.prems(1) by simp
  consider (skip) "\<not> enough_alone index amount u" | (exact) "is_pure u" "units index u = unat amount"
    | (more) "is_pure u" "unat amount < units index u" unfolding enough_alone_def by linarith
  then show ?case
  proof cases
    case skip
    then have "single_coin index amount single (u # cs) = single_coin index amount single cs"
      using n cmp by (auto simp: enough_alone_def)
    then show ?thesis using Cons.IH[OF cs Cons.prems(2)] skip by (auto split: option.splits)
  next
    case exact
    then show ?thesis using n cmp by (auto simp: enough_alone_def)
  next
    case more
    then have e: "enough_alone index amount u" by (simp add: enough_alone_def)
    show ?thesis
    proof (cases single)
      case None
      have "single_coin index amount single (u # cs) = single_coin index amount (Some u) cs"
        using more n cmp None by simp
      then show ?thesis using Cons.IH[OF cs, of "Some u"] Cons.prems(1) e None by (auto split: option.splits)
    next
      case (Some s)
      have s: "countOf index s = Inr (of_nat (units index s))" "enough_alone index amount s"
        using Cons.prems(2) Some numbered_count by auto
      have lt: "(of_nat (units index u) :: u64) < of_nat (units index s) \<longleftrightarrow> units index u < units index s"
        by (simp add: word_less_nat_alt unat_units)
      define b where "b = (if units index u < units index s then u else s)"
      have b: "numbered index b" "enough_alone index amount b" "units index b \<le> units index u" "units index b \<le> units index s"
        using Cons.prems Some e by (auto simp: b_def)
      have "single_coin index amount single (u # cs) = single_coin index amount (Some b) cs"
        using more n cmp Some s lt by (simp add: b_def)
      moreover obtain r where r: "single_coin index amount (Some b) cs = Inr (Some r)" "r \<in> {b} \<union> set cs" "enough_alone index amount r"
        "\<forall>u \<in> {b} \<union> set cs. enough_alone index amount u \<longrightarrow> units index r \<le> units index u"
        using Cons.IH[OF cs, of "Some b"] b(1,2) by (auto split: option.splits)
      moreover have "b = u \<or> b = s" by (simp add: b_def)
      ultimately show ?thesis using b Some by (intro exI[of _ "Some r"]) (auto intro: le_trans)
    qed
  qed
qed

subsection \<open>Gathering\<close>

lemma gather_prefix:
  assumes "\<forall>u \<in> set cs. numbered index u" "unat got + total_units index cs < 2 ^ 64" "gather_coins index amount sel got cs = Inr (sel', got')"
  shows "\<exists>k \<le> length cs. sel' = sel @ take k cs \<and> unat got' = unat got + total_units index (take k cs) \<and>
    (unat amount \<le> unat got' \<or> k = length cs) \<and> (0 < k \<longrightarrow> unat got + total_units index (take (k - 1) cs) < unat amount)"
  using assms
proof (induction cs arbitrary: sel got)
  case Nil
  then show ?case by simp
next
  case (Cons u cs)
  show ?case
  proof (cases "got \<ge> amount")
    case True
    then show ?thesis using Cons.prems(3) by (intro exI[of _ 0]) (simp add: word_le_nat_alt)
  next
    case False
    have n: "countOf index u = Inr (of_nat (units index u))" using Cons.prems(1) numbered_count by simp
    have a: "unat (got + of_nat (units index u)) = unat got + units index u"
      using Cons.prems(2) by (simp add: unat_add_lem[THEN iffD1] unat_units)
    have run: "gather_coins index amount (sel @ [u]) (got + of_nat (units index u)) cs = Inr (sel', got')"
      using Cons.prems(3) False n by simp
    obtain k where k: "k \<le> length cs" "sel' = sel @ u # take k cs" "unat got' = unat got + units index u + total_units index (take k cs)"
      "unat amount \<le> unat got' \<or> k = length cs"
      "0 < k \<longrightarrow> unat got + units index u + total_units index (take (k - 1) cs) < unat amount"
      using Cons.IH[OF _ _ run] Cons.prems(1,2) unfolding a by auto
    have "unat got + total_units index (take k (u # cs)) < unat amount"
      using k(5) False by (cases k) (simp_all add: word_le_nat_alt add.assoc)
    then show ?thesis using k by (intro exI[of _ "Suc k"]) simp
  qed
qed

lemma gather_total:
  "\<forall>u \<in> set cs. numbered index u \<Longrightarrow> \<exists>r. gather_coins index amount sel got cs = Inr r"
  by (induction cs arbitrary: sel got) (auto simp: numbered_count)

text \<open>What \<^verbatim>\<open>pick_coins\<close> returns, for any order of the candidates.\<close>

lemma pick_coins_spec:
  assumes "\<forall>u \<in> set cs. numbered index u" "total_units index cs < 2 ^ 64"
  shows "pick_coins index amount cs =
      (if total_units index cs < unat amount then Inl NotEnoughFunds else pick_coins index amount cs) \<and>
    (unat amount \<le> total_units index cs \<longrightarrow> (\<exists>sel. pick_coins index amount cs = Inr sel \<and>
       unat amount \<le> total_units index sel \<and>
       ((\<exists>s. sel = [s] \<and> s \<in> set cs \<and> enough_alone index amount s \<and>
           (\<forall>u \<in> set cs. enough_alone index amount u \<longrightarrow> units index s \<le> units index u)) \<or>
        (\<forall>u \<in> set cs. \<not> enough_alone index amount u) \<and>
        (\<exists>k \<le> length cs. sel = take k cs \<and> (0 < k \<longrightarrow> total_units index (take (k - 1) cs) < unat amount)))))"
proof -
  obtain r where r: "single_coin index amount None cs = Inr r"
    "case r of None \<Rightarrow> \<forall>u \<in> set cs. \<not> enough_alone index amount u
     | Some s \<Rightarrow> s \<in> set cs \<and> enough_alone index amount s \<and> (\<forall>u \<in> set cs. enough_alone index amount u \<longrightarrow> units index s \<le> units index u)"
    using single_coin_best[OF assms(1), of None amount] by (auto split: option.splits)
  show ?thesis
  proof (cases r)
    case (Some s)
    then have s: "s \<in> set cs" "unat amount \<le> units index s" using r(2) by (auto simp: enough_alone_def)
    then have "units index s \<le> total_units index cs" by (simp add: member_le_sum_list)
    then show ?thesis using r Some s by (auto simp: pick_coins_def)
  next
    case None
    obtain sel got where g: "gather_coins index amount [] 0 cs = Inr (sel, got)" using gather_total[OF assms(1)] by fastforce
    obtain k where k: "k \<le> length cs" "sel = take k cs" "unat got = total_units index (take k cs)"
      "unat amount \<le> unat got \<or> k = length cs" "0 < k \<longrightarrow> total_units index (take (k - 1) cs) < unat amount"
      using gather_prefix[OF assms(1) _ g] assms(2) by auto
    have le: "total_units index (take k cs) \<le> total_units index cs"
      by (metis append_take_drop_id le_add1 map_append sum_list_append)
    have p: "pick_coins index amount cs = (if got < amount then Inl NotEnoughFunds else Inr sel)"
      using r None g by (simp add: pick_coins_def)
    have e: "got < amount \<longleftrightarrow> total_units index cs < unat amount"
      using k(3,4) le by (auto simp: word_less_nat_alt)
    show ?thesis using p e k r(2) None by (auto simp: word_less_nat_alt)
  qed
qed

subsection \<open>The order of the candidates\<close>

text \<open>
  A strict weak order on finitely many elements is a comparison of keys. \<open>sorter_ok\<close> is what
  \<^verbatim>\<open>std::sort\<close> promises: the same elements, none before one that must precede it.
\<close>

definition sorter_ok :: "sorter \<Rightarrow> bool" where
  "sorter_ok std_sort \<longleftrightarrow>
     (\<forall>before cs rank. (\<forall>a \<in> set cs. \<forall>b \<in> set cs. before a b = Inr ((rank b :: nat) < rank a)) \<longrightarrow>
        (\<exists>cs'. std_sort before cs = Inr cs' \<and> mset cs' = mset cs \<and> sorted_wrt (\<lambda>a b. rank b \<le> rank a) cs'))"

definition coin_key :: "u64 \<Rightarrow> AssetUTXO \<Rightarrow> nat" where
  "coin_key index u = (if is_pure u then 2 ^ 64 else 0) + units index u"

lemma coin_before_key:
  assumes "numbered index a" "numbered index b"
  shows "coin_before index a b = Inr (coin_key index b < coin_key index a)"
proof -
  have "(of_nat (units index b) :: u64) < of_nat (units index a) \<longleftrightarrow> units index b < units index a"
    by (simp add: word_less_nat_alt unat_units)
  then show ?thesis
    using assms[THEN numbered_count] units_less[of index a] units_less[of index b]
    by (auto simp: coin_before_def coin_key_def)
qed

text \<open>In a list sorted by decreasing value no choice of elements is worth more than the first ones.\<close>

lemma first_worth_most:
  assumes "sorted_wrt (\<lambda>a b. f b \<le> (f a :: nat)) cs" "mset xs \<subseteq># mset cs"
  shows "sum_list (map f xs) \<le> sum_list (map f (take (length xs) cs))"
  using assms
proof (induction cs arbitrary: xs)
  case (Cons c cs)
  show ?case
  proof (cases xs)
    case (Cons x ys)
    have len: "length xs = Suc (length ys)" using Cons by simp
    show ?thesis
    proof (cases "c \<in> set xs")
      case True
      then have m: "mset xs = add_mset c (mset (remove1 c xs))" by simp
      have "mset (remove1 c xs) \<subseteq># mset cs" using Cons.prems(2)[unfolded m mset.simps(2)] by (simp only: mset_subset_eq_add_mset_cancel)
      then have "sum_list (map f (remove1 c xs)) \<le> sum_list (map f (take (length (remove1 c xs)) cs))"
        using Cons.IH Cons.prems(1) by simp
      moreover have "sum_list (map f xs) = f c + sum_list (map f (remove1 c xs))"
        using True by (simp add: sum_list_map_remove1)
      ultimately show ?thesis using True len by (simp add: length_remove1)
    next
      case False
      then have sub: "mset xs \<subseteq># mset cs" using Cons.prems(2)
        by (metis in_multiset_in_set insert_subset_eq_iff mset.simps(2) diff_single_trivial subset_eq_diff_conv add_mset_remove_trivial add_mset_add_single)
      then have ys: "mset ys \<subseteq># mset cs" using Cons by (metis mset.simps(2) mset_subset_eq_insertD subset_mset.less_imp_le)
      have "x \<in> set cs" using sub Cons by (metis list.set_intros(1) mset_subset_eqD set_mset_mset)
      then have "f x \<le> f c" using Cons.prems(1) by simp
      moreover have "sum_list (map f ys) \<le> sum_list (map f (take (length ys) cs))" using Cons.IH[OF _ ys] Cons.prems(1) by simp
      ultimately show ?thesis using Cons len by simp
    qed
  qed simp
qed simp

lemma fewest_coins:
  assumes "sorted_wrt (\<lambda>a b. units index b \<le> units index a) cs" "mset xs \<subseteq># mset cs"
    and "0 < k \<longrightarrow> total_units index (take (k - 1) cs) < n" "n \<le> total_units index xs"
  shows "k \<le> length xs"
proof (rule ccontr)
  assume "\<not> k \<le> length xs"
  then have "length xs \<le> k - 1" "0 < k" by simp_all
  then have "total_units index (take (length xs) cs) \<le> total_units index (take (k - 1) cs)"
    by (metis le_add_diff_inverse le_add1 map_append sum_list_append take_add)
  then show False using first_worth_most[OF assms(1,2)] assms(3,4) \<open>0 < k\<close> by simp
qed

subsection \<open>The candidates\<close>

lemma countOf_none:
  assumes "numbered index u" "\<forall>a \<in> set (ut_assets u). assetIndex a \<noteq> index"
  shows "units index u = 0"
proof -
  have "foldE (\<lambda>asset total. bindE (getAssetIndex False asset) (\<lambda>i. Inr (if i = index then total + getCount asset else total))) as 0 = Inr c \<Longrightarrow>
      \<forall>a \<in> set as. assetIndex a \<noteq> index \<Longrightarrow> c = 0" for as and c :: u64
    by (induction as) (auto simp: getAssetIndex_def split: if_splits)
  then have "(of_nat (units index u) :: u64) = 0" using assms(2) numbered_count[OF assms(1)] unfolding countOf_def by blast
  then show ?thesis using unat_units[of index u] by simp
qed

lemma holds_index_iff:
  "holds_index check index as = Inr b \<Longrightarrow>
    b = (\<exists>a \<in> set as. assetIndex a = index) \<and> (b \<longrightarrow> (\<exists>a \<in> set as. assetIndex a = index \<and> check a = Inr ()))"
  by (induction as) (auto simp: getAssetIndex_def split: if_splits elim!: bindE_E)

lemma candidate_coins_filter:
  assumes "candidate_coins check index coins = Inr cs"
  shows "cs = filter (\<lambda>u. \<exists>a \<in> set (ut_assets u). assetIndex a = index) coins \<and>
    (\<forall>u \<in> set cs. \<exists>a \<in> set (ut_assets u). assetIndex a = index \<and> check a = Inr ())"
proof -
  have "foldE (\<lambda>utxo candidates. bindE (holds_index check index (ut_assets utxo)) (\<lambda>found.
       Inr (if found then candidates @ [utxo] else candidates))) coins cs0 = Inr cs \<Longrightarrow>
    \<exists>new. cs = cs0 @ new \<and> new = filter (\<lambda>u. \<exists>a \<in> set (ut_assets u). assetIndex a = index) coins \<and>
      (\<forall>u \<in> set new. \<exists>a \<in> set (ut_assets u). assetIndex a = index \<and> check a = Inr ())" for cs0
  proof (induction coins arbitrary: cs0)
    case (Cons u coins)
    then obtain b where b: "holds_index check index (ut_assets u) = Inr b" by (auto elim!: bindE_E)
    have run: "foldE (\<lambda>utxo candidates. bindE (holds_index check index (ut_assets utxo)) (\<lambda>found.
       Inr (if found then candidates @ [utxo] else candidates))) coins (if b then cs0 @ [u] else cs0) = Inr cs"
      using Cons.prems b by simp
    show ?case using Cons.IH[OF run] holds_index_iff[OF b] by (cases b) auto
  qed simp
  then show ?thesis using assms unfolding candidate_coins_def by fastforce
qed

subsection \<open>The selection\<close>

lemma total_mset: "mset us = mset vs \<Longrightarrow> total_units index us = total_units index vs"
proof -
  assume m: "mset us = mset vs"
  have "sum_list (map (units index) ws) = sum_mset (image_mset (units index) (mset ws))" for ws
    by (simp flip: mset_map add: sum_mset_sum_list)
  then show ?thesis using m by simp
qed

lemma total_filter:
  assumes "\<forall>u \<in> set us. numbered index u"
  shows "total_units index (filter (\<lambda>u. \<exists>a \<in> set (ut_assets u). assetIndex a = index) us) = total_units index us"
  using assms countOf_none by (induction us) auto

definition best_choice :: "u64 \<Rightarrow> u64 \<Rightarrow> AssetUTXO list \<Rightarrow> AssetUTXO list \<Rightarrow> bool" where
  "best_choice index amount coins sel \<longleftrightarrow>
     (\<exists>s. sel = [s] \<and> enough_alone index amount s \<and> (\<forall>u \<in> set coins. enough_alone index amount u \<longrightarrow> units index s \<le> units index u)) \<or>
     (\<forall>u \<in> set coins. \<not> enough_alone index amount u) \<and>
     ((\<forall>u \<in> set coins. 0 < units index u \<longrightarrow> is_pure u) \<longrightarrow>
        (\<forall>xs. mset xs \<subseteq># mset coins \<and> unat amount \<le> total_units index xs \<longrightarrow> length sel \<le> length xs))"

lemma pick_best:
  assumes cands: "cands = filter (\<lambda>u. \<exists>a \<in> set (ut_assets u). assetIndex a = index) coins" and num: "\<forall>u \<in> set coins. numbered index u"
    and srt: "mset cs = mset cands" "sorted_wrt (\<lambda>a b. coin_key index b \<le> coin_key index a) cs"
    and small: "total_units index coins < 2 ^ 64" and pos: "0 < amount"
    and run: "pick_coins index amount cs = Inr sel"
  shows "mset sel \<subseteq># mset cands \<and> unat amount \<le> total_units index sel \<and> best_choice index amount coins sel"
proof -
  have ncs: "\<forall>u \<in> set cs. numbered index u" using num cands mset_eq_setD[OF srt(1)] by auto
  have tot: "total_units index cs = total_units index coins"
    using total_mset[OF srt(1), of index] total_filter[OF num] cands by simp
  have p0: "0 < unat amount" using pos by (simp add: word_less_nat_alt)
  have alone: "u \<in> set cs" if "u \<in> set coins" "0 < units index u" for u
    using countOf_none[of index u] num that mset_eq_setD[OF srt(1)] cands by fastforce
  have alone': "u \<in> set coins \<Longrightarrow> enough_alone index amount u \<Longrightarrow> u \<in> set cs" for u
    using alone p0 unfolding enough_alone_def by (meson less_le_trans)
  have small': "total_units index cs < 2 ^ 64" using tot small by simp
  have en: "unat amount \<le> total_units index cs"
  proof (rule ccontr)
    assume "\<not> ?thesis"
    then have "pick_coins index amount cs = Inl NotEnoughFunds"
      using conjunct1[OF pick_coins_spec[OF ncs small', of amount]] by (simp only: not_le if_True)
    then show False using run by simp
  qed
  obtain sel0 where "pick_coins index amount cs = Inr sel0" "unat amount \<le> total_units index sel0"
    "(\<exists>s. sel0 = [s] \<and> s \<in> set cs \<and> enough_alone index amount s \<and>
        (\<forall>u \<in> set cs. enough_alone index amount u \<longrightarrow> units index s \<le> units index u)) \<or>
     (\<forall>u \<in> set cs. \<not> enough_alone index amount u) \<and>
     (\<exists>k \<le> length cs. sel0 = take k cs \<and> (0 < k \<longrightarrow> total_units index (take (k - 1) cs) < unat amount))"
    using conjunct2[OF pick_coins_spec[OF ncs small', of amount]] en by blast
  then have sel: "unat amount \<le> total_units index sel"
    "(\<exists>s. sel = [s] \<and> s \<in> set cs \<and> enough_alone index amount s \<and>
        (\<forall>u \<in> set cs. enough_alone index amount u \<longrightarrow> units index s \<le> units index u)) \<or>
     (\<forall>u \<in> set cs. \<not> enough_alone index amount u) \<and>
     (\<exists>k \<le> length cs. sel = take k cs \<and> (0 < k \<longrightarrow> total_units index (take (k - 1) cs) < unat amount))"
    using run by auto
  from sel(2) show ?thesis
  proof
    assume "\<exists>s. sel = [s] \<and> s \<in> set cs \<and> enough_alone index amount s \<and>
        (\<forall>u \<in> set cs. enough_alone index amount u \<longrightarrow> units index s \<le> units index u)"
    then obtain s where s: "sel = [s]" "s \<in> set cs" "enough_alone index amount s"
        "\<forall>u \<in> set cs. enough_alone index amount u \<longrightarrow> units index s \<le> units index u" by blast
    have "mset sel \<subseteq># mset cands" using s(1,2) srt(1) by (simp add: mset_eq_setD[OF srt(1), symmetric])
    then show ?thesis using s sel(1) alone' by (auto simp: best_choice_def)
  next
    assume "(\<forall>u \<in> set cs. \<not> enough_alone index amount u) \<and>
     (\<exists>k \<le> length cs. sel = take k cs \<and> (0 < k \<longrightarrow> total_units index (take (k - 1) cs) < unat amount))"
    then obtain k where k: "\<forall>u \<in> set cs. \<not> enough_alone index amount u" "k \<le> length cs" "sel = take k cs"
        "0 < k \<longrightarrow> total_units index (take (k - 1) cs) < unat amount" by blast
    have sub: "mset sel \<subseteq># mset cands" unfolding k(3) srt(1)[symmetric] by (metis append_take_drop_id mset_append mset_subset_eq_add_left)
    have "length sel \<le> length xs" if pure: "\<forall>u \<in> set coins. 0 < units index u \<longrightarrow> is_pure u"
      and xs: "mset xs \<subseteq># mset coins" "unat amount \<le> total_units index xs" for xs
    proof -
      let ?P = "\<lambda>u. 0 < units index u"
      define cs1 where "cs1 = cs"
      have rank: "units index b \<le> units index a" if "coin_key index b \<le> coin_key index a" "a \<in> set cs" "b \<in> set cs" for a b
      proof (cases "0 < units index b")
        case True
        then have "is_pure b" using pure that(3) mset_eq_setD[OF srt(1)] cands by auto
        then show ?thesis using that(1) units_less[of index a] by (auto simp: coin_key_def split: if_splits)
      qed simp
      have so: "sorted_wrt (\<lambda>a b. units index b \<le> units index a) cs"
        by (rule sorted_wrt_mono_rel[OF _ srt(2)]) (use rank in blast)
      define ys where "ys = filter (\<lambda>u. \<exists>a \<in> set (ut_assets u). assetIndex a = index) xs"
      have "mset ys \<subseteq># mset cs" unfolding ys_def srt(1) cands mset_filter by (rule multiset_filter_mono[OF xs(1)])
      moreover have "total_units index ys = total_units index xs"
        unfolding ys_def by (rule total_filter) (use xs(1) num in \<open>auto dest: mset_subset_eqD\<close>)
      ultimately have "k \<le> length ys" using fewest_coins[OF so _ k(4)] xs(2) by simp
      then show ?thesis using k(2,3) by (auto simp: ys_def intro: le_trans[OF _ length_filter_le])
    qed
    then show ?thesis using sub sel(1) k(1) alone' by (auto simp: best_choice_def)
  qed
qed

lemma selectAssetInputs_spec:
  assumes srt: "sorter_ok std_sort" and coins: "getWalletUTXOs bk 1 h = (Inr coins, h1)"
    and num: "\<forall>u \<in> set coins. numbered index u" and small: "total_units index coins < 2 ^ 64" and pos: "0 < amount"
    and run: "selectAssetInputs std_sort bk index amount h = (r, h')"
  shows "(\<forall>sel. r = Inr sel \<longrightarrow> mset sel \<subseteq># mset coins \<and> unat amount \<le> total_units index sel \<and> best_choice index amount coins sel \<and>
      (\<forall>u \<in> set sel. \<exists>a \<in> set (ut_assets u). assetIndex a = index \<and> assertTransferableAsset a (bk_height bk) (bk_now bk) = Inr ())) \<and>
    (r = Inl NotEnoughFunds \<longrightarrow> total_units index coins < unat amount)"
proof (cases "candidate_coins (\<lambda>a. assertTransferableAsset a (bk_height bk) (bk_now bk)) index coins")
  case (Inl e)
  have "foldE (\<lambda>utxo candidates. bindE (holds_index (\<lambda>a. assertTransferableAsset a (bk_height bk) (bk_now bk)) index (ut_assets utxo)) (\<lambda>found.
       Inr (if found then candidates @ [utxo] else candidates))) us cs0 = Inl e \<Longrightarrow> e \<noteq> NotEnoughFunds" for us cs0 e
  proof (induction us arbitrary: cs0)
    case (Cons u us)
    have "holds_index (\<lambda>a. assertTransferableAsset a (bk_height bk) (bk_now bk)) index as \<noteq> Inl NotEnoughFunds" for as
      by (induction as)
        (auto simp: getAssetIndex_def assertTransferableAsset_def Let_def refuse_output_def refuse_signer_def refuse_expired_def bindE_def
          split: if_splits sum.splits)
    then show ?case using Cons by (auto simp: bindE_Inl_iff)
  qed simp
  then have "e \<noteq> NotEnoughFunds" using Inl unfolding candidate_coins_def by blast
  then show ?thesis using run coins Inl by (auto simp: selectAssetInputs_def bindW_def retW_def)
next
  case (Inr cands)
  note f = candidate_coins_filter[OF Inr]
  have ok: "\<forall>u \<in> set cands. numbered index u" using f num by auto
  obtain cs where cs: "std_sort (coin_before index) cands = Inr cs" "mset cs = mset cands"
      "sorted_wrt (\<lambda>a b. coin_key index b \<le> coin_key index a) cs"
    using srt[unfolded sorter_ok_def, rule_format, of cands "coin_before index" "coin_key index"] ok coin_before_key by blast
  have r: "r = pick_coins index amount cs" using run coins Inr cs(1) by (simp add: selectAssetInputs_def bindW_def retW_def)
  have tot: "total_units index cs = total_units index coins"
    using total_mset[OF cs(2), of index] total_filter[OF num] conjunct1[OF f] by simp
  have sub: "mset cands \<subseteq># mset coins" using f by simp
  show ?thesis
  proof (intro conjI allI impI)
    fix sel assume s: "r = Inr sel"
    note b = pick_best[OF conjunct1[OF f] num cs(2,3) small pos s[unfolded r]]
    then show "mset sel \<subseteq># mset coins" using sub by (meson subset_mset.order_trans)
    show "unat amount \<le> total_units index sel" "best_choice index amount coins sel" using b by auto
    show "\<forall>u \<in> set sel. \<exists>a \<in> set (ut_assets u). assetIndex a = index \<and> assertTransferableAsset a (bk_height bk) (bk_now bk) = Inr ()"
    proof
      fix u assume "u \<in> set sel"
      then have "u \<in> set cands" using mset_subset_eqD[OF conjunct1[OF b], of u] by simp
      then show "\<exists>a \<in> set (ut_assets u). assetIndex a = index \<and> assertTransferableAsset a (bk_height bk) (bk_now bk) = Inr ()"
        using conjunct2[OF f] by blast
    qed
  next
    assume "r = Inl NotEnoughFunds"
    moreover have "\<forall>u \<in> set cs. numbered index u" using ok mset_eq_setD[OF cs(2)] by auto
    ultimately show "total_units index coins < unat amount"
      using conjunct2[OF pick_coins_spec[of cs index amount]] r tot small by (metis Inl_Inr_False not_le)
  qed
qed

subsection \<open>A sort\<close>

text \<open>Insertion keeps the promise, so the hypothesis on \<^verbatim>\<open>std::sort\<close> can be met.\<close>

fun insert_coin :: "(AssetUTXO \<Rightarrow> AssetUTXO \<Rightarrow> bool result) \<Rightarrow> AssetUTXO \<Rightarrow> AssetUTXO list \<Rightarrow> AssetUTXO list result" where
  "insert_coin before x [] = Inr [x]"
| "insert_coin before x (y # ys) =
     bindE (before y x) (\<lambda>b. if b then bindE (insert_coin before x ys) (\<lambda>zs. Inr (y # zs)) else Inr (x # y # ys))"

fun insertion_sorter :: sorter where
  "insertion_sorter before [] = Inr []"
| "insertion_sorter before (x # xs) = bindE (insertion_sorter before xs) (insert_coin before x)"

lemma insert_coin_ok:
  assumes "\<forall>y \<in> set ys. before y x = Inr (rank x < (rank y :: nat))" "sorted_wrt (\<lambda>a b. rank b \<le> rank a) ys"
  shows "\<exists>zs. insert_coin before x ys = Inr zs \<and> mset zs = add_mset x (mset ys) \<and> sorted_wrt (\<lambda>a b. rank b \<le> rank a) zs"
  using assms
proof (induction ys)
  case (Cons y ys)
  show ?case
  proof (cases "rank x < rank y")
    case True
    obtain zs where z: "insert_coin before x ys = Inr zs" "mset zs = add_mset x (mset ys)" "sorted_wrt (\<lambda>a b. rank b \<le> rank a) zs"
      using Cons by auto
    have "set zs = insert x (set ys)" using z(2) by (metis set_mset_add_mset_insert set_mset_mset)
    then show ?thesis using True Cons.prems z by auto
  next
    case False
    then show ?thesis using Cons.prems by (auto intro: le_trans)
  qed
qed simp

lemma insertion_sorter_ok: "sorter_ok insertion_sorter"
proof -
  have "\<exists>cs'. insertion_sorter before cs = Inr cs' \<and> mset cs' = mset cs \<and> sorted_wrt (\<lambda>a b. rank b \<le> rank a) cs'"
    if "\<forall>a \<in> set cs. \<forall>b \<in> set cs. before a b = Inr ((rank b :: nat) < rank a)" for before cs rank
    using that
  proof (induction cs)
    case (Cons c cs)
    then obtain cs1 where c: "insertion_sorter before cs = Inr cs1" "mset cs1 = mset cs" "sorted_wrt (\<lambda>a b. rank b \<le> rank a) cs1" by auto
    then show ?case using insert_coin_ok[of cs1 before c rank] Cons.prems mset_eq_setD[OF c(2)] by auto
  qed simp
  then show ?thesis unfolding sorter_ok_def by blast
qed

end
