(* ===== verification/WalletSamples.thy ===== *)
theory WalletSamples
  imports Samples WalletLaws WalletSelection
begin

text \<open>
  A wallet with two coins, one of which holds an asset, for the evaluation of the wallet's functions. Its
  node lists only coins that are not locked and answers the first two broadcasts with a conflict.
\<close>

definition plain_coin :: unspenttxout_t where
  "plain_coin = \<lparr>u_txid = ''c'', u_n = 0, u_address = ''W'', u_sats = 50000000, confirmations = 5\<rparr>"

definition asset_coin :: unspenttxout_t where
  "asset_coin = \<lparr>u_txid = ''d'', u_n = 1, u_address = ''W'', u_sats = 600, confirmations = 5\<rparr>"

definition sample_unspent :: "command list \<Rightarrow> unspenttxout_t list" where
  "sample_unspent h = filter (\<lambda>u. outpoint_of u \<notin> locks {} h) [plain_coin, asset_coin]"

definition sample_backend :: Backend where
  "sample_backend =
     \<lparr>bk_node = sample_node, bk_now = 0, bk_height = 100,
      bk_assetUTXO = (\<lambda>i n h. if i = ''d''
        then Inr \<lparr>ut_txid = ''d'', ut_vout = 1, ut_address = ''W'', digibyte = 600, ut_assets = [sample_asset]\<rparr> else Inl DataPruned),
      bk_isHeightIndexed = (\<lambda>_ _. Inr True), bk_blockCount = (\<lambda>_. Inr 100), bk_unspent = (\<lambda>_ h. Inr (sample_unspent h)),
      bk_lock = (\<lambda>_ _ _. Inr ()), bk_txOutIsNull = (\<lambda>_ _. Inr False), bk_create = (\<lambda>_. Inr ''raw''),
      bk_fund = (\<lambda>_ _ _. Inr (''funded'', 1000)), bk_signWithWallet = (\<lambda>_ _. Inr (True, ''signed'')),
      bk_sign = (\<lambda>_ _. Inr (True, ''signed'')), bk_decode = (\<lambda>_ _. Inr [(''t'', 0)]),
      bk_send = (\<lambda>_ h. if length (filter is_send h) < 2 then Inl (DigiByteException (-26) ''txn-mempool-conflict'') else Inr ''txid''),
      bk_paytxfee = (\<lambda>_. Inr None), bk_feerate = (\<lambda>_. Inr None)\<rparr>"

lemma sample_honest: "honest_locks sample_backend {}"
  by (auto simp: honest_locks_def sample_backend_def sample_unspent_def)

lemma sample_obliging: "obliging sample_backend sample_transfer"
  by (auto simp: obliging_def sample_backend_def sample_transfer_def sample_input_def)

lemma sample_backstop: "rules_backstop sample_backend sample_transfer = Inr ()"
  by (simp add: rules_backstop_def checkRulesPass_def DigiAsset_checkRulesPass_def sample_transfer_def sample_input_def
      sample_asset_def DigiAsset_default_def rules_empty_def DigiAssetRules_default_def setChainContext_def DigiByteTransaction_new_def)

lemma sample_funding:
  "fundOnce sample_backend sample_transfer ''raw'' 0 [] = (Inr (Some (''funded'', 1000)),
     [] @ [GetBlockCount, ListUnspent 0, GetTxOut (''c'', 0), LockUnspent False [(''d'', 1)]] @ FundRawTransaction ''raw'' 3 #
       [LockUnspent True [(''d'', 1)]])"
proof -
  have i: "\<not> is_input sample_transfer plain_coin" "\<not> is_input sample_transfer asset_coin"
    by (simp_all add: is_input_def sample_transfer_def sample_input_def plain_coin_def asset_coin_def)
  have n: "length (t_outputs sample_transfer) = 2" by (simp add: sample_transfer_def)
  have hgt: "utxo_height 100 plain_coin = 96" "utxo_height 100 asset_coin = 96"
    by (simp_all add: utxo_height_def plain_coin_def asset_coin_def)
  have l: "sample_unspent [GetBlockCount] = [plain_coin, asset_coin]" by (simp add: sample_unspent_def)
  show ?thesis
    by (simp add: fundOnce_def bindW_def step_defs lock_step_def needs_lock_def Let_def i hgt l n lock_call_def fund_locked_def
        sample_backend_def db_needs_lock_def outpoint_of_def)
       (simp add: plain_coin_def asset_coin_def)
qed

text \<open>A wallet with three coins of the asset, of 96, 1 and 60 units.\<close>

definition held_coin :: "string \<Rightarrow> u64 \<Rightarrow> AssetUTXO" where
  "held_coin i c = \<lparr>ut_txid = i, ut_vout = 0, ut_address = ''W'', digibyte = 600, ut_assets = [setCount c sample_asset]\<rparr>"

definition sample_coins :: "AssetUTXO list" where
  "sample_coins = [held_coin ''a'' 96, held_coin ''b'' 1, held_coin ''e'' 60]"

definition selection_backend :: Backend where
  "selection_backend = sample_backend
     \<lparr>bk_unspent := (\<lambda>_ _. Inr (map (\<lambda>i. \<lparr>u_txid = i, u_n = 0, u_address = ''W'', u_sats = 600, confirmations = 5\<rparr>) [''a'', ''b'', ''e''])),
      bk_assetUTXO := (\<lambda>i n h. Inr (if i = ''a'' then held_coin i 96 else if i = ''b'' then held_coin i 1 else held_coin i 60))\<rparr>"

lemma sample_wallet: "getWalletUTXOs selection_backend 1 [] = (Inr sample_coins, [ListUnspent 1])"
  by (simp add: getWalletUTXOs_def bindW_def step_defs wallet_coin_def selection_backend_def held_coin_def sample_coins_def Let_def)

lemma held_count: "countOf 7 (held_coin i c) = Inr c" "is_pure (held_coin i c)" "units 7 (held_coin i c) = unat c"
  by (simp_all add: countOf_def held_coin_def sample_asset_def getAssetIndex_def getCount_def setCount_def is_pure_def units_def)

lemma sample_selection:
  "selectAssetInputs insertion_sorter selection_backend 7 50 [] = (Inr [held_coin ''e'' 60], [ListUnspent 1])"
proof -
  have t: "assertTransferableAsset (setCount c sample_asset) x y = Inr ()" for c x y
    by (simp add: assertTransferableAsset_def setCount_def sample_asset_def DigiAsset_default_def DigiAssetRules_default_def rules_empty_def)
  have "getAssetIndex False (setCount c sample_asset) = Inr 7" for c by (simp add: setCount_def sample_asset_def getAssetIndex_def)
  then have own: "holds_index (\<lambda>a. assertTransferableAsset a x y) 7 (ut_assets (held_coin i c)) = Inr True" for i c x y
    by (simp add: held_coin_def t)
  have "candidate_coins (\<lambda>a. assertTransferableAsset a x y) 7 sample_coins = Inr sample_coins" for x y
    by (simp add: candidate_coins_def sample_coins_def own)
  moreover have "insertion_sorter (coin_before 7) sample_coins = Inr [held_coin ''a'' 96, held_coin ''e'' 60, held_coin ''b'' 1]"
    by (simp add: sample_coins_def coin_before_def held_count)
  moreover have "pick_coins 7 50 [held_coin ''a'' 96, held_coin ''e'' 60, held_coin ''b'' 1] = Inr [held_coin ''e'' 60]"
    by (simp add: pick_coins_def held_count)
  ultimately show ?thesis by (simp add: selectAssetInputs_def bindW_def sample_wallet[simplified] retW_def)
qed

end
