(* ===== verification/Spec2Isabelle.thy ===== *)
theory Spec2Isabelle
  imports Rules_Store BitStrings Sha256 Ripemd160 Base58 Doubles KYC DigiDollar_Address AssetRules TransactionStore TransactionMachine RuleLaws IssuanceRoundTrip Samples TransferLimits AssetLaws WalletAmounts AssetWallet WalletFunding WalletLaws WalletSelection WalletSamples
begin

text \<open>
  A verification library for DigiAsset Core for Windows, the indexer and wallet of the DigiAssets protocol
  on the DigiByte chain (the C++ program under src/src).

  The program reads every transaction of the chain, decodes the asset data some of them carry in an
  OP_RETURN output, moves assets between outputs by the protocol's rules, stores the result, and builds
  such transactions for its own wallet. What must hold is that every node decodes the same history and
  that no asset is lost or invented by accident. The library models the code that decides this; sockets,
  the terminal and the SQL engine are outside.

  How the code is modelled. A member function is a function of the object, which it returns updated. An
  exception is a value: \<open>'a result\<close> is \<open>cpp_error + 'a\<close>, and undefined behaviour of C++ is the error
  \<open>UndefinedBehaviour\<close>, so a theorem that ends in \<open>Inr\<close> also excludes it. \<open>uint64_t\<close> and the other
  fixed-width types are words and wrap. Where exception handlers look at the object after a failure
  (DigiByteTransaction), a function returns the result together with the object at that moment. Loops are
  recursive functions with a termination proof; there is no fuel anywhere. The database and DigiByte Core are
  parameters: records of the answers they give (\<open>Node\<close>, \<open>Chain\<close>, \<open>Backend\<close>); nothing is assumed of them
  except where a theorem says so by name (\<open>honest_locks\<close>, \<open>obliging\<close>, \<open>sorter_ok\<close>).

  The theories, in the order of the code's layers:

  Prelude: errors, vectors, words, and the collections of rewriting facts.

  Bit stream (BitIO.cpp). BitStream is the object, a vector of 64-bit words with a cursor, and its
  operations; BitStream_Spec shows that they are list operations on the bits it holds (\<open>to_bits\<close>), with the
  invariant \<open>bitio_inv\<close>; StreamMoves and StreamCalculus turn this into rules for readers and writers
  (\<open>reads\<close>, \<open>writes\<close>), stated through the locale \<open>codec\<close> in BitNumbers and BitStrings, which is
  interpreted for each number and string format of the code.

  Storage format: Serialize (serialize.h, DigiAssetTypes.cpp).

  Asset rules (DigiAssetRules.cpp): Rules, with the decoder, the encoder and the getters; Rules_Format
  and Rules_Store prove both round trips. AssetConstants holds DigiAssetConstants.h.

  Hashes and identifiers: Sha256, Ripemd160 (each proved equal to a reference definition), Base58
  (Base58.cpp, Blob.cpp), AssetId (the identifier of an asset and IPFS content identifiers), Doubles (the
  floating-point field of exchange rates as an IEEE value).

  Identities: KYC (KYC.cpp). DigiDollar: DigiDollar and DigiDollar_Address (DigiDollar.cpp).

  Assets and the rule check: Asset and AssetRules (DigiAsset.cpp), AssetLaws.

  Transactions (DigiByteTransaction.cpp): Transaction is the object and the transfer engine; TransactionBuild
  the builder and encoder; TransactionDecode the loading and the decoders; TransactionStore the calls that
  write to the database. TransferLaws and TransferPlan give the engine an abstract specification: a plan is
  a list of gifts (\<open>fulfils\<close>, \<open>follow\<close>); TransferPlan shows that the encoder writes a plan that gives every
  output what it was promised and that the engine carries out the plan it reads. TransferRoundTrip,
  IssuancePayload and IssuanceRoundTrip compose both into the two main theorems. TransactionMachine is the step
  relation of the wallet code over a transaction under construction, with its invariant by rule
  induction. RuleLaws and TransferLimits: what a passed rule check guarantees, and where 64-bit
  arithmetic breaks it.

  Wallet (AssetWallet.cpp): WalletAmounts (amounts as text), AssetWallet (coins and their selection),
  WalletFunding (locking, funding, signing, sending). A function that talks to DigiByte Core is a function of
  the list of commands issued so far, which it extends; the node's answers may depend on all of it.
  WalletLaws proves properties of that list, WalletSelection that the selection is the best one for any order
  \<open>std::sort\<close> may produce.
  Samples and WalletSamples hold concrete transactions and nodes on which the theorems are evaluated.

  The properties below are numbered. First come the theorems that connect what the wallet builds with what
  every node reads, then the rules, the wallet, identities and identifiers, and the layers below.

  Not modelled. The JSON output of the classes; the download of vote labels from IPFS; makeDouble and the
  one division priceToExchangeRate; the JSON-RPC client, the synchronisation thread, the HTTP, console and
  pool servers, whose work is I/O around the functions modelled here; third-party code. The list of
  components in the manifest gives the reason for each.
\<close>

section \<open>Sample rules\<close>

text \<open>Sample rules with every section, and a transaction with the outputs they need.\<close>

definition sample_rules :: DigiAssetRules where
  "sample_rules = DigiAssetRules_default\<lparr>noRules := False, movable := False, signersRequired := 2,
     signers := [\<lparr>sg_address = ''A'', sg_weight = 1\<rparr>, \<lparr>sg_address = ''B'', sg_weight = 40\<rparr>],
     exchangeRate := standardExchangeRates ! 1,
     royalties := [\<lparr>ry_address = ''R'', ry_amount = 25000\<rparr>], countryList := [''CAN'', ''USA''],
     countryListIsBan := True, expiry := 24000000, voteOptions := [\<lparr>vo_address = ''V'', vo_label = []\<rparr>],
     deflate := 5, voteLabelsCID := ''bafk''\<rparr>"

definition sample_output :: "string \<Rightarrow> u64 \<Rightarrow> vout_t" where
  "sample_output a v = \<lparr>valueS = v, out_n = 0, spk_hex = [], spk_type = ''pubkeyhash'', spk_addresses = [a]\<rparr>"

definition sample_tx :: getrawtransaction_t where
  "sample_tx = \<lparr>tx_txid = [], tx_version = 2, tx_vin = [], tx_vout =
     [sample_output ''A'' 10000, sample_output ''B'' 10000, sample_output ''R'' 25000, sample_output ''V'' 10000], tx_blockhash = [], tx_time = 0\<rparr>"

definition sample_outputs :: "RuleOutput list" where
  "sample_outputs = [\<lparr>ro_address = ''A'', ro_sats = 10000\<rparr>, \<lparr>ro_address = ''B'', ro_sats = 10000\<rparr>,
     \<lparr>ro_address = ''R'', ro_sats = 25000\<rparr>, \<lparr>ro_address = ''V'', ro_sats = 10000\<rparr>]"

lemma sample_encodable:
  "rules_encodable ''bafk'' sample_rules" "getRequiredOutputs sample_rules = Inr sample_outputs"
  "outputs_at (tx_vout sample_tx) 0 sample_outputs" "bitio_inv BitIO_empty"
  by code_simp+

section \<open>Transactions: what is built is what is read\<close>







text \<open>
  C4. No recorded transfer breaks a rule. When a node accepts a transaction as a transfer or a burn
  and reports no unintentional burn, the check of the rules passes for every asset on its inputs,
  with the outputs as they are recorded.
\<close>

theorem recorded_transfers_obey_the_rules:
  assumes "decodeAssetTX chain tx t = (Inr (True, w), t')" "txType t' \<noteq> DIGIASSET_ISSUANCE" "\<not> unintentionalBurn t'"
  shows "checkRulesPass (ch_node chain) t' = Inr () \<and>
    (\<forall>u\<in>set (t_inputs t'). \<forall>a\<in>set (ut_assets u).
       DigiAsset_checkRulesPass (ch_node chain) (t_inputs t') (t_outputs t') (t_height t') (t_time t') a = Inr ())"
  using recorded_transfer_rules[OF assms] checkRulesPass_all by blast

theorem recorded_witness:
  "\<exists>t'. decodeAssetTX sample_chain (ruled_tx ''6a0b44410325002061011e1f0a'') (ruled_loaded ruled_outputs) = (Inr (True, []), t') \<and>
     checkRulesPass sample_node t' = Inr ()"
proof -
  obtain t where t: "decodeAssetTX sample_chain (ruled_tx ''6a0b44410325002061011e1f0a'') (ruled_loaded ruled_outputs) = (Inr (True, []), t)"
    "txType t = DIGIASSET_BURN" "\<not> unintentionalBurn t" using ruled_decoded by blast
  have "checkRulesPass (ch_node sample_chain) t = Inr ()"
    using recorded_transfers_obey_the_rules[OF t(1) _ t(3)] t(2) by (simp add: tx_type_defs)
  then show ?thesis using t(1) by (auto simp: sample_chain_def)
qed

text \<open>
  C5. What a passed check guarantees. When the rule check of an asset passes and some address gained
  units, then the signers among the inputs reach the required weight; every royalty is paid at the
  exchange rate of the height; every address that gained units has, under a country list, a valid
  identity from an allowed country and, when the asset is not movable, is an address of the vote;
  the asset has not expired; and at least the required amount was burnt.
\<close>

theorem passed_check_enforces_rules:
  assumes "DigiAsset_checkRulesPass node ins outs h time a = Inr ()" "\<not> rules_empty (da_rules a)"
    and "asset_changes (assetIndex a) ins outs = Inr cs" "\<not> consolidation cs"
  shows "(0 < signersRequired (da_rules a) \<longrightarrow>
      (\<exists>as. input_addresses node ins = Inr as \<and> signersRequired (da_rules a) \<le> total_weight (signers (da_rules a)) as)) \<and>
    (royalties (da_rules a) \<noteq> [] \<longrightarrow>
      (\<exists>rate sent. acceptedExchangeRate node (exchangeRate (da_rules a)) h = Inr rate \<and>
         recipient_count (assetIndex a) outs = Inr sent \<and> list_all (royalty_paid sent rate outs) (royalties (da_rules a)))) \<and>
    (\<forall>(adr, d) \<in> set cs. 0 < sint d \<longrightarrow>
      (getIfGeoFenced (da_rules a) \<longrightarrow> (\<exists>k c. getAddressKYC node adr = Inr k \<and> KYC_valid (sint h) k \<and>
         KYC_getCountry k = Inr c \<and> getIfCountryAllowedToReceive c (da_rules a))) \<and>
      (\<not> movable (da_rules a) \<longrightarrow> getIfValidVoteAddress adr (da_rules a))) \<and>
    \<not> getIfExpired h time (da_rules a) \<and>
    (0 < deflate (da_rules a) \<longrightarrow> deflate (da_rules a) \<le> asset_total (assetIndex a) ins - asset_total (assetIndex a) outs)"
  by (rule rules_enforced[OF assms(1) refl assms(2-4)])

theorem enforced_witness:
  "(\<exists>as. input_addresses sample_node [ruled_input] = Inr as \<and> 1 \<le> total_weight (signers (da_rules ruled_asset)) as) \<and>
   (\<exists>rate sent. list_all (royalty_paid sent rate ruled_outputs) (royalties (da_rules ruled_asset))) \<and>
   10 \<le> asset_total 7 [ruled_input] - asset_total 7 ruled_outputs"
proof -
  have r: "\<not> rules_empty (da_rules ruled_asset)" "signersRequired (da_rules ruled_asset) = 1" "royalties (da_rules ruled_asset) \<noteq> []"
    "deflate (da_rules ruled_asset) = 10" "assetIndex ruled_asset = 7"
    by (simp_all add: ruled_asset_def rules_empty_def sample_asset_def)
  show ?thesis
    using passed_check_enforces_rules[OF ruled_pass r(1) ruled_changes ruled_consolidation] r by auto
qed

text \<open>
  C6. A broken rule destroys the assets. When a rule fails in a transfer or burn, the decoder does
  not accept the transaction, empties every output, and the transaction counts as an unintentional
  burn.
\<close>

theorem broken_rule_burns_everything:
  assumes "decodeAssetTxHeader tx = Inr (version, opcode, s)" "16 \<le> opcode" "opcode < 48" "opcode mod 16 = 5" "assetFound t"
    and "decodeAssetTransfer (ch_node chain) s (t_inputs t) (if opcode \<ge> 0x20 then DIGIASSET_BURN else DIGIASSET_TRANSFER)
      (t\<lparr>assetTransactionVersion := version\<rparr>) = (Inl (RuleFailed m), t1)"
  shows "\<exists>t'. decodeAssetTX chain tx t = (Inr (False, []), t') \<and> isUnintentionalBurn t' \<and>
    list_all (\<lambda>u. ut_assets u = []) (t_outputs t') \<and> txType t' = txType t"
  by (rule broken_rule_destroys[OF assms])

theorem destroys_witness:
  "\<exists>t'. decodeAssetTX sample_chain (ruled_tx ''6a0b44410325002061011e1f0a'') (ruled_loaded (take 2 ruled_outputs)) =
      (Inr (False, []), t') \<and> isUnintentionalBurn t' \<and> list_all (\<lambda>u. ut_assets u = []) (t_outputs t')"
proof -
  let ?t = "ruled_loaded (take 2 ruled_outputs)"
  obtain s t1 where u: "decodeAssetTxHeader (ruled_tx ''6a0b44410325002061011e1f0a'') = Inr (3, 0x25, s)"
    "decodeAssetTransfer sample_node s [ruled_input] DIGIASSET_BURN (?t\<lparr>assetTransactionVersion := 3\<rparr>) = (Inl (RuleFailed ''Royalty''), t1)"
    using unpaid by blast
  have "assetFound ?t" "t_inputs ?t = [ruled_input]" "ch_node sample_chain = sample_node"
    by (simp_all add: ruled_loaded_def sample_chain_def)
  then show ?thesis using broken_rule_burns_everything[OF u(1), of ?t sample_chain "''Royalty''" t1] u(2) by auto
qed

section \<open>Transactions: the builder and the engine\<close>

text \<open>
  C7. The calls of the wallet code keep a transaction well formed. In every state reached from a new
  transaction by calls that succeed: it is on no chain and serves one purpose; every output has an
  address and carries its number; assets are on the first 32 outputs only and never in zero amounts;
  asset bearing inputs are never in an issuance, and burns only in burn transactions.
\<close>

theorem builder_invariant:
  assumes "reachable t"
  shows "isWritable t \<and> txType t \<in> {STANDARD, DIGIASSET_ISSUANCE, DIGIASSET_TRANSFER, DIGIASSET_BURN} \<and>
     (\<forall>k<length (t_outputs t). ut_address (t_outputs t ! k) \<noteq> [] \<and> ut_vout (t_outputs t ! k) = of_nat k \<and>
        (ut_assets (t_outputs t ! k) \<noteq> [] \<longrightarrow> k < 32 \<and> list_all (\<lambda>a. getCount a \<noteq> 0) (ut_assets (t_outputs t ! k)))) \<and>
     (list_ex (\<lambda>u. ut_assets u \<noteq> []) (t_inputs t) \<longleftrightarrow> txType t \<in> {DIGIASSET_TRANSFER, DIGIASSET_BURN}) \<and>
     (t_burns t \<noteq> [] \<longrightarrow> txType t = DIGIASSET_BURN) \<and> list_all (\<lambda>a. getCount a \<noteq> 0) (t_burns t)"
  using reachable_inv[OF assms] unfolding build_inv_def outputs_ok_def output_ok_def by blast

theorem builder_witness: "isWritable sample_transfer \<and> txType sample_transfer \<in> {STANDARD, DIGIASSET_ISSUANCE, DIGIASSET_TRANSFER, DIGIASSET_BURN}"
  using builder_invariant[OF sample_transfer_reachable] by blast





text \<open>
  C10. The total of a range instruction wraps. An instruction that gives 9007199254740993 units to
  each of the first 2048 outputs takes 2048 units from an input that holds more than that: the
  product is computed in 64 bits.
\<close>

theorem range_transfer_inflates:
  assumes "front inputs index = Inr cur" "2048 < da_count cur" "2048 \<le> length outs"
  shows "apply_instruction type range_all ((inputs, index, b), outs) =
    Inr ((inputs[index := cur\<lparr>da_count := da_count cur - 2048\<rparr> # tl (inputs ! index)], index, True),
      map (put_asset (setCount 9007199254740993 cur)) (take 2048 outs) @ drop 2048 outs)"
  by (rule range_all_inflates[OF assms])

theorem inflation_witness:
  "apply_instruction DIGIASSET_TRANSFER range_all (([[sample_asset\<lparr>da_count := 3000\<rparr>]], 0, True), replicate 2048 (asset_output 0 ''A'' [])) =
    Inr (([[sample_asset\<lparr>da_count := 952\<rparr>]], 0, True),
      map (put_asset (setCount 9007199254740993 (sample_asset\<lparr>da_count := 3000\<rparr>))) (replicate 2048 (asset_output 0 ''A'' [])))"
  using range_transfer_inflates[of "[[sample_asset\<lparr>da_count := 3000\<rparr>]]" 0 "sample_asset\<lparr>da_count := 3000\<rparr>"
      "replicate 2048 (asset_output 0 ''A'' [])" DIGIASSET_TRANSFER True]
  by (simp add: front_def del: map_replicate replicate.simps)

text \<open>
  C11. A royalty is checked exactly, within the range of 64 bits. When recipients times amount times
  rate fits into 64 bits and at least one satoshi is owed, the check accepts exactly the
  transactions with an output to the royalty's address of the amount owed, less one satoshi for
  rounding.
\<close>

theorem royalty_exact_in_range:
  assumes "unat sent * unat (ry_amount ry) * unat rate < 2 ^ 64"
    and "0 < royalty_owed (unat sent) (unat (ry_amount ry)) (unat rate)"
  shows "royalty_paid sent rate outs ry \<longleftrightarrow>
    (\<exists>u\<in>set outs. ut_address u = ry_address ry \<and>
       royalty_owed (unat sent) (unat (ry_amount ry)) (unat rate) - 1 \<le> unat (digibyte u))"
  by (rule royalty_exact[OF assms])

theorem royalty_witness:
  "\<not> royalty_paid 2 100000000 [asset_output 0 ''R'' []] \<lparr>ry_address = ''R'', ry_amount = 20000\<rparr>"
  using royalty_exact_in_range[of 2 "\<lparr>ry_address = ''R'', ry_amount = 20000\<rparr>" 100000000 "[asset_output 0 ''R'' []]"]
  by (simp add: royalty_owed_def asset_output_def)



section \<open>The wallet\<close>

text \<open>
  C13. Assets never pay a fee. When the wallet is asked to fund a transaction, every coin it has
  listed that is not an input and that the database knows to hold assets is locked at that moment,
  so the wallet can not choose it.
\<close>

theorem fees_never_spend_assets:
  assumes "fundOnce bk tx raw attempt h = (r, h @ t1 @ FundRawTransaction x n # t2)"
  shows "\<exists>coins. bk_unspent bk 0 (h @ [GetBlockCount]) = Inr coins \<and>
    (\<forall>u \<in> set coins. \<not> is_input tx u \<longrightarrow>
       (\<forall>past. \<exists>e. bk_assetUTXO bk (u_txid u) (u_n u) past = Inr e \<and> ut_assets e \<noteq> []) \<longrightarrow>
       outpoint_of u \<in> locks S (h @ t1))"
proof -
  have "\<not> known_free bk u" if always: "\<forall>past. \<exists>e. bk_assetUTXO bk (u_txid u) (u_n u) past = Inr e \<and> ut_assets e \<noteq> []" for u
  proof
    assume "known_free bk u"
    then obtain height past where f: "db_needs_lock bk height u past = Inr False" by (auto simp: known_free_def)
    obtain e where "bk_assetUTXO bk (u_txid u) (u_n u) past = Inr e" "ut_assets e \<noteq> []" using always by blast
    then show False using f by (simp add: db_needs_lock_def)
  qed
  then show ?thesis using fundOnce_protects[OF assms refl, of S] by blast
qed

theorem fees_witness:
  "fundOnce sample_backend sample_transfer ''raw'' 0 [] = (Inr (Some (''funded'', 1000)),
     [] @ [GetBlockCount, ListUnspent 0, GetTxOut (''c'', 0), LockUnspent False [(''d'', 1)]] @ FundRawTransaction ''raw'' 3 #
       [LockUnspent True [(''d'', 1)]]) \<and>
   (''d'', 1) \<in> locks {} ([] @ [GetBlockCount, ListUnspent 0, GetTxOut (''c'', 0), LockUnspent False [(''d'', 1)]])"
proof -
  obtain coins where c: "bk_unspent sample_backend 0 ([] @ [GetBlockCount]) = Inr coins"
    "\<forall>u \<in> set coins. \<not> is_input sample_transfer u \<longrightarrow>
       (\<forall>past. \<exists>e. bk_assetUTXO sample_backend (u_txid u) (u_n u) past = Inr e \<and> ut_assets e \<noteq> []) \<longrightarrow>
       outpoint_of u \<in> locks {} ([] @ [GetBlockCount, ListUnspent 0, GetTxOut (''c'', 0), LockUnspent False [(''d'', 1)]])"
    using fees_never_spend_assets[OF sample_funding, of "{}"] by blast
  have "asset_coin \<in> set coins" using c(1) by (auto simp: sample_backend_def sample_unspent_def)
  moreover have "\<not> is_input sample_transfer asset_coin"
    by (simp add: is_input_def sample_transfer_def sample_input_def asset_coin_def)
  moreover have "\<forall>past. \<exists>e. bk_assetUTXO sample_backend (u_txid asset_coin) (u_n asset_coin) past = Inr e \<and> ut_assets e \<noteq> []"
    by (simp add: sample_backend_def asset_coin_def)
  ultimately have "outpoint_of asset_coin \<in> locks {} ([] @ [GetBlockCount, ListUnspent 0, GetTxOut (''c'', 0), LockUnspent False [(''d'', 1)]])"
    using c(2) by blast
  then show ?thesis using sample_funding by (simp add: outpoint_of_def asset_coin_def)
qed



text \<open>
  C15. Sending ends. Whatever the node answers, the loop of attempts is left, and it has asked for
  funding and broadcast at most five times; a quote never broadcasts.
\<close>

theorem sending_ends:
  "(\<exists>r t. fundSignSend bk tx h = (r, h @ t) \<and> length (filter is_fund t) \<le> 5 \<and> length (filter is_send t) \<le> 5) \<and>
   (\<exists>r t. estimateMinerFee bk tx h = (r, h @ t) \<and> filter is_send t = [])"
proof -
  obtain r h' where f: "fundSignSend bk tx h = (r, h')" by fastforce
  obtain r2 h2 where e: "estimateMinerFee bk tx h = (r2, h2)" by fastforce
  have "\<exists>t. h' = h @ t \<and> length (filter is_fund t) \<le> 5 \<and> length (filter is_send t) \<le> 5"
    using fundSignSend_counts[OF f] by (auto simp: issued_def)
  moreover have "\<exists>t. h2 = h @ t \<and> filter is_send t = []" using estimateMinerFee_quiet[OF e] by (auto simp: issued_def)
  ultimately show ?thesis using f e by blast
qed

text \<open>
  C16. Only checked transactions are broadcast: when a transaction that is no issuance is sent to
  the network, its assets passed the rule check at the tip of the chain, and the signed form still
  spends the transaction's first input first. A failed check ends the call before the node is asked
  anything.
\<close>

theorem only_checked_is_broadcast:
  assumes "fundSignSend bk tx h = (r, h @ t)" "\<not> isIssuance tx"
  shows "(SendRaw hex \<in> set t \<longrightarrow>
      checkRulesPass (bk_node bk) (setChainContext (bk_height bk) (bk_now bk) tx) = Inr () \<and> keeps_first_input bk tx hex) \<and>
    (checkRulesPass (bk_node bk) (setChainContext (bk_height bk) (bk_now bk) tx) \<noteq> Inr () \<longrightarrow> t = [] \<and> (\<exists>e. r = Inl e))"
proof -
  obtain t' where t': "h @ t = h @ t'"
    "\<forall>hex. SendRaw hex \<in> set t' \<longrightarrow> rules_backstop bk tx = Inr () \<and> keeps_first_input bk tx hex"
    using fundSignSend_sends[OF assms(1)] by blast
  have pass: "rules_backstop bk tx = Inr () \<longleftrightarrow> checkRulesPass (bk_node bk) (setChainContext (bk_height bk) (bk_now bk) tx) = Inr ()"
    using assms(2) by (auto simp: rules_backstop_def split: sum.splits cpp_error.splits)
  have "t = [] \<and> (\<exists>e. r = Inl e)" if "rules_backstop bk tx \<noteq> Inr ()"
    using assms(1) by (cases rule: fundSignSend_cases) (use that in auto)
  then show ?thesis using t' pass by auto
qed

theorem broadcast_witness:
  "\<exists>r t hex. fundSignSend sample_backend sample_transfer [] = (r, [] @ t) \<and> \<not> isIssuance sample_transfer \<and>
     SendRaw hex \<in> set t \<and> keeps_first_input sample_backend sample_transfer hex"
proof -
  obtain txid hex h' where s: "fundSignSend sample_backend sample_transfer [] = (Inr (txid, hex), h')"
    using fundSignSend_ok[OF sample_obliging sample_backstop sample_transfer_encoded] by blast
  obtain t where t: "h' = [] @ t" "SendRaw hex \<in> set t" using fundSignSend_sends[OF s] by blast
  have i: "\<not> isIssuance sample_transfer" by (simp add: isIssuance_def sample_transfer_def DIGIASSET_ISSUANCE_def DIGIASSET_TRANSFER_def)
  have "keeps_first_input sample_backend sample_transfer hex"
    using only_checked_is_broadcast[OF s[unfolded t(1)] i, of hex] t(2) by simp
  then show ?thesis using s t i by blast
qed

text \<open>
  C17. A transfer gets through. When the node answers, signs and keeps the first input, a
  transaction that passes the rule check and can be encoded is broadcast, and its identifier
  returned, even when the first four broadcasts fail with a conflict.
\<close>

theorem sending_succeeds:
  assumes "obliging bk tx" "rules_backstop bk tx = Inr ()" "encodeAssetOpReturn tx = Inr data"
  shows "\<exists>txid hex t. fundSignSend bk tx h = (Inr (txid, hex), h @ t) \<and> SendRaw hex \<in> set t"
proof -
  obtain txid hex h' where s: "fundSignSend bk tx h = (Inr (txid, hex), h')" using fundSignSend_ok[OF assms] by blast
  then show ?thesis using fundSignSend_sends[OF s] by blast
qed

theorem live_witness:
  "\<exists>txid hex t. fundSignSend sample_backend sample_transfer [] = (Inr (txid, hex), [] @ t) \<and> SendRaw hex \<in> set t"
  by (rule sending_succeeds[OF sample_obliging sample_backstop sample_transfer_encoded])

text \<open>
  C18. The chosen coins are the right ones. They are coins of the wallet, they cover the amount,
  their asset can be transferred; when one coin with only this asset is enough it is the smallest
  such coin, alone, and when all the coins of the asset hold nothing else no other choice is
  shorter. The wallet is said to lack funds only when its coins together hold too little. The sort
  may order equal coins in any way.
\<close>

theorem selection_is_best:
  assumes "sorter_ok std_sort" "getWalletUTXOs bk 1 h = (Inr coins, h1)" "\<forall>u \<in> set coins. numbered index u"
    and "total_units index coins < 2 ^ 64" "0 < amount" "selectAssetInputs std_sort bk index amount h = (r, h')"
  shows "(\<forall>sel. r = Inr sel \<longrightarrow> mset sel \<subseteq># mset coins \<and> unat amount \<le> total_units index sel \<and> best_choice index amount coins sel \<and>
      (\<forall>u \<in> set sel. \<exists>a \<in> set (ut_assets u). assetIndex a = index \<and> assertTransferableAsset a (bk_height bk) (bk_now bk) = Inr ())) \<and>
    (r = Inl NotEnoughFunds \<longrightarrow> total_units index coins < unat amount)"
  by (rule selectAssetInputs_spec[OF assms])

theorem selection_witness:
  "selectAssetInputs insertion_sorter selection_backend 7 50 [] = (Inr [held_coin ''e'' 60], [ListUnspent 1]) \<and>
   best_choice 7 50 sample_coins [held_coin ''e'' 60]"
proof -
  have n: "\<forall>u \<in> set sample_coins. numbered 7 u" "total_units 7 sample_coins < 2 ^ 64"
    by (simp_all add: sample_coins_def numbered_def is_ok_def held_count)
  show ?thesis
    using selection_is_best[OF insertion_sorter_ok sample_wallet n _ sample_selection] sample_selection by simp
qed

text \<open>
  C19. Printed amounts are read back exactly: the text of an asset's count, with up to seven
  decimals, gives the count to \<open>parseAssetAmount\<close>, and \<open>dgbToSats\<close> reads
  the text \<open>satsToDecimal\<close> makes of any amount below 2^63.
\<close>

theorem amounts_round_trip:
  assumes "divisibility a \<le> 7" "0 < da_count a" "da_count a \<le> MAX_ASSET_COUNT"
    and "\<not> jv_isIntegral j" "\<not> jv_isDouble j" "jv_asString j = Inr (getStrCount a)" "unat sats < 2 ^ 63"
  shows "parseAssetAmount j (divisibility a) = Inr (da_count a) \<and> dgb_text_to_sats (satsToDecimal sats) = Inr (uint sats)"
  using parse_getStrCount[OF assms(1-6)] dgb_of_sats[OF assms(7)] by simp

theorem amount_witness:
  "parseAssetAmount \<lparr>jv_isIntegral = False, jv_isString = True, jv_isDouble = False, jv_asInt64 = Inr 0,
      jv_asString = Inr (getStrCount (sample_asset\<lparr>divisibility := 2\<rparr>)), jv_printed = (\<lambda>_. [])\<rparr> 2 = Inr 100 \<and>
   dgb_text_to_sats (satsToDecimal 123456789) = Inr 123456789"
  using amounts_round_trip[of "sample_asset\<lparr>divisibility := 2\<rparr>"
      "\<lparr>jv_isIntegral = False, jv_isString = True, jv_isDouble = False, jv_asInt64 = Inr 0,
        jv_asString = Inr (getStrCount (sample_asset\<lparr>divisibility := 2\<rparr>)), jv_printed = (\<lambda>_. [])\<rparr>" 123456789]
  by (simp add: sample_asset_def MAX_ASSET_COUNT_def)

text \<open>
  C20. Amounts beyond the range of the satoshi type are not refused: for every whole number of
  DigiBytes from 92233720369 up to the largest that \<open>stoll\<close> reads, the signed
  multiplication overflows.
\<close>

theorem dgb_amount_overflows:
  assumes "list_all is_digit w" "92233720369 \<le> dec_value w" "dec_value w < 2 ^ 63" "jv_isString j" "jv_asString j = Inr (w @ ''.'' @ replicate 8 (CHR ''0''))"
  shows "dgbToSats j = Inl UndefinedBehaviour"
  using dgb_text_overflow[OF assms(1-3)] assms(4,5) by (simp add: dgbToSats_def)

theorem overflow_witness:
  "dgbToSats \<lparr>jv_isIntegral = False, jv_isString = True, jv_isDouble = False, jv_asInt64 = Inr 0,
      jv_asString = Inr (''92233720369'' @ ''.'' @ replicate 8 (CHR ''0'')), jv_printed = (\<lambda>_. [])\<rparr> = Inl UndefinedBehaviour"
proof -
  have "list_all is_digit ''92233720369''" by (simp add: is_digit_def)
  moreover have "dec_value ''92233720369'' = 92233720369" by (simp add: dec_value_def)
  ultimately show ?thesis by (intro dgb_amount_overflows[of "''92233720369''"]) simp_all
qed

text \<open>
  C21. What the wallet refuses as expired: the rule check fails for every transfer of such an asset
  that gives units to a new holder, and passes for exactly those transfers that give nobody more
  than before, which the refusal stops too.
\<close>

theorem expired_assets_are_refused:
  assumes "assertTransferableAsset a height time = Inl refuse_expired" "asset_changes (assetIndex a) ins outs = Inr changes"
  shows "DigiAsset_checkRulesPass node ins outs height time a = Inr () \<longleftrightarrow> consolidation changes"
  using expired_refused[OF assms] by simp

theorem expired_witness:
  "assertTransferableAsset (sample_asset\<lparr>da_rules := DigiAssetRules_default\<lparr>noRules := False, expiry := 5\<rparr>\<rparr>) 10 0 = Inl refuse_expired \<and>
   DigiAsset_checkRulesPass sample_node [] [] 10 0 (sample_asset\<lparr>da_rules := DigiAssetRules_default\<lparr>noRules := False, expiry := 5\<rparr>\<rparr>) = Inr ()"
proof -
  let ?a = "sample_asset\<lparr>da_rules := DigiAssetRules_default\<lparr>noRules := False, expiry := 5\<rparr>\<rparr>"
  have e: "assertTransferableAsset ?a 10 0 = Inl refuse_expired"
    by (simp add: assertTransferableAsset_def sample_asset_def DigiAsset_default_def DigiAssetRules_default_def rules_empty_def
        getIfRequiresRoyalty_def getRequiredBurn_def getRequiredSignerWeight_def getIfExpired_def EXPIRE_NEVER_def MIN_EPOCH_VALUE_def)
  have c: "asset_changes (assetIndex ?a) [] [] = Inr []" by (simp add: asset_changes_def)
  show ?thesis using expired_assets_are_refused[OF e c] e by (simp add: consolidation_def)
qed

section \<open>Assets and identities\<close>

text \<open>
  C22. The identifier of an asset carries its type. The object the database makes from the
  identifier computed for an issued asset has the lock status, the aggregation and the decimals the
  asset was issued with, whatever transaction issued it.
\<close>

theorem asset_id_carries_type:
  assumes "divisibility a \<le> 7" "aggregation a \<le> DISPERSED" "calculateAssetId l vin (getIssuanceFlags a) = Inr aid"
  shows "\<exists>b. DigiAsset_of_db index aid cid kyc rules created updated n = Inr b \<and> assetId b = aid \<and>
    da_locked b = da_locked a \<and> aggregation b = aggregation a \<and> divisibility b = divisibility a \<and>
    isAggregable b = isAggregable a \<and> isHybrid b = isHybrid a \<and> isDispersed b = isDispersed a"
  by (rule asset_id_type[OF assms])

theorem id_witness:
  "\<exists>aid b. calculateAssetId True sample_vin (getIssuanceFlags new_asset) = Inr aid \<and>
    DigiAsset_of_db 1 aid [] KYC_default DigiAssetRules_default 0 0 5 = Inr b \<and> da_locked b \<and> divisibility b = 2"
proof -
  obtain aid where "calculateAssetId True sample_vin (getIssuanceFlags new_asset) = Inr aid"
    using calculateAssetId_locked by blast
  moreover have "divisibility new_asset \<le> 7" "aggregation new_asset \<le> DISPERSED" "da_locked new_asset" "divisibility new_asset = 2"
    by (simp_all add: new_asset_def DigiAsset_default_def DISPERSED_def)
  ultimately show ?thesis
    using asset_id_carries_type[of new_asset True sample_vin aid 1 "[]" KYC_default DigiAssetRules_default 0 0 5] by auto
qed

text \<open>
  C23. Rules that were not declared rewritable are never replaced: a new issuance of an unlocked
  aggregable asset takes over the old rules, and the setter refuses.
\<close>

theorem fixed_rules_stay:
  assumes "handleRulesConflict node a = Inr a'" "\<not> da_locked a" "isAggregable a"
    and "getRules node (assetId a) = Inr old" "\<not> rules_empty old" "\<not> isRewritable old"
  shows "a' = a\<lparr>da_rules := old\<rparr> \<and> setRules r a' = Inl WriteProtected"
  using old_rules_win[OF assms] assms(6) by (simp add: setRules_def)

theorem old_rules_witness:
  "handleRulesConflict (sample_node\<lparr>getRules := \<lambda>_. Inr (DigiAssetRules_default\<lparr>noRules := False, rewritable := False\<rparr>)\<rparr>) sample_asset =
     Inr (sample_asset\<lparr>da_rules := DigiAssetRules_default\<lparr>noRules := False, rewritable := False\<rparr>\<rparr>)"
proof -
  let ?old = "DigiAssetRules_default\<lparr>noRules := False, rewritable := False\<rparr>"
  let ?n = "sample_node\<lparr>getRules := \<lambda>_. Inr ?old\<rparr>"
  have a: "\<not> da_locked sample_asset" "isAggregable sample_asset" "getRules ?n (assetId sample_asset) = Inr ?old"
    "\<not> rules_empty ?old" "\<not> isRewritable ?old"
    by (simp_all add: sample_asset_def DigiAsset_default_def isAggregable_def AGGREGABLE_def rules_empty_def isRewritable_def)
  have "is_ok (handleRulesConflict ?n sample_asset)" using a(3) by (simp add: handleRulesConflict_def is_ok_def)
  then obtain b where b: "handleRulesConflict ?n sample_asset = Inr b" by (auto simp: is_ok_def split: sum.splits)
  then show ?thesis using fixed_rules_stay[OF b a] by simp
qed





section \<open>DigiDollar, identifiers and hashes\<close>

text \<open>
  C26. The DigiDollar form of every taproot address of a known network exists, and converting it
  back gives the address: bech32m, base58check and the two network tables are inverse to each other.
\<close>

theorem dd_address_round_trip:
  assumes "hrp \<in> fst ` set DD_NETWORKS" "length p = 32"
  shows "decodeTaproot (encodeTaproot hrp p) = Some (hrp, p) \<and>
    (\<exists>x. toDigiDollarAddress (encodeTaproot hrp p) = Inr x \<and> x \<noteq> [] \<and>
      fromDigiDollarAddress x = Inr (map tolower (encodeTaproot hrp p)))"
  using decode_encode_taproot[OF assms] dd_address_made[OF assms] dd_address_back by blast

theorem dd_witness:
  "\<exists>x. toDigiDollarAddress (encodeTaproot ''dgb'' (replicate 32 7)) = Inr x \<and> x \<noteq> [] \<and>
      fromDigiDollarAddress x = Inr (map tolower (encodeTaproot ''dgb'' (replicate 32 7)))"
  using dd_address_round_trip[of "''dgb''" "replicate 32 7"] by (simp add: DD_NETWORKS_def)

text \<open>
  C27. The amounts of a DigiDollar transaction are never invented: when they are assigned to outputs
  at all, the assigned amounts add up to the announced ones, and each goes to an output of the
  transaction that can hold DigiDollars.
\<close>

theorem dd_amounts_assigned:
  assumes "mapAmountsToOutputs tx md \<noteq> []"
  shows "sum_list (map (\<lambda>p. unat (snd p)) (mapAmountsToOutputs tx md)) = sum_list (map unat (md_amounts md)) \<and>
    (\<forall>(n, a) \<in> set (mapAmountsToOutputs tx md). a \<noteq> 0 \<and> (\<exists>out \<in> set (tx_vout tx). dd_output out \<and> n = of_nat (out_n out)))"
  using mapAmounts_total[OF assms] mapAmounts_outputs by fast

theorem dd_amounts_witness:
  "mapAmountsToOutputs ((chain_tx [])\<lparr>tx_vout := [(pay_output 0 ''D'')\<lparr>valueS := 0, spk_type := ''witness_v1_taproot''\<rparr>]\<rparr>)
     (Metadata_default\<lparr>md_amounts := [5]\<rparr>) = [(0, 5)] \<and> (5 :: u64) \<noteq> 0"
proof -
  have e: "mapAmountsToOutputs ((chain_tx [])\<lparr>tx_vout := [(pay_output 0 ''D'')\<lparr>valueS := 0, spk_type := ''witness_v1_taproot''\<rparr>]\<rparr>)
     (Metadata_default\<lparr>md_amounts := [5]\<rparr>) = [(0, 5)]"
    by (simp add: mapAmountsToOutputs_def dd_output_def isTaprootOutput_def pay_output_def chain_tx_def)
  show ?thesis using dd_amounts_assigned[of "(chain_tx [])\<lparr>tx_vout := [(pay_output 0 ''D'')\<lparr>valueS := 0, spk_type := ''witness_v1_taproot''\<rparr>]\<rparr>"
      "Metadata_default\<lparr>md_amounts := [5]\<rparr>"] e by simp
qed

text \<open>
  C28. The content identifier of a SHA-256 hash gives the hash back: the hash of the metadata that
  an issuance carries survives the way through the identifier the node stores.
\<close>

theorem cid_keeps_the_hash:
  assumes "hex_chars m" "length m = 64"
  shows "bindE (sha256ToCID_hex m) cidToSha256 = Inr (map tolower m)"
  by (rule cid_round_trip[OF assms])

theorem cid_witness:
  "bindE (sha256ToCID_hex (replicate 64 (CHR ''A''))) cidToSha256 = Inr (map tolower (replicate 64 (CHR ''A'')))"
proof -
  have "hex_chars (replicate 64 (CHR ''A''))" by code_simp
  then show ?thesis using cid_keeps_the_hash by simp
qed



text \<open>
  C30. The compression function of RIPEMD-160, written out as 160 lines with rotating variables, is
  the reference definition with its two lines of 80 steps.
\<close>

theorem ripemd160_is_reference:
  assumes "length h = 5"
  shows "compress h X = compress_reference h X"
  by (rule compress_is_reference[OF assms])

theorem rmd_witness: "compress [1, 2, 3, 4, 5] [] = compress_reference [1, 2, 3, 4, 5] []"
  using ripemd160_is_reference[of "[1, 2, 3, 4, 5]" "[]"] by simp

text \<open>
  C31. The eight bytes of a double, most significant first, are read as the IEEE-754 value they
  encode: sign, exponent and mantissa, subnormal numbers, infinities and not-a-number included.
\<close>

theorem doubles_are_ieee:
  "double_of_bytes (map (word_byte w) [7, 6, 5, 4, 3, 2, 1, 0]) = ieee_double w"
  by (rule double_of_bytes_ieee)

section \<open>The rules of an asset\<close>





section \<open>The bit stream\<close>

text \<open>
  C34. \<open>insertBits\<close> inserts: the bits before the cursor stay, the value follows in its
  width, the bits behind the cursor come after it, and the cursor moves behind the inserted value.
  The loops over 64-bit words with shifts and masks lose no bit at any cursor and width.
\<close>

theorem insertBits_inserts:
  assumes "bitio_inv s" "0 < n" "n \<le> 64" "fits n v"
  shows "\<exists>s'. insertBits v n s = Inr s' \<and> bitio_inv s' \<and> position s' = position s + n \<and>
     to_bits s' = take (position s) (to_bits s) @ val_bits n v @ drop (position s) (to_bits s)"
  using insertBits_spec[OF assms] by blast

theorem insertBits_witness:
  "\<exists>s'. insertBits 5 3 (\<lparr>bits = [0xF000000000000000], position = 2, blength = 4\<rparr>) = Inr s' \<and> bitio_inv s' \<and>
     position s' = 5 \<and> to_bits s' = [True, True, True, False, True, True, True]"
proof -
  let ?s = "\<lparr>bits = [0xF000000000000000], position = 2, blength = 4\<rparr> :: BitIO"
  have "bitio_inv ?s" "fits 3 (5 :: u64)"
    "take (position ?s) (to_bits ?s) @ val_bits 3 5 @ drop (position ?s) (to_bits ?s) =
      [True, True, True, False, True, True, True]"
    by code_simp+
  then show ?thesis using insertBits_inserts[of ?s 3 5] by simp
qed

text \<open>
  C35. The excluded case of \<open>setBits\<close> is a write past the vector: with the cursor at
  the end of a stream of a multiple of 64 bits, a 64-bit value is written into a word that was never
  allocated, whatever the value.
\<close>

theorem setBits_past_the_end:
  assumes "bitio_inv s" "position s = blength s" "blength s mod 64 = 0"
  shows "setBits v 64 s = Inl UndefinedBehaviour"
  using setBits_end_undefined[OF assms] .

theorem setBits_undefined_witness: "setBits 7 64 BitIO_empty = Inl UndefinedBehaviour"
  by (rule setBits_past_the_end) code_simp+

text \<open>
  C36. What is appended is what is read: a sequence of fields of any widths from 1 to 64 bits,
  written one after the other with \<open>appendBits\<close>, is read back by \<open>getBits\<close>
  with the same widths, value by value, across every word boundary, and leaves the cursor at the end
  of the stream.
\<close>

theorem appended_fields_round_trip:
  assumes "list_all (\<lambda>(n, v). field_ok n v) fs"
  shows "\<exists>s' s''. put_fields appendBits fs BitIO_empty = Inr s' \<and>
    get_fields getBits (map fst fs) s' = Inr (map snd fs, s'') \<and> rest_bits s'' = []"
proof -
  have "bitio_inv BitIO_empty" "rest_bits BitIO_empty = []" by (simp_all add: BitIO_empty_def bitio_inv_def rest_bits_def to_bits_def)
  from bio.fields_round_trip[OF this assms] show ?thesis by blast
qed

theorem fields_witness:
  "\<exists>s' s''. put_fields appendBits [(7, 100), (64, 0xDEADBEEF12345678), (1, 1)] BitIO_empty = Inr s' \<and>
    get_fields getBits [7, 64, 1] s' = Inr ([100, 0xDEADBEEF12345678, 1], s'') \<and> rest_bits s'' = []"
proof -
  have "list_all (\<lambda>(n, v). field_ok n v) [(7, 100), (64, 0xDEADBEEF12345678), (1, 1)]"
    by (simp add: field_ok_def fits_def)
  from appended_fields_round_trip[OF this] show ?thesis by (simp only: list.map fst_conv snd_conv)
qed

section \<open>Numbers and data\<close>

text \<open>
  C37. Amounts survive the variable-width format: every amount up to 18014398509481983 except
  10000000000000000, whatever form it takes (one byte, a mantissa with a power of ten, or 54 bits),
  appended to any stream is read back unchanged with the cursor behind it.
\<close>

theorem fixed_precision_round_trip:
  assumes "v \<le> 18014398509481983" "v \<noteq> 10000000000000000" "bitio_inv s"
  shows "\<exists>b s'. makeFixedPrecision v = Inr b \<and> appendBits_stream b s = Inr s' \<and>
    getFixedPrecision (s'\<lparr>position := blength s\<rparr>) = Inr (v, movePositionToEnd s')"
proof -
  have "fp_valid v" using assms(1,2) by (simp add: fp_valid_def)
  from fp.append_get[OF this assms(3)] show ?thesis by blast
qed

theorem fixed_precision_witness:
  "\<exists>b s'. makeFixedPrecision 1234500000 = Inr b \<and> appendBits_stream b BitIO_empty = Inr s' \<and>
    getFixedPrecision (s'\<lparr>position := blength BitIO_empty\<rparr>) = Inr (1234500000, movePositionToEnd s')"
  by (rule fixed_precision_round_trip[OF _ _ sample_encodable(4)]) simp_all

text \<open>
  C38. The script of an output carries its payload: the header \<open>makeBitcoin\<close> puts in
  front of 1 to 2^32-1 whole bytes (an OP_RETURN and a push of the shortest form for the size) is
  recognised by \<open>checkIsBitcoinOpReturn\<close> and stripped by
  \<open>copyBitcoinData\<close>, which returns exactly the payload.
\<close>

theorem op_return_round_trip:
  assumes "bitio_inv s" "blength s = 8 * n" "0 < n" "n < 2 ^ 32"
  shows "\<exists>s' s1 s2 r. makeBitcoin_stream True s = Inr s' \<and>
    checkIsBitcoinOpReturn (movePositionToBeginning s') = Inr (True, s1) \<and>
    copyBitcoinData s1 = Inr (r, s2) \<and> to_bits r = to_bits s"
proof -
  obtain s' where s': "makeBitcoin_stream True s = Inr s'" "bitio_inv s'"
      "to_bits s' = val_bits 8 106 @ fields_image (push_header n) @ to_bits s"
    using makeBitcoin_stream_spec[OF assms(1,2,4), of True] by auto
  let ?s = "movePositionToBeginning s'"
  have a: "ahead ?s (val_bits 8 106)" "ahead (skip_bits 8 ?s) (fields_image (push_header n) @ to_bits s)"
    using s'(2,3) ahead_append_iff[of ?s "val_bits 8 106" "fields_image (push_header n) @ to_bits s"]
    by (simp_all add: ahead_def rest_bits_def movePositionToBeginning_def)
  obtain r where "copyBitcoinData (skip_bits 8 ?s) = Inr (r, skip_bits (length (fields_image (push_header n)) + 8 * n) (skip_bits 8 ?s))"
      "holds r (to_bits s)"
    using copyBitcoinData_image[OF assms(3,4) a(2)] assms(2) by auto
  then show ?thesis using s'(1) checkIsBitcoinOpReturn_found[OF a(1)] by (auto simp: holds_def)
qed

theorem op_return_witness:
  "\<exists>s' s1 s2 r. makeBitcoin_stream True \<lparr>bits = [0x4441030100000000], position = 0, blength = 32\<rparr> = Inr s' \<and>
    checkIsBitcoinOpReturn (movePositionToBeginning s') = Inr (True, s1) \<and> copyBitcoinData s1 = Inr (r, s2) \<and>
    to_bits r = to_bits \<lparr>bits = [0x4441030100000000], position = 0, blength = 32\<rparr>"
  by (rule op_return_round_trip[where n = 4]) (code_simp, simp, simp, simp)

section \<open>Strings\<close>



text \<open>
  C40. UTF-8 text of one- to four-byte characters with lead bytes below 0xdf, 0xef and 0xf7 in their
  classes is packed without the redundant header bits and read back byte for byte.
\<close>

theorem utf8_round_trip:
  assumes "list_all utf8_char cs"
  shows "\<exists>b. makeUTF8String (concat cs) = Inr b \<and>
    getUTF8String (length cs) b = Inr (concat cs, skip_bits (length (utf8_image cs)) b)"
proof -
  obtain b where b: "makeUTF8String (concat cs) = Inr b" "holds b (utf8_image cs)"
    using makeUTF8String_holds[OF assms] by blast
  show ?thesis using b(1) getUTF8String_image[OF assms holds_ahead[OF b(2)]] by blast
qed

theorem utf8_witness:
  "\<exists>b. makeUTF8String (concat [[CHR ''a''], [CHR 0xC3, CHR 0xA9], [CHR 0xE2, CHR 0x82, CHR 0xAC]]) = Inr b \<and>
    getUTF8String (length [[CHR ''a''], [CHR 0xC3, CHR 0xA9], [CHR 0xE2, CHR 0x82, CHR 0xAC]]) b =
      Inr (concat [[CHR ''a''], [CHR 0xC3, CHR 0xA9], [CHR 0xE2, CHR 0x82, CHR 0xAC]],
        skip_bits (length (utf8_image [[CHR ''a''], [CHR 0xC3, CHR 0xA9], [CHR 0xE2, CHR 0x82, CHR 0xAC]])) b)"
  by (rule utf8_round_trip) code_simp

end
